(* ===== verification/Youth_Prelude.thy ===== *)
theory Youth_Prelude
  imports Main "HOL-Library.Word"
begin

text \<open>
  Shared vocabulary of the development: the outcome of a C++ call that may not return
  normally (\<open>'a res\<close>), the byte-level view of integers (\<open>char\<close> is exactly an 8-bit byte,
  \<open>string\<close> is \<open>std::string\<close> or a \<open>char\<close> array), the \<open>std::copy\<close>, \<open>std::search\<close>
  and \<open>std::find\<close> algorithms the sources use, and the generic facts on lists and
  reachable states that the component theories rest on.
\<close>

section \<open>Collections of facts\<close>

named_theorems res_simps \<open>rewriting of results that may be faults\<close>
named_theorems inv_intros \<open>preservation of component invariants\<close>

section \<open>Outcomes\<close>

text \<open>
  A call either returns or ends the process: a failed \<open>assert\<close> (checked builds), a
  \<open>LOG_FATAL\<close> (which aborts), an exception nobody catches, or an access outside the
  object it is made on (undefined behaviour, shown as a fault rather than as a value).
\<close>

datatype fault = AssertFailed | FatalAbort | UncaughtException | MemoryError

type_synonym 'a res = "fault + 'a"

definition bindR :: "'a res \<Rightarrow> ('a \<Rightarrow> 'b res) \<Rightarrow> 'b res" where
  "bindR m f = (case m of Inl e \<Rightarrow> Inl e | Inr x \<Rightarrow> f x)"

definition cassert :: "bool \<Rightarrow> 'a res \<Rightarrow> 'a res" where
  "cassert P k = (if P then k else Inl AssertFailed)"

lemma bindR_Inr [simp, res_simps]: "bindR (Inr x) f = f x"
  by (simp add: bindR_def)

lemma bindR_Inl [simp, res_simps]: "bindR (Inl e) f = Inl e"
  by (simp add: bindR_def)

lemma bindR_eq_Inr [res_simps]: "bindR m f = Inr y \<longleftrightarrow> (\<exists>x. m = Inr x \<and> f x = Inr y)"
  by (cases m) auto

lemma bindR_assoc: "bindR (bindR m f) g = bindR m (\<lambda>x. bindR (f x) g)"
  by (cases m) auto

lemma cassert_True [simp, res_simps]: "P \<Longrightarrow> cassert P k = k"
  by (simp add: cassert_def)

lemma cassert_eq_Inr [res_simps]: "cassert P k = Inr y \<longleftrightarrow> P \<and> k = Inr y"
  by (simp add: cassert_def)

lemma cassert_eq_Inl [res_simps]:
  "cassert P k = Inl e \<longleftrightarrow> (if P then k = Inl e else e = AssertFailed)"
  by (auto simp: cassert_def)

text \<open>
  \<open>returns m P\<close>: the call returns, and its value satisfies \<open>P\<close> (total correctness). The
  rules below compute it backwards through a sequence of calls.
\<close>

definition returns :: "'a res \<Rightarrow> ('a \<Rightarrow> bool) \<Rightarrow> bool" where
  "returns m P = (case m of Inl e \<Rightarrow> False | Inr x \<Rightarrow> P x)"

lemma returns_Inr [simp, res_simps]: "returns (Inr x) P = P x"
  by (simp add: returns_def)

lemma returns_Inl [simp, res_simps]: "\<not> returns (Inl e) P"
  by (simp add: returns_def)

lemma returns_bindR [simp, res_simps]:
  "returns (bindR m f) P = returns m (\<lambda>x. returns (f x) P)"
  by (cases m) auto

lemma returns_cassert [simp, res_simps]: "returns (cassert A k) P = (A \<and> returns k P)"
  by (simp add: cassert_def)

lemma returns_if [res_simps]:
  "returns (if c then m else n) P = ((c \<longrightarrow> returns m P) \<and> (\<not> c \<longrightarrow> returns n P))"
  by simp

lemma returns_mono [elim]:
  "returns m P \<Longrightarrow> (\<And>x. m = Inr x \<Longrightarrow> P x \<Longrightarrow> Q x) \<Longrightarrow> returns m Q"
  by (cases m) auto

lemma returns_iff: "returns m P \<longleftrightarrow> (\<exists>x. m = Inr x \<and> P x)"
  by (cases m) auto

lemma returnsE: "returns m P \<Longrightarrow> (\<And>x. m = Inr x \<Longrightarrow> P x \<Longrightarrow> R) \<Longrightarrow> R"
  by (auto simp: returns_iff)

section \<open>Copying inside an array\<close>

text \<open>
  \<open>blit d xs v\<close> is the array \<open>v\<close> with the bytes \<open>xs\<close> stored from index \<open>d\<close> on.
  \<open>std_copy first n d v\<close> is \<open>std::copy(v + first, v + first + n, v + d)\<close> as the standard
  defines it: one assignment per element, front to back, in the same array.
\<close>

definition blit :: "nat \<Rightarrow> 'a list \<Rightarrow> 'a list \<Rightarrow> 'a list" where
  "blit d xs v = take d v @ xs @ drop (d + length xs) v"

fun std_copy :: "nat \<Rightarrow> nat \<Rightarrow> nat \<Rightarrow> 'a list \<Rightarrow> 'a list" where
  "std_copy first 0 d v = v"
| "std_copy first (Suc n) d v = std_copy (Suc first) n (Suc d) (v[d := v ! first])"

lemma length_blit [simp]: "d + length xs \<le> length v \<Longrightarrow> length (blit d xs v) = length v"
  by (simp add: blit_def)

lemma blit_Nil [simp]: "d \<le> length v \<Longrightarrow> blit d [] v = v"
  by (simp add: blit_def)

lemma blit_Cons:
  "d < length v \<Longrightarrow> blit d (x # xs) v = blit (Suc d) xs (v[d := x])"
  by (simp add: blit_def take_Suc_conv_app_nth upd_conv_take_nth_drop min_def add.commute)

lemma take_blit [simp]: "n \<le> d \<Longrightarrow> d \<le> length v \<Longrightarrow> take n (blit d xs v) = take n v"
  by (simp add: blit_def min_def)

lemma take_drop_blit [simp]:
  "d \<le> length v \<Longrightarrow> take (length xs) (drop d (blit d xs v)) = xs"
  by (simp add: blit_def)

lemma length_std_copy [simp]: "length (std_copy f n d v) = length v"
  by (induction n arbitrary: f d v) auto

lemma std_copy_blit:
  "d \<le> f \<Longrightarrow> f + n \<le> length v \<Longrightarrow> std_copy f n d v = blit d (take n (drop f v)) v"
proof (induction n arbitrary: f d v)
  case 0
  then show ?case by simp
next
  case (Suc n)
  let ?v = "v[d := v ! f]"
  from Suc.prems have "drop (Suc f) ?v = drop (Suc f) v" by simp
  moreover from Suc.prems have "take (Suc n) (drop f v) = v ! f # take n (drop (Suc f) v)"
    by (simp add: Cons_nth_drop_Suc [symmetric])
  moreover from Suc have "std_copy (Suc f) n (Suc d) ?v = blit (Suc d) (take n (drop (Suc f) ?v)) ?v"
    by simp
  ultimately show ?case using Suc.prems by (simp add: blit_Cons)
qed

section \<open>Searching\<close>

text \<open>
  \<open>search_at pat s\<close> is the offset \<open>std::search\<close> finds the pattern at, or \<open>None\<close> when it
  returns the end iterator. \<open>find_char c s\<close> is the offset of \<open>std::find\<close>, which is the
  length of the range when the character does not occur.
\<close>

fun prefixb :: "'a list \<Rightarrow> 'a list \<Rightarrow> bool" where
  "prefixb [] ys = True"
| "prefixb (x # xs) [] = False"
| "prefixb (x # xs) (y # ys) = (x = y \<and> prefixb xs ys)"

fun search_at :: "'a list \<Rightarrow> 'a list \<Rightarrow> nat option" where
  "search_at pat [] = (if pat = [] then Some 0 else None)"
| "search_at pat (x # xs) =
     (if prefixb pat (x # xs) then Some 0 else map_option Suc (search_at pat xs))"

fun find_char :: "'a \<Rightarrow> 'a list \<Rightarrow> nat" where
  "find_char c [] = 0"
| "find_char c (x # xs) = (if x = c then 0 else Suc (find_char c xs))"

lemma prefixb_iff: "prefixb xs ys \<longleftrightarrow> take (length xs) ys = xs"
  by (induction xs ys rule: prefixb.induct) auto

lemma prefixb_append: "prefixb xs ys \<longleftrightarrow> (\<exists>zs. ys = xs @ zs)"
  by (induction xs ys rule: prefixb.induct) auto

lemma search_at_Some:
  "search_at pat s = Some i \<Longrightarrow>
     i + length pat \<le> length s \<and> take (length pat) (drop i s) = pat \<and>
     (\<forall>j < i. take (length pat) (drop j s) \<noteq> pat)"
proof (induction s arbitrary: i)
  case Nil
  then show ?case by (auto split: if_splits)
next
  case (Cons x xs)
  show ?case
  proof (cases "prefixb pat (x # xs)")
    case True
    with Cons.prems have "i = 0" by simp
    with True show ?thesis
      by (metis add_0 drop0 le_cases length_take min.absorb2 not_less_zero prefixb_iff take_all)
  next
    case False
    with Cons.prems obtain k where k: "search_at pat xs = Some k" "i = Suc k" by auto
    have "take (length pat) (drop j (x # xs)) \<noteq> pat" if "j < i" for j
      using that False Cons.IH [OF k(1)] k(2) by (cases j) (auto simp: prefixb_iff)
    with Cons.IH [OF k(1)] k(2) show ?thesis by auto
  qed
qed

lemma search_at_None:
  "search_at pat s = None \<Longrightarrow> take (length pat) (drop j s) \<noteq> pat"
proof (induction s arbitrary: j)
  case Nil
  then show ?case by (auto split: if_splits)
next
  case (Cons x xs)
  then show ?case by (cases j) (auto simp: prefixb_iff split: if_splits)
qed

lemma search_at_append:
  assumes "search_at pat s = Some i"
  shows "search_at pat (s @ t) = Some i"
  using assms
proof (induction s arbitrary: i)
  case Nil
  then show ?case by (cases t) (auto split: if_splits)
next
  case (Cons x xs)
  show ?case
  proof (cases "prefixb pat (x # xs)")
    case True
    then have "prefixb pat ((x # xs) @ t)"
      by (metis append.assoc prefixb_append)
    with True Cons.prems show ?thesis by simp
  next
    case False
    with Cons.prems obtain k where k: "search_at pat xs = Some k" "i = Suc k" by auto
    have "length pat \<le> length xs" using search_at_Some [OF k(1)] by simp
    then have "take (length pat) ((x # xs) @ t) = take (length pat) (x # xs)" by (subst take_append) simp
    with False have "\<not> prefixb pat (x # xs @ t)" by (simp add: prefixb_iff)
    with Cons.IH [OF k(1)] k(2) show ?thesis by simp
  qed
qed

lemma find_char_le: "find_char c s \<le> length s"
  by (induction s) auto

lemma find_char_lt: "find_char c s < length s \<longleftrightarrow> c \<in> set s"
  by (induction s) auto

lemma find_char_nth: "c \<in> set s \<Longrightarrow> s ! find_char c s = c"
  by (induction s) auto

lemma find_char_take: "c \<notin> set (take (find_char c s) s)"
  by (induction s) auto

lemma find_char_append:
  "find_char c (s @ t) = (if c \<in> set s then find_char c s else length s + find_char c t)"
  by (induction s) auto

text \<open>\<open>isspace\<close> of the C locale.\<close>

definition isspace :: "char \<Rightarrow> bool" where
  "isspace c \<longleftrightarrow> c \<in> {CHR '' '', CHR 0x09, CHR 0x0A, CHR 0x0B, CHR 0x0C, CHR 0x0D}"

section \<open>Integers in memory\<close>

text \<open>
  \<open>le_bytes n v\<close> are the \<open>n\<close> bytes of \<open>v\<close>, least significant first. An object of a
  \<open>w\<close>-bit integer type occupies \<open>w div 8\<close> bytes in the byte order of the host.
\<close>

datatype endian = LittleEndian | BigEndian

fun le_bytes :: "nat \<Rightarrow> nat \<Rightarrow> char list" where
  "le_bytes 0 v = []"
| "le_bytes (Suc n) v = char_of v # le_bytes n (v div 256)"

fun le_value :: "char list \<Rightarrow> nat" where
  "le_value [] = 0"
| "le_value (c # cs) = of_char c + 256 * le_value cs"

definition be_bytes :: "nat \<Rightarrow> nat \<Rightarrow> char list" where
  "be_bytes n v = rev (le_bytes n v)"

definition be_value :: "char list \<Rightarrow> nat" where
  "be_value cs = le_value (rev cs)"

definition mem_of :: "endian \<Rightarrow> 'a::len word \<Rightarrow> char list" where
  "mem_of e w = (let bs = le_bytes (LENGTH('a) div 8) (unat w) in
     case e of LittleEndian \<Rightarrow> bs | BigEndian \<Rightarrow> rev bs)"

definition of_mem :: "endian \<Rightarrow> char list \<Rightarrow> 'a::len word" where
  "of_mem e cs = word_of_nat (le_value (case e of LittleEndian \<Rightarrow> cs | BigEndian \<Rightarrow> rev cs))"

definition bswap :: "'a::len word \<Rightarrow> 'a word" where
  "bswap w = of_mem BigEndian (mem_of LittleEndian w)"

lemma length_le_bytes [simp]: "length (le_bytes n v) = n"
  by (induction n arbitrary: v) auto

lemma length_be_bytes [simp]: "length (be_bytes n v) = n"
  by (simp add: be_bytes_def)

lemma length_mem_of [simp]: "length (mem_of e (w :: 'a::len word)) = LENGTH('a) div 8"
  by (cases e) (simp_all add: mem_of_def)

lemma le_value_less: "le_value cs < 256 ^ length cs"
proof (induction cs)
  case Nil
  then show ?case by simp
next
  case (Cons c cs)
  have "of_char c < (256::nat)" by simp
  then have "of_char c + 256 * le_value cs < 256 * Suc (le_value cs)" by simp
  also from Cons have "\<dots> \<le> 256 * 256 ^ length cs" by (intro mult_le_mono) auto
  finally show ?case by simp
qed

lemma le_value_le_bytes: "le_value (le_bytes n v) = v mod 256 ^ n"
proof (induction n arbitrary: v)
  case 0
  then show ?case by simp
next
  case (Suc n)
  have "v mod 256 + 256 * (v div 256 mod 256 ^ n) = v mod (256 * 256 ^ n)"
    by (simp add: mod_mult2_eq)
  with Suc show ?case by simp
qed

lemma le_bytes_le_value: "le_bytes (length cs) (le_value cs) = cs"
proof (induction cs)
  case Nil
  then show ?case by simp
next
  case (Cons c cs)
  have "(of_char c + 256 * le_value cs) div 256 = le_value cs"
    by simp
  moreover have "char_of (of_char c + 256 * le_value cs) = c"
    by (metis char_of_char char_of_mod_256 mod_mult_self2)
  ultimately show ?case using Cons by simp
qed

lemma pow_256_div_8: "8 dvd n \<Longrightarrow> (256::nat) ^ (n div 8) = 2 ^ n"
proof -
  assume "8 dvd n"
  then have "(2::nat) ^ n = (2 ^ 8) ^ (n div 8)" by (simp only: power_mult [symmetric]) simp
  then show ?thesis by simp
qed

lemma of_mem_mem_of:
  "8 dvd LENGTH('a) \<Longrightarrow> of_mem e (mem_of e (w :: 'a::len word)) = w"
  by (cases e) (simp_all add: of_mem_def mem_of_def le_value_le_bytes pow_256_div_8)

lemma mem_of_of_mem:
  assumes "8 dvd LENGTH('a)" and "length cs = LENGTH('a) div 8"
  shows "mem_of e (of_mem e cs :: 'a::len word) = cs"
proof -
  have "unat (word_of_nat (le_value bs) :: 'a word) = le_value bs" if "length bs = length cs" for bs
    using le_value_less [of bs] assms that
    by (simp add: unat_of_nat take_bit_eq_mod pow_256_div_8)
  then show ?thesis
    using le_bytes_le_value [of cs] le_bytes_le_value [of "rev cs"] assms(2)
    by (cases e) (simp_all add: of_mem_def mem_of_def)
qed

end
