(* ===== verification/Core_DateTime.thy ===== *)
theory Core_DateTime
  imports Complex_Main "HOL-Library.Signed_Division" Youth_Prelude
begin

text \<open>
  \<open>core/DateTime.hpp\<close> and \<open>core/DateTime.cc\<close>: points in time as microseconds since the epoch,
  their order, and the calendar arithmetic. \<open>localtime\<close>, \<open>mktime\<close>, \<open>strftime\<close> and
  \<open>get_time\<close> depend on the host's time zone database and locale and are arguments;
  the one law used of them is that \<open>mktime\<close> inverts \<open>localtime\<close>. Arithmetic is on
  unbounded integers: signed overflow is undefined in the source and out of range here.
\<close>

section \<open>Values and order\<close>

datatype datetime = DateTime (microSecondsSinceEpoch: int)

text \<open>The comparison operators of the class; \<open>==\<close> and \<open>!=\<close> compare the one field.\<close>

definition datetime_lt :: "datetime \<Rightarrow> datetime \<Rightarrow> bool" where
  "datetime_lt a b \<longleftrightarrow> microSecondsSinceEpoch a < microSecondsSinceEpoch b"

definition datetime_le :: "datetime \<Rightarrow> datetime \<Rightarrow> bool" where
  "datetime_le a b \<longleftrightarrow> microSecondsSinceEpoch a \<le> microSecondsSinceEpoch b"

definition datetime_gt :: "datetime \<Rightarrow> datetime \<Rightarrow> bool" where
  "datetime_gt a b \<longleftrightarrow> microSecondsSinceEpoch a > microSecondsSinceEpoch b"

definition datetime_ge :: "datetime \<Rightarrow> datetime \<Rightarrow> bool" where
  "datetime_ge a b \<longleftrightarrow> microSecondsSinceEpoch a \<ge> microSecondsSinceEpoch b"

definition datetime_eq :: "datetime \<Rightarrow> datetime \<Rightarrow> bool" where
  "datetime_eq a b \<longleftrightarrow> microSecondsSinceEpoch a = microSecondsSinceEpoch b"

definition datetime_ne :: "datetime \<Rightarrow> datetime \<Rightarrow> bool" where
  "datetime_ne a b \<longleftrightarrow> microSecondsSinceEpoch a \<noteq> microSecondsSinceEpoch b"

definition datetime_swap :: "datetime \<Rightarrow> datetime \<Rightarrow> datetime \<times> datetime" where
  "datetime_swap a b = (DateTime (microSecondsSinceEpoch b), DateTime (microSecondsSinceEpoch a))"

instantiation datetime :: linorder
begin

definition less_eq_datetime :: "datetime \<Rightarrow> datetime \<Rightarrow> bool" where
  "less_eq_datetime a b \<longleftrightarrow> microSecondsSinceEpoch a \<le> microSecondsSinceEpoch b"

definition less_datetime :: "datetime \<Rightarrow> datetime \<Rightarrow> bool" where
  "less_datetime a b \<longleftrightarrow> microSecondsSinceEpoch a < microSecondsSinceEpoch b"

instance
  by standard (auto simp: less_eq_datetime_def less_datetime_def intro: datetime.expand)

end

text \<open>The six operators are those of one linear order.\<close>

lemma datetime_operators:
  "datetime_lt a b \<longleftrightarrow> a < b" "datetime_le a b \<longleftrightarrow> a \<le> b" "datetime_gt a b \<longleftrightarrow> b < a" "datetime_ge a b \<longleftrightarrow> b \<le> a"
  "datetime_eq a b \<longleftrightarrow> a = b" "datetime_ne a b \<longleftrightarrow> a \<noteq> b"
  by (auto simp: datetime_lt_def datetime_le_def datetime_gt_def datetime_ge_def datetime_eq_def datetime_ne_def
      less_eq_datetime_def less_datetime_def intro: datetime.expand)

definition isValid :: "datetime \<Rightarrow> bool" where
  "isValid d \<longleftrightarrow> microSecondsSinceEpoch d > 0"

definition milliSecondsSinceEpoch :: "datetime \<Rightarrow> int" where
  "milliSecondsSinceEpoch d = microSecondsSinceEpoch d sdiv 1000"

definition secondsSinceEpoch :: "datetime \<Rightarrow> int" where
  "secondsSinceEpoch d = microSecondsSinceEpoch d sdiv (1000 * 1000)"

definition kMicroSecondsPerSecond :: int where
  "kMicroSecondsPerSecond = 1000 * 1000"

section \<open>Durations\<close>

definition addMicroSeconds :: "int \<Rightarrow> datetime \<Rightarrow> datetime" where
  "addMicroSeconds us d = DateTime (microSecondsSinceEpoch d + us)"

definition addMilliSeconds :: "int \<Rightarrow> datetime \<Rightarrow> datetime" where
  "addMilliSeconds ms d = addMicroSeconds (ms * 1000) d"

definition addSeconds :: "int \<Rightarrow> datetime \<Rightarrow> datetime" where
  "addSeconds s d = addMilliSeconds (s * 1000) d"

definition addMinutes :: "int \<Rightarrow> datetime \<Rightarrow> datetime" where
  "addMinutes m d = addSeconds (m * 60) d"

definition addHours :: "int \<Rightarrow> datetime \<Rightarrow> datetime" where
  "addHours h d = addMinutes (h * 60) d"

definition addDays :: "int \<Rightarrow> datetime \<Rightarrow> datetime" where
  "addDays n d = addHours (n * 24) d"

definition addWeeks :: "int \<Rightarrow> datetime \<Rightarrow> datetime" where
  "addWeeks n d = addDays (n * 7) d"

lemmas duration_defs = addMicroSeconds_def addMilliSeconds_def addSeconds_def addMinutes_def
  addHours_def addDays_def addWeeks_def

text \<open>
  The implicit conversion of a \<open>double\<close> argument to \<open>int64_t\<close>: truncation towards zero.
  Finite doubles are rational numbers.
\<close>

definition double_to_int64 :: "rat \<Rightarrow> int" where
  "double_to_int64 x = (if 0 \<le> x then \<lfloor>x\<rfloor> else \<lceil>x\<rceil>)"

lemma double_to_int64_of_int [simp]: "double_to_int64 (of_int n) = n"
  by (simp add: double_to_int64_def)

lemma double_to_int64_fraction [simp]: "0 \<le> x \<Longrightarrow> x < 1 \<Longrightarrow> double_to_int64 x = 0"
  by (simp add: double_to_int64_def floor_eq_iff)

lemma double_to_int64_nonneg: "0 \<le> x \<Longrightarrow> 0 \<le> double_to_int64 x"
  by (simp add: double_to_int64_def)

section \<open>The calendar\<close>

record tm =
  tm_sec :: int
  tm_min :: int
  tm_hour :: int
  tm_mday :: int
  tm_mon :: int
  tm_year :: int
  tm_isdst :: int

text \<open>\<open>system_clock::to_time_t\<close> casts to whole seconds, truncating towards zero.\<close>

definition to_time_t :: "datetime \<Rightarrow> int" where
  "to_time_t d = microSecondsSinceEpoch d sdiv 1000000"

definition from_time_t :: "int \<Rightarrow> int" where
  "from_time_t t = t * 1000000"

definition daysOfMonth :: "int \<Rightarrow> int \<Rightarrow> int" where
  "daysOfMonth year month =
     (if month = 2 then
        (if (year smod 4 = 0 \<and> year smod 100 \<noteq> 0) \<or> year smod 400 = 0 then 29 else 28)
      else if month = 4 \<or> month = 6 \<or> month = 9 \<or> month = 11 then 30
      else 31)"

text \<open>The loop \<open>while (tm.tm_mon < 0)\<close> on (month, year).\<close>

function borrow_years :: "int \<times> int \<Rightarrow> int \<times> int" where
  "borrow_years (mon, year) = (if mon < 0 then borrow_years (mon + 12, year - 1) else (mon, year))"
  by pat_completeness auto
termination
  by (relation "measure (\<lambda>(mon, year). nat (- mon))") auto

declare borrow_years.simps [simp del]

definition clamp_mday :: "tm \<Rightarrow> tm" where
  "clamp_mday t = t\<lparr>tm_mday := min (tm_mday t) (daysOfMonth (tm_year t + 1900) (tm_mon t + 1))\<rparr>"

definition addMonths_tm :: "int \<Rightarrow> tm \<Rightarrow> tm" where
  "addMonths_tm months t =
     (let mon = tm_mon t + months;
          t1 = (if months > 0 then t\<lparr>tm_year := tm_year t + mon sdiv 12, tm_mon := mon smod 12\<rparr>
                else let (m, y) = borrow_years (mon, tm_year t) in t\<lparr>tm_year := y, tm_mon := m\<rparr>) in
      clamp_mday t1)"

definition addMonths :: "(int \<Rightarrow> tm) \<Rightarrow> (tm \<Rightarrow> int) \<Rightarrow> int \<Rightarrow> datetime \<Rightarrow> datetime" where
  "addMonths localtime mktime months d =
     DateTime (from_time_t (mktime (addMonths_tm months (localtime (to_time_t d))))
               + microSecondsSinceEpoch d smod 1000000)"

definition addYears_tm :: "int \<Rightarrow> tm \<Rightarrow> tm" where
  "addYears_tm years t = clamp_mday (t\<lparr>tm_year := tm_year t + years\<rparr>)"

definition addYears :: "(int \<Rightarrow> tm) \<Rightarrow> (tm \<Rightarrow> int) \<Rightarrow> int \<Rightarrow> datetime \<Rightarrow> datetime" where
  "addYears localtime mktime years d =
     DateTime (from_time_t (mktime (addYears_tm years (localtime (to_time_t d))))
               + microSecondsSinceEpoch d smod 100000)"

text \<open>\<open>system_clock\<close> counts nanoseconds; \<open>fromString\<close> divides them by 1000.\<close>

definition fromString :: "(string \<Rightarrow> string \<Rightarrow> tm) \<Rightarrow> (tm \<Rightarrow> int) \<Rightarrow> string \<Rightarrow> string \<Rightarrow> datetime" where
  "fromString get_time mktime s fmt = DateTime (mktime (get_time s fmt) * 1000000000 sdiv 1000)"

text \<open>A broken-down time that names an actual day.\<close>

definition tm_ok :: "tm \<Rightarrow> bool" where
  "tm_ok t \<longleftrightarrow> 0 \<le> tm_mon t \<and> tm_mon t \<le> 11 \<and> 1 \<le> tm_mday t \<and>
     tm_mday t \<le> daysOfMonth (tm_year t + 1900) (tm_mon t + 1)"

lemma daysOfMonth_pos: "1 \<le> daysOfMonth y m"
  by (simp add: daysOfMonth_def)

lemma borrow_years_spec:
  "borrow_years (mon, year) = (m, y) \<Longrightarrow> 12 * y + m = 12 * year + mon \<and> 0 \<le> m \<and> (mon < 0 \<longrightarrow> m < 12) \<and>
     (0 \<le> mon \<longrightarrow> m = mon)"
proof (induction "(mon, year)" arbitrary: mon year rule: borrow_years.induct)
  case (1 mon year)
  then show ?case by (cases "mon + 12 < 0") (auto simp: borrow_years.simps [of mon year] split: if_splits)
qed

lemma smod_nonneg: "0 \<le> a \<Longrightarrow> 0 < b \<Longrightarrow> a smod b = a mod (b::int) \<and> a sdiv b = a div b"
  by (simp add: signed_divide_int_def signed_modulo_int_def sgn_if minus_div_mult_eq_mod)

lemma addMonths_tm_month:
  assumes "0 \<le> tm_mon t" and "tm_mon t \<le> 11"
  shows "12 * tm_year (addMonths_tm k t) + tm_mon (addMonths_tm k t) = 12 * tm_year t + tm_mon t + k \<and>
    0 \<le> tm_mon (addMonths_tm k t) \<and> tm_mon (addMonths_tm k t) \<le> 11"
proof (cases "k > 0")
  case True
  with assms smod_nonneg [of "tm_mon t + k" 12] show ?thesis
    by (auto simp: addMonths_tm_def clamp_mday_def Let_def)
next
  case False
  obtain m y where b: "borrow_years (tm_mon t + k, tm_year t) = (m, y)" by (cases "borrow_years (tm_mon t + k, tm_year t)")
  from borrow_years_spec [OF b] False assms show ?thesis
    by (auto simp: addMonths_tm_def clamp_mday_def Let_def b)
qed



lemma clamp_mday_ok: "tm_ok t \<Longrightarrow> clamp_mday t = t"
  by (simp add: clamp_mday_def tm_ok_def min_def)

lemma split_microseconds: "from_time_t (x sdiv 1000000) + x smod 1000000 = (x::int)"
  unfolding from_time_t_def by (rule sdiv_mult_smod_eq)

text \<open>
  \<open>addMonths(0)\<close> is the identity, but \<open>addYears(0)\<close> is not: it keeps the microseconds
  modulo 100000 instead of modulo 1000000, so, whatever the time zone, the tenths of a
  second are lost. For every date the two results differ by exactly those tenths.
\<close>

theorem addYears_loses_tenths:
  assumes "\<And>t. tm_ok (localtime t)" and "\<And>t. mktime (localtime t) = t"
  shows "addMonths localtime mktime 0 d = d \<and>
    addYears localtime mktime 0 d =
      DateTime (microSecondsSinceEpoch d - (microSecondsSinceEpoch d smod 1000000 - microSecondsSinceEpoch d smod 100000))"
proof
  have "addMonths_tm 0 t = t" if "tm_ok t" for t
    using that by (simp add: addMonths_tm_def borrow_years.simps tm_ok_def clamp_mday_ok [OF that])
  then show "addMonths localtime mktime 0 d = d"
    using assms split_microseconds [of "microSecondsSinceEpoch d"]
    by (simp add: addMonths_def to_time_t_def)
  have "addYears_tm 0 t = t" if "tm_ok t" for t
    using clamp_mday_ok [OF that] by (simp add: addYears_tm_def)
  then show "addYears localtime mktime 0 d =
      DateTime (microSecondsSinceEpoch d - (microSecondsSinceEpoch d smod 1000000 - microSecondsSinceEpoch d smod 100000))"
    using assms split_microseconds [of "microSecondsSinceEpoch d"]
    by (simp add: addYears_def to_time_t_def)
qed

theorem addYears_loses_tenths_witness:
  "addYears (\<lambda>t. \<lparr>tm_sec = t, tm_min = 0, tm_hour = 0, tm_mday = 1, tm_mon = 0, tm_year = 70, tm_isdst = 0\<rparr>) tm_sec 0
     (DateTime 5750000) = DateTime 5050000"
  using addYears_loses_tenths [of "\<lambda>t. \<lparr>tm_sec = t, tm_min = 0, tm_hour = 0, tm_mday = 1, tm_mon = 0, tm_year = 70, tm_isdst = 0\<rparr>"
      tm_sec "DateTime 5750000"]
  by (simp add: tm_ok_def daysOfMonth_def smod_nonneg)

end
