(* ===== verification/Decimal.thy ===== *)
theory Decimal
  imports Youth_Prelude
begin

text \<open>
  Decimal text as \<open>printf\<close> writes it (\<open>%d\<close>, \<open>%u\<close>) and as the parsers read it: the digits of a
  number, most significant first, and the value of a string of digits.
\<close>

fun dec_digits :: "nat \<Rightarrow> string" where
  "dec_digits n = (if n < 10 then [char_of (48 + n)] else dec_digits (n div 10) @ [char_of (48 + n mod 10)])"

declare dec_digits.simps [simp del]

definition show_int :: "int \<Rightarrow> string" where
  "show_int i = (if i < 0 then CHR ''-'' # dec_digits (nat (- i)) else dec_digits (nat i))"

definition is_digit :: "char \<Rightarrow> bool" where
  "is_digit c \<longleftrightarrow> 48 \<le> (of_char c :: nat) \<and> (of_char c :: nat) \<le> 57"

definition digits_value :: "string \<Rightarrow> int" where
  "digits_value ds = foldl (\<lambda>v c. 10 * v + (of_char c - 48)) 0 ds"

text \<open>
  \<open>std::stoi\<close> and \<open>std::stoll\<close>: leading white space, a sign and the longest run of digits; an
  exception when there is no digit or the value does not fit into \<open>bits\<close> bits and a sign.
\<close>

definition strto :: "nat \<Rightarrow> string \<Rightarrow> int res" where
  "strto bits s =
     (let s1 = dropWhile isspace s;
          (neg, s2) = (case s1 of c # cs \<Rightarrow> if c = CHR ''-'' then (True, cs)
                                   else if c = CHR ''+'' then (False, cs) else (False, s1)
                       | [] \<Rightarrow> (False, s1));
          ds = takeWhile is_digit s2;
          v = (if neg then - digits_value ds else digits_value ds) in
      if ds = [] \<or> v < - (2 ^ bits) \<or> 2 ^ bits \<le> v then Inl UncaughtException else Inr v)"

definition stoll :: "string \<Rightarrow> int res" where
  "stoll s = strto 63 s"

definition stoi :: "string \<Rightarrow> int res" where
  "stoi s = strto 31 s"

lemma is_digit_char: "(k::nat) < 10 \<Longrightarrow> is_digit (char_of (48 + k))"
  by (simp add: is_digit_def)

lemma digits_value_append: "digits_value (xs @ [c]) = 10 * digits_value xs + (of_char c - 48)"
  by (simp add: digits_value_def)

lemma dec_digits_value: "digits_value (dec_digits n) = int n \<and> list_all is_digit (dec_digits n) \<and> dec_digits n \<noteq> []"
proof (induction n rule: dec_digits.induct)
  case (1 n)
  have c: "(of_char (char_of (48 + k) :: char) :: int) - 48 = int k" if "k < 10" for k :: nat
  proof -
    have "(of_char (char_of (48 + k) :: char) :: nat) = 48 + k" using that by simp
    moreover have "(of_char (char_of (48 + k) :: char) :: int) = int (of_char (char_of (48 + k) :: char))"
      by (rule of_nat_of_char [symmetric])
    ultimately show ?thesis by simp
  qed
  show ?case
  proof (cases "n < 10")
    case True
    then show ?thesis using c [of n] is_digit_char [of n] by (simp add: dec_digits.simps [of n] digits_value_def)
  next
    case False
    have "10 * int (n div 10) + int (n mod 10) = int n" by presburger
    with False show ?thesis using 1 c [of "n mod 10"] is_digit_char [of "n mod 10"]
      by (simp add: dec_digits.simps [of n] digits_value_append)
  qed
qed

lemma takeWhile_digits: "list_all is_digit xs \<Longrightarrow> takeWhile is_digit xs = xs"
  by (simp add: takeWhile_eq_all_conv list_all_iff)

text \<open>Different numbers have different digits.\<close>

lemma dec_digits_inject [simp]: "dec_digits m = dec_digits n \<longleftrightarrow> m = n"
  using dec_digits_value [of m] dec_digits_value [of n] by (metis of_nat_eq_iff)

lemma length_dec_digits: "n < 10 ^ k \<Longrightarrow> 0 < k \<Longrightarrow> length (dec_digits n) \<le> k"
proof (induction n arbitrary: k rule: dec_digits.induct)
  case (1 n)
  show ?case
  proof (cases "n < 10")
    case True
    with 1 show ?thesis by (simp add: dec_digits.simps [of n])
  next
    case False
    obtain j where k: "k = Suc j" using 1 by (cases k) auto
    have "j \<noteq> 0" using 1 False k by (cases j) auto
    moreover have "n div 10 < 10 ^ j" using 1 k by (simp add: less_mult_imp_div_less mult.commute)
    ultimately have "length (dec_digits (n div 10)) \<le> j" using 1 False by simp
    with False k show ?thesis by (simp add: dec_digits.simps [of n])
  qed
qed

lemma dec_digits_length_ge: "10 ^ k \<le> n \<Longrightarrow> k < length (dec_digits n)"
proof (induction k arbitrary: n)
  case 0
  then show ?case using dec_digits_value [of n] by simp
next
  case (Suc k)
  then have "10 ^ k \<le> n div 10" by (simp add: less_eq_div_iff_mult_less_eq)
  moreover from this have "1 \<le> n div 10" using one_le_power [of "10::nat" k] by linarith
  then have "\<not> n < 10" by auto
  ultimately show ?case using Suc.IH [of "n div 10"] by (simp add: dec_digits.simps [of n])
qed

end
