(* ===== verification/Net_Channel.thy ===== *)
theory Net_Channel
  imports Decimal
begin

text \<open>
  \<open>net/Channel.h\<close> and \<open>net/Channel.cpp\<close>: the event masks of a descriptor and the dispatch of
  a poll result to the callbacks. A \<open>Channel*\<close> is an address (\<open>ch_ptr\<close>). Whether a callback
  is set is a flag; which callbacks an event runs, in which order, is the list
  \<open>handleEvent\<close> answers. The calls that register a mask with the poller are in
  \<open>Net_Epoll\<close>.
\<close>

unbundle bit_operations_syntax

section \<open>Event bits\<close>

type_synonym event_mask = "32 word"

definition EPOLLIN :: event_mask where "EPOLLIN = 0x001"
definition EPOLLPRI :: event_mask where "EPOLLPRI = 0x002"
definition EPOLLOUT :: event_mask where "EPOLLOUT = 0x004"
definition EPOLLERR :: event_mask where "EPOLLERR = 0x008"
definition EPOLLHUP :: event_mask where "EPOLLHUP = 0x010"
definition POLLNVAL :: event_mask where "POLLNVAL = 0x020"
definition EPOLLRDHUP :: event_mask where "EPOLLRDHUP = 0x2000"

lemmas epoll_bits = EPOLLIN_def EPOLLPRI_def EPOLLOUT_def EPOLLERR_def EPOLLHUP_def
  POLLNVAL_def EPOLLRDHUP_def

definition kNoneEvent :: event_mask where
  "kNoneEvent = 0"

definition kReadEvent :: event_mask where
  "kReadEvent = EPOLLIN OR EPOLLPRI"

definition kWriteEvent :: event_mask where
  "kWriteEvent = EPOLLOUT"

text \<open>\<open>m & bits\<close> as a condition.\<close>

definition has :: "event_mask \<Rightarrow> event_mask \<Rightarrow> bool" where
  "has m bits \<longleftrightarrow> m AND bits \<noteq> 0"

section \<open>The channel object\<close>

record channel =
  ch_ptr :: nat
  ch_index :: int
  ch_fd :: int
  ch_events :: event_mask
  ch_revents :: event_mask
  ch_logHup :: bool
  ch_eventHandling :: bool
  ch_addedToLoop :: bool
  ch_tied :: bool
  ch_readCallback :: bool
  ch_writeCallback :: bool
  ch_closeCallback :: bool
  ch_errorCallback :: bool

definition kNew :: int where
  "kNew = - 1"

definition new_Channel :: "nat \<Rightarrow> int \<Rightarrow> channel" where
  "new_Channel ptr fd =
     \<lparr>ch_ptr = ptr, ch_index = - 1, ch_fd = fd, ch_events = 0, ch_revents = 0, ch_logHup = True,
      ch_eventHandling = False, ch_addedToLoop = False, ch_tied = False,
      ch_readCallback = False, ch_writeCallback = False, ch_closeCallback = False,
      ch_errorCallback = False\<rparr>"

definition setReadCallback :: "channel \<Rightarrow> channel" where
  "setReadCallback c = c\<lparr>ch_readCallback := True\<rparr>"

definition setWriteCallback :: "channel \<Rightarrow> channel" where
  "setWriteCallback c = c\<lparr>ch_writeCallback := True\<rparr>"

definition ch_setCloseCallback :: "channel \<Rightarrow> channel" where
  "ch_setCloseCallback c = c\<lparr>ch_closeCallback := True\<rparr>"

definition setErrorCallback :: "channel \<Rightarrow> channel" where
  "setErrorCallback c = c\<lparr>ch_errorCallback := True\<rparr>"

definition tie :: "channel \<Rightarrow> channel" where
  "tie c = c\<lparr>ch_tied := True\<rparr>"

definition isWriting :: "channel \<Rightarrow> bool" where
  "isWriting c = has (ch_events c) kWriteEvent"

definition isReading :: "channel \<Rightarrow> bool" where
  "isReading c = has (ch_events c) kReadEvent"

definition isNoneEvent :: "channel \<Rightarrow> bool" where
  "isNoneEvent c \<longleftrightarrow> ch_events c = kNoneEvent"

definition setIndex :: "int \<Rightarrow> channel \<Rightarrow> channel" where
  "setIndex idx c = c\<lparr>ch_index := idx\<rparr>"

definition setRevents :: "event_mask \<Rightarrow> channel \<Rightarrow> channel" where
  "setRevents r c = c\<lparr>ch_revents := r\<rparr>"

section \<open>Dispatch\<close>

datatype channel_cb = CloseCb | ErrorCb | ReadCb | WriteCb

definition handleEventWithGuard :: "channel \<Rightarrow> channel_cb list" where
  "handleEventWithGuard c =
     (let r = ch_revents c in
      (if has r EPOLLHUP \<and> \<not> has r EPOLLIN \<and> ch_closeCallback c then [CloseCb] else [])
      @ (if has r (EPOLLERR OR POLLNVAL) \<and> ch_errorCallback c then [ErrorCb] else [])
      @ (if has r (EPOLLIN OR EPOLLPRI OR EPOLLRDHUP) \<and> ch_readCallback c then [ReadCb] else [])
      @ (if has r EPOLLOUT \<and> ch_writeCallback c then [WriteCb] else []))"

text \<open>\<open>alive\<close> is the outcome of locking the weak pointer the channel is tied to.\<close>

definition handleEvent :: "bool \<Rightarrow> channel \<Rightarrow> channel_cb list" where
  "handleEvent alive c =
     (if ch_tied c then (if alive then handleEventWithGuard c else [])
      else handleEventWithGuard c)"

section \<open>Printing\<close>

definition eventsToString :: "int \<Rightarrow> event_mask \<Rightarrow> string" where
  "eventsToString fd events =
     show_int fd @ '': ''
     @ (if has events EPOLLIN then ''IN '' else [])
     @ (if has events EPOLLPRI then ''PRI '' else [])
     @ (if has events EPOLLOUT then ''OUT '' else [])
     @ (if has events EPOLLHUP then ''HUP '' else [])
     @ (if has events EPOLLRDHUP then ''RDHUP '' else [])
     @ (if has events EPOLLERR then ''ERR '' else [])
     @ (if has events POLLNVAL then ''NVAL '' else [])"

section \<open>Facts on masks\<close>

lemma has_or: "has m (a OR b) \<longleftrightarrow> has m a \<or> has m b"
proof -
  have "m AND (a OR b) = (m AND a) OR (m AND b)" by (rule bit.conj_disj_distrib)
  moreover have "x OR y = 0 \<longleftrightarrow> x = 0 \<and> y = 0" for x y :: event_mask by (rule or_eq_0_iff)
  ultimately show ?thesis by (simp add: has_def)
qed

lemma has_bits [simp]:
  "has m EPOLLIN = bit m 0" "has m EPOLLPRI = bit m 1" "has m EPOLLOUT = bit m 2"
  "has m EPOLLERR = bit m 3" "has m EPOLLHUP = bit m 4" "has m POLLNVAL = bit m 5"
  "has m EPOLLRDHUP = bit m 13"
  using and_exp_eq_0_iff_not_bit [of m 0] and_exp_eq_0_iff_not_bit [of m 1]
    and_exp_eq_0_iff_not_bit [of m 2] and_exp_eq_0_iff_not_bit [of m 3]
    and_exp_eq_0_iff_not_bit [of m 4] and_exp_eq_0_iff_not_bit [of m 5]
    and_exp_eq_0_iff_not_bit [of m 13]
  by (simp_all add: has_def epoll_bits)

lemma isWriting_bit: "isWriting c = bit (ch_events c) 2"
  by (simp add: isWriting_def kWriteEvent_def)

lemma isReading_bit: "isReading c \<longleftrightarrow> bit (ch_events c) 0 \<or> bit (ch_events c) 1"
  by (simp add: isReading_def kReadEvent_def has_or)

lemma bit_kReadEvent: "bit kReadEvent n \<longleftrightarrow> n = 0 \<or> n = 1"
  and bit_kWriteEvent: "bit kWriteEvent n \<longleftrightarrow> n = 2"
  by (auto simp: kReadEvent_def kWriteEvent_def epoll_bits bit_simps bit_numeral_rec split: nat.splits
      simp flip: One_nat_def)

end
