(* ===== verification/Transition_System.thy ===== *)
theory Transition_System
  imports Youth_Prelude
begin

text \<open>
  Reachable states of a step relation and the contract of an inductive invariant. The
  components with concurrent or callback-driven behaviour (poller, event loop, timer
  queue, connection, connector, thread pool) interpret the locale with their own step
  relation and read off what holds in every reachable state.
\<close>

inductive reaches :: "('s \<Rightarrow> 's \<Rightarrow> bool) \<Rightarrow> 's \<Rightarrow> 's \<Rightarrow> bool" for step where
  refl: "reaches step s s"
| step: "reaches step s t \<Longrightarrow> step t u \<Longrightarrow> reaches step s u"

lemma reaches_trans: "reaches step t u \<Longrightarrow> reaches step s t \<Longrightarrow> reaches step s u"
  by (induction rule: reaches.induct) (auto intro: reaches.intros)

lemma reaches_one: "step s t \<Longrightarrow> reaches step s t"
  by (blast intro: reaches.intros)

locale invariant_system =
  fixes start :: "'s \<Rightarrow> bool"
    and step :: "'s \<Rightarrow> 's \<Rightarrow> bool"
    and inv :: "'s \<Rightarrow> bool"
  assumes start_inv: "start s \<Longrightarrow> inv s"
    and step_inv: "inv s \<Longrightarrow> step s t \<Longrightarrow> inv t"
begin

lemma reaches_inv: "reaches step s t \<Longrightarrow> inv s \<Longrightarrow> inv t"
  by (induction rule: reaches.induct) (auto intro: step_inv)

lemma reachable_inv: "start s \<Longrightarrow> reaches step s t \<Longrightarrow> inv t"
  by (blast intro: reaches_inv start_inv)

end

text \<open>
  A detailed system that follows an abstract one: each of its steps is answered by zero or more
  abstract steps that keep the two related.
\<close>

locale simulation =
  fixes cstep :: "'c \<Rightarrow> 'c \<Rightarrow> bool"
    and astep :: "'a \<Rightarrow> 'a \<Rightarrow> bool"
    and related :: "'c \<Rightarrow> 'a \<Rightarrow> bool"
  assumes simulated: "related c a \<Longrightarrow> cstep c c' \<Longrightarrow> \<exists>a'. reaches astep a a' \<and> related c' a'"
begin

lemma reaches_simulated: "reaches cstep c c' \<Longrightarrow> related c a \<Longrightarrow> \<exists>a'. reaches astep a a' \<and> related c' a'"
proof (induction rule: reaches.induct)
  case (refl c)
  then show ?case by (meson reaches.refl)
next
  case (step c d c')
  then obtain b where b: "reaches astep a b" "related d b" by blast
  from simulated [OF b(2) step.hyps(2)] reaches_trans [OF _ b(1)] show ?case by blast
qed

end

end
