(* ===== verification/Net_Epoll.thy ===== *)
theory Net_Epoll
  imports Net_Channel Transition_System
begin

text \<open>
  \<open>net/Epoll.h\<close>, \<open>net/Epoll.cpp\<close> and the channel operations that register with it. The
  kernel's interest list of the epoll descriptor is part of the state: for each
  descriptor, the requested mask and the \<open>data.ptr\<close> it hands back. \<open>epoll_ctl\<close> follows its
  documented errors (EEXIST on ADD, ENOENT on MOD and DEL). The first argument of an
  operation is \<open>isInLoopThread()\<close>; outside the loop thread \<open>assertInLoopThread\<close> aborts.
\<close>

unbundle bit_operations_syntax

section \<open>The poller\<close>

definition kAdded :: int where
  "kAdded = 1"

definition kDeleted :: int where
  "kDeleted = 2"

definition kInitEventListSize :: nat where
  "kInitEventListSize = 16"

record epoll =
  channelMap :: "int \<rightharpoonup> nat"
  eventVec_size :: nat
  interest :: "int \<rightharpoonup> event_mask \<times> nat"

definition new_Epoll :: epoll where
  "new_Epoll = \<lparr>channelMap = Map.empty, eventVec_size = kInitEventListSize, interest = Map.empty\<rparr>"

definition assertInLoopThread :: "bool \<Rightarrow> 'a res \<Rightarrow> 'a res" where
  "assertInLoopThread here k = (if here then k else Inl FatalAbort)"

datatype ctl_op = EPOLL_CTL_ADD | EPOLL_CTL_DEL | EPOLL_CTL_MOD

fun operationToString :: "ctl_op \<Rightarrow> string" where
  "operationToString EPOLL_CTL_ADD = ''ADD''"
| "operationToString EPOLL_CTL_DEL = ''DEL''"
| "operationToString EPOLL_CTL_MOD = ''MOD''"

text \<open>The system call: \<open>None\<close> is a return value below zero.\<close>

fun epoll_ctl :: "ctl_op \<Rightarrow> int \<Rightarrow> event_mask \<times> nat \<Rightarrow> (int \<rightharpoonup> event_mask \<times> nat) \<Rightarrow>
    (int \<rightharpoonup> event_mask \<times> nat) option" where
  "epoll_ctl EPOLL_CTL_ADD fd ev m = (if m fd = None then Some (m(fd \<mapsto> ev)) else None)"
| "epoll_ctl EPOLL_CTL_MOD fd ev m = (if m fd = None then None else Some (m(fd \<mapsto> ev)))"
| "epoll_ctl EPOLL_CTL_DEL fd ev m = (if m fd = None then None else Some (m(fd := None)))"

definition epoll_update :: "ctl_op \<Rightarrow> channel \<Rightarrow> epoll \<Rightarrow> epoll res" where
  "epoll_update operation c ep =
     (case epoll_ctl operation (ch_fd c) (ch_events c, ch_ptr c) (interest ep) of
        Some m \<Rightarrow> Inr (ep\<lparr>interest := m\<rparr>)
      | None \<Rightarrow> if operation = EPOLL_CTL_DEL then Inr ep else Inl FatalAbort)"

definition updateChannel :: "bool \<Rightarrow> channel \<Rightarrow> epoll \<Rightarrow> (channel \<times> epoll) res" where
  "updateChannel here c ep = assertInLoopThread here
     (let index = ch_index c; fd = ch_fd c in
      if index = kNew \<or> index = kDeleted then
        bindR (if index = kNew
               then cassert (channelMap ep fd = None)
                      (Inr (ep\<lparr>channelMap := (channelMap ep)(fd \<mapsto> ch_ptr c)\<rparr>))
               else cassert (channelMap ep fd \<noteq> None)
                      (cassert (channelMap ep fd = Some (ch_ptr c)) (Inr ep)))
          (\<lambda>ep1. let c1 = setIndex kAdded c in
                 bindR (epoll_update EPOLL_CTL_ADD c1 ep1) (\<lambda>ep2. Inr (c1, ep2)))
      else
        cassert (channelMap ep fd \<noteq> None)
          (cassert (channelMap ep fd = Some (ch_ptr c))
            (cassert (index = kAdded)
              (if isNoneEvent c
               then bindR (epoll_update EPOLL_CTL_DEL c ep) (\<lambda>ep1. Inr (setIndex kDeleted c, ep1))
               else bindR (epoll_update EPOLL_CTL_MOD c ep) (\<lambda>ep1. Inr (c, ep1))))))"

definition removeChannel :: "bool \<Rightarrow> channel \<Rightarrow> epoll \<Rightarrow> (channel \<times> epoll) res" where
  "removeChannel here c ep = assertInLoopThread here
     (let fd = ch_fd c in
      cassert (channelMap ep fd \<noteq> None)
        (cassert (channelMap ep fd = Some (ch_ptr c))
          (cassert (isNoneEvent c)
            (let index = ch_index c in
             cassert (index = kAdded \<or> index = kDeleted)
               (let ep1 = ep\<lparr>channelMap := (channelMap ep)(fd := None)\<rparr> in
                bindR (if index = kAdded then epoll_update EPOLL_CTL_DEL c ep1 else Inr ep1)
                  (\<lambda>ep2. Inr (setIndex kNew c, ep2)))))))"

definition hasChannel :: "bool \<Rightarrow> channel \<Rightarrow> epoll \<Rightarrow> bool res" where
  "hasChannel here c ep = assertInLoopThread here (Inr (channelMap ep (ch_fd c) = Some (ch_ptr c)))"

section \<open>Channel operations that register\<close>

definition channel_update :: "bool \<Rightarrow> channel \<Rightarrow> epoll \<Rightarrow> (channel \<times> epoll) res" where
  "channel_update here c ep = updateChannel here (c\<lparr>ch_addedToLoop := True\<rparr>) ep"

definition enableReading :: "bool \<Rightarrow> channel \<Rightarrow> epoll \<Rightarrow> (channel \<times> epoll) res" where
  "enableReading here c ep = channel_update here (c\<lparr>ch_events := ch_events c OR kReadEvent\<rparr>) ep"

definition disableReading :: "bool \<Rightarrow> channel \<Rightarrow> epoll \<Rightarrow> (channel \<times> epoll) res" where
  "disableReading here c ep = channel_update here (c\<lparr>ch_events := ch_events c AND NOT kReadEvent\<rparr>) ep"

definition enableWriting :: "bool \<Rightarrow> channel \<Rightarrow> epoll \<Rightarrow> (channel \<times> epoll) res" where
  "enableWriting here c ep = channel_update here (c\<lparr>ch_events := ch_events c OR kWriteEvent\<rparr>) ep"

definition disableWriting :: "bool \<Rightarrow> channel \<Rightarrow> epoll \<Rightarrow> (channel \<times> epoll) res" where
  "disableWriting here c ep = channel_update here (c\<lparr>ch_events := ch_events c AND NOT kWriteEvent\<rparr>) ep"

definition disableAll :: "bool \<Rightarrow> channel \<Rightarrow> epoll \<Rightarrow> (channel \<times> epoll) res" where
  "disableAll here c ep = channel_update here (c\<lparr>ch_events := kNoneEvent\<rparr>) ep"

definition channel_remove :: "bool \<Rightarrow> channel \<Rightarrow> epoll \<Rightarrow> (channel \<times> epoll) res" where
  "channel_remove here c ep =
     cassert (isNoneEvent c) (removeChannel here (c\<lparr>ch_addedToLoop := False\<rparr>) ep)"

definition destroy_Channel :: "bool \<Rightarrow> channel \<Rightarrow> epoll \<Rightarrow> unit res" where
  "destroy_Channel here c ep =
     cassert (\<not> ch_eventHandling c) (cassert (\<not> ch_addedToLoop c)
       (if here then bindR (hasChannel here c ep) (\<lambda>h. cassert (\<not> h) (Inr ())) else Inr ()))"

section \<open>Polling\<close>

text \<open>
  \<open>events\<close> is what \<open>epoll_wait\<close> stored: per entry the \<open>data.ptr\<close> and the ready mask. The
  active channels, in that order, get their \<open>revents\<close>; the event vector doubles when it was
  full.
\<close>

fun fillActiveChannels :: "epoll \<Rightarrow> (nat \<times> event_mask) list \<Rightarrow> (nat \<rightharpoonup> channel) \<Rightarrow>
    ((nat \<rightharpoonup> channel) \<times> nat list) res" where
  "fillActiveChannels ep [] chans = Inr (chans, [])"
| "fillActiveChannels ep ((p, ev) # es) chans =
     (case chans p of
        None \<Rightarrow> Inl MemoryError
      | Some c \<Rightarrow>
          cassert (channelMap ep (ch_fd c) \<noteq> None)
            (cassert (channelMap ep (ch_fd c) = Some p)
              (bindR (fillActiveChannels ep es (chans(p \<mapsto> setRevents ev c)))
                 (\<lambda>(chans', act). Inr (chans', p # act)))))"

definition epoll_poll :: "(nat \<times> event_mask) list \<Rightarrow> epoll \<Rightarrow> (nat \<rightharpoonup> channel) \<Rightarrow>
    (epoll \<times> (nat \<rightharpoonup> channel) \<times> nat list) res" where
  "epoll_poll events ep chans =
     (if 0 < length events
      then cassert (length events \<le> eventVec_size ep)
        (bindR (fillActiveChannels ep events chans) (\<lambda>(chans', act).
           Inr (if length events = eventVec_size ep
                then ep\<lparr>eventVec_size := eventVec_size ep * 2\<rparr> else ep, chans', act)))
      else Inr (ep, chans, []))"

section \<open>Agreement with the kernel\<close>

text \<open>
  The channels of one loop, by address, and the poller. Every registered descriptor has
  exactly one channel; the kernel watches exactly the channels marked \<open>kAdded\<close>, each with
  the mask the channel currently holds; a channel marked \<open>kDeleted\<close> has an empty mask.
\<close>

definition channel_ok :: "epoll \<Rightarrow> nat \<Rightarrow> channel \<Rightarrow> bool" where
  "channel_ok ep p c \<longleftrightarrow> ch_ptr c = p \<and> ch_index c \<in> {kNew, kAdded, kDeleted} \<and>
     (ch_addedToLoop c \<longleftrightarrow> ch_index c \<noteq> kNew) \<and>
     (ch_index c \<noteq> kNew \<longrightarrow> channelMap ep (ch_fd c) = Some p) \<and>
     (ch_index c = kAdded \<longrightarrow> interest ep (ch_fd c) = Some (ch_events c, p)) \<and>
     (ch_index c = kDeleted \<longrightarrow> interest ep (ch_fd c) = None \<and> isNoneEvent c)"

definition poller_inv :: "(nat \<rightharpoonup> channel) \<times> epoll \<Rightarrow> bool" where
  "poller_inv = (\<lambda>(chans, ep).
     (\<forall>p c. chans p = Some c \<longrightarrow> channel_ok ep p c) \<and>
     (\<forall>fd p. channelMap ep fd = Some p \<longrightarrow>
        (\<exists>c. chans p = Some c \<and> ch_fd c = fd \<and> ch_index c \<noteq> kNew)) \<and>
     (\<forall>fd. channelMap ep fd = None \<longrightarrow> interest ep fd = None))"

lemmas index_defs = kNew_def kAdded_def kDeleted_def

datatype channel_act = EnableReading | DisableReading | EnableWriting | DisableWriting | DisableAll

fun run_channel_act :: "channel_act \<Rightarrow> channel \<Rightarrow> epoll \<Rightarrow> (channel \<times> epoll) res" where
  "run_channel_act EnableReading c ep = enableReading True c ep"
| "run_channel_act DisableReading c ep = disableReading True c ep"
| "run_channel_act EnableWriting c ep = enableWriting True c ep"
| "run_channel_act DisableWriting c ep = disableWriting True c ep"
| "run_channel_act DisableAll c ep = disableAll True c ep"

text \<open>
  What the owners of channels do, in the loop thread: create a channel, change its
  mask, remove it, destroy it, and receive a poll result.
\<close>

inductive poller_step :: "(nat \<rightharpoonup> channel) \<times> epoll \<Rightarrow> (nat \<rightharpoonup> channel) \<times> epoll \<Rightarrow> bool" where
  create: "chans p = None \<Longrightarrow> poller_step (chans, ep) (chans(p \<mapsto> new_Channel p fd), ep)"
| act: "chans p = Some c \<Longrightarrow> run_channel_act a c ep = Inr (c', ep') \<Longrightarrow>
    poller_step (chans, ep) (chans(p \<mapsto> c'), ep')"
| remove: "chans p = Some c \<Longrightarrow> channel_remove True c ep = Inr (c', ep') \<Longrightarrow>
    poller_step (chans, ep) (chans(p \<mapsto> c'), ep')"
| destroy: "chans p = Some c \<Longrightarrow> destroy_Channel True c ep = Inr () \<Longrightarrow>
    poller_step (chans, ep) (chans(p := None), ep)"
| poll: "epoll_poll events ep chans = Inr (ep', chans', act) \<Longrightarrow>
    poller_step (chans, ep) (chans', ep')"

lemma poller_invI:
  assumes "\<And>p c. chans p = Some c \<Longrightarrow> channel_ok ep p c"
    and "\<And>fd p. channelMap ep fd = Some p \<Longrightarrow> \<exists>c. chans p = Some c \<and> ch_fd c = fd \<and> ch_index c \<noteq> kNew"
    and "\<And>fd. channelMap ep fd = None \<Longrightarrow> interest ep fd = None"
  shows "poller_inv (chans, ep)"
  using assms by (simp add: poller_inv_def)

lemma poller_invD:
  assumes "poller_inv (chans, ep)"
  shows "chans p = Some c \<Longrightarrow> channel_ok ep p c"
    and "channelMap ep fd = Some p \<Longrightarrow> \<exists>c. chans p = Some c \<and> ch_fd c = fd \<and> ch_index c \<noteq> kNew"
    and "channelMap ep fd = None \<Longrightarrow> interest ep fd = None"
  using assms by (auto simp: poller_inv_def)

text \<open>
  With the agreement in force, \<open>channel_update\<close> has exactly four outcomes and \<open>epoll_ctl\<close> never
  fails, so neither \<open>LOG_FATAL\<close> nor an assertion is reached, except when a second channel
  is opened on a descriptor that already has one.
\<close>

lemma channel_update_outcome:
  assumes "channel_ok ep p c" and "channelMap ep (ch_fd c) = None \<Longrightarrow> interest ep (ch_fd c) = None"
  shows "channel_update True (c\<lparr>ch_events := m\<rparr>) ep =
    (if ch_index c = kNew then
       (if channelMap ep (ch_fd c) = None
        then Inr (c\<lparr>ch_events := m, ch_addedToLoop := True, ch_index := kAdded\<rparr>,
                  ep\<lparr>channelMap := (channelMap ep)(ch_fd c \<mapsto> p),
                     interest := (interest ep)(ch_fd c \<mapsto> (m, p))\<rparr>)
        else Inl AssertFailed)
     else if ch_index c = kAdded \<and> m = kNoneEvent
     then Inr (c\<lparr>ch_events := m, ch_addedToLoop := True, ch_index := kDeleted\<rparr>,
               ep\<lparr>interest := (interest ep)(ch_fd c := None)\<rparr>)
     else Inr (c\<lparr>ch_events := m, ch_addedToLoop := True, ch_index := kAdded\<rparr>,
               ep\<lparr>interest := (interest ep)(ch_fd c \<mapsto> (m, p))\<rparr>))"
  using assms
  by (auto simp: channel_update_def updateChannel_def assertInLoopThread_def channel_ok_def Let_def
      setIndex_def epoll_update_def isNoneEvent_def index_defs cassert_def)

lemma channel_ok_other:
  assumes "channel_ok ep q d" and "ch_index d \<noteq> kNew \<Longrightarrow> ch_fd d \<noteq> fd"
  shows "channel_ok (ep\<lparr>channelMap := (channelMap ep)(fd := x), interest := (interest ep)(fd := y)\<rparr>) q d"
    and "channel_ok (ep\<lparr>interest := (interest ep)(fd := y)\<rparr>) q d"
    and "channel_ok (ep\<lparr>channelMap := (channelMap ep)(fd := x)\<rparr>) q d"
  using assms by (auto simp: channel_ok_def index_defs)

lemma same_fd:
  assumes "poller_inv (chans, ep)" and "chans p = Some c" and "chans q = Some d"
    and "ch_index c \<noteq> kNew" and "ch_index d \<noteq> kNew" and "ch_fd c = ch_fd d"
  shows "p = q"
  using poller_invD(1) [OF assms(1,2)] poller_invD(1) [OF assms(1,3)] assms(4-6)
  by (auto simp: channel_ok_def)

text \<open>Putting back a channel whose registration changed as in \<open>channel_update\<close> keeps the agreement.\<close>

lemma poller_inv_update:
  assumes inv: "poller_inv (chans, ep)" and c: "chans p = Some c"
    and ok: "channel_ok (ep\<lparr>channelMap := (channelMap ep)(ch_fd c := x),
                            interest := (interest ep)(ch_fd c := y)\<rparr>) p c'"
    and fd: "ch_fd c' = ch_fd c"
    and free: "channelMap ep (ch_fd c) = None \<or> channelMap ep (ch_fd c) = Some p"
    and x: "x = (if ch_index c' = kNew then None else Some p)"
    and y: "ch_index c' = kNew \<Longrightarrow> y = None"
  shows "poller_inv (chans(p \<mapsto> c'), ep\<lparr>channelMap := (channelMap ep)(ch_fd c := x),
                                        interest := (interest ep)(ch_fd c := y)\<rparr>)"
proof -
  let ?ep = "ep\<lparr>channelMap := (channelMap ep)(ch_fd c := x), interest := (interest ep)(ch_fd c := y)\<rparr>"
  have others: "channel_ok ?ep q d" if "chans q = Some d" "q \<noteq> p" for q d
  proof (rule channel_ok_other(1))
    show okd: "channel_ok ep q d" using poller_invD(1) [OF inv that(1)] .
    show "ch_index d \<noteq> kNew \<Longrightarrow> ch_fd d \<noteq> ch_fd c"
      using okd free that(2) by (auto simp: channel_ok_def)
  qed
  have "\<exists>d. (chans(p \<mapsto> c')) q = Some d \<and> ch_fd d = fd' \<and> ch_index d \<noteq> kNew"
    if "channelMap ?ep fd' = Some q" for fd' q
  proof (cases "fd' = ch_fd c")
    case True
    with that x fd show ?thesis by (auto split: if_splits)
  next
    case False
    with that poller_invD(2) [OF inv, of fd' q] c show ?thesis by auto
  qed
  moreover have "interest ?ep fd' = None" if "channelMap ?ep fd' = None" for fd'
    using that x y poller_invD(3) [OF inv, of fd'] by (auto split: if_splits)
  ultimately show ?thesis using ok others by (auto simp: poller_inv_def)
qed

lemma epoll_eta:
  "channelMap ep fd = x \<Longrightarrow> ep\<lparr>interest := f\<rparr> = ep\<lparr>channelMap := (channelMap ep)(fd := x), interest := f\<rparr>"
  by (cases ep) auto

lemma channel_update_inv:
  assumes inv: "poller_inv (chans, ep)" and c: "chans p = Some c"
    and upd: "channel_update True (c\<lparr>ch_events := m\<rparr>) ep = Inr (c', ep')"
  shows "poller_inv (chans(p \<mapsto> c'), ep')"
proof -
  note ok = poller_invD(1) [OF inv c]
  note out = channel_update_outcome [OF ok poller_invD(3) [OF inv], of m, unfolded upd]
  show ?thesis
  proof (cases "ch_index c = kNew")
    case True
    with out have "channelMap ep (ch_fd c) = None"
      and c': "c' = c\<lparr>ch_events := m, ch_addedToLoop := True, ch_index := kAdded\<rparr>"
      and ep': "ep' = ep\<lparr>channelMap := (channelMap ep)(ch_fd c \<mapsto> p),
                     interest := (interest ep)(ch_fd c \<mapsto> (m, p))\<rparr>"
      by (auto split: if_splits)
    then show ?thesis unfolding ep'
      by (intro poller_inv_update [OF inv c])
        (use ok in \<open>auto simp: channel_ok_def index_defs\<close>)
  next
    case False
    with ok have cm: "channelMap ep (ch_fd c) = Some p" by (simp add: channel_ok_def)
    from False out obtain y i where c': "c' = c\<lparr>ch_events := m, ch_addedToLoop := True, ch_index := i\<rparr>"
      and ep': "ep' = ep\<lparr>interest := (interest ep)(ch_fd c := y)\<rparr>"
      and iy: "i = kDeleted \<and> y = None \<and> m = kNoneEvent \<or> i = kAdded \<and> y = Some (m, p)"
      by (auto split: if_splits)
    show ?thesis unfolding ep' epoll_eta [OF cm]
      by (intro poller_inv_update [OF inv c])
        (use ok cm iy c' in \<open>auto simp: channel_ok_def index_defs isNoneEvent_def\<close>)
  qed
qed

lemma run_channel_act_update:
  "\<exists>m. run_channel_act a c ep = channel_update True (c\<lparr>ch_events := m\<rparr>) ep"
  by (cases a) (auto simp: enableReading_def disableReading_def enableWriting_def disableWriting_def
      disableAll_def)

lemma channel_remove_outcome:
  assumes "channel_ok ep p c"
  shows "channel_remove True c ep =
    (if isNoneEvent c \<and> ch_index c \<noteq> kNew
     then Inr (c\<lparr>ch_addedToLoop := False, ch_index := kNew\<rparr>,
               ep\<lparr>channelMap := (channelMap ep)(ch_fd c := None),
                  interest := (interest ep)(ch_fd c := None)\<rparr>)
     else if isNoneEvent c then channel_remove True c ep else Inl AssertFailed)"
  using assms
  by (auto simp: channel_remove_def removeChannel_def assertInLoopThread_def channel_ok_def Let_def
      setIndex_def epoll_update_def isNoneEvent_def index_defs cassert_def fun_upd_idem)

lemma channel_remove_kNew:
  "channel_ok ep p c \<Longrightarrow> ch_index c = kNew \<Longrightarrow> channel_remove True c ep = Inl AssertFailed"
  by (auto simp: channel_remove_def removeChannel_def assertInLoopThread_def channel_ok_def Let_def
      index_defs cassert_def)

lemma channel_remove_inv:
  assumes inv: "poller_inv (chans, ep)" and c: "chans p = Some c"
    and rem: "channel_remove True c ep = Inr (c', ep')"
  shows "poller_inv (chans(p \<mapsto> c'), ep')"
proof -
  note ok = poller_invD(1) [OF inv c]
  have new: "ch_index c \<noteq> kNew" using channel_remove_kNew [OF ok] rem by auto
  from channel_remove_outcome [OF ok] rem new
  have c': "c' = c\<lparr>ch_addedToLoop := False, ch_index := kNew\<rparr>"
    and ep': "ep' = ep\<lparr>channelMap := (channelMap ep)(ch_fd c := None),
                  interest := (interest ep)(ch_fd c := None)\<rparr>"
    by (auto split: if_splits)
  show ?thesis unfolding ep'
    by (intro poller_inv_update [OF inv c]) (use ok new c' in \<open>auto simp: channel_ok_def index_defs\<close>)
qed

lemma destroy_Channel_kNew:
  assumes "channel_ok ep p c" and "destroy_Channel True c ep = Inr ()"
  shows "ch_index c = kNew"
  using assms by (auto simp: destroy_Channel_def hasChannel_def assertInLoopThread_def channel_ok_def
      res_simps)

lemma poller_inv_destroy:
  assumes inv: "poller_inv (chans, ep)" and "chans p = Some c" and "ch_index c = kNew"
  shows "poller_inv (chans(p := None), ep)"
proof -
  have "q \<noteq> p" if "channelMap ep fd = Some q" for fd q
    using poller_invD(2) [OF inv that] assms(2,3) by auto
  then show ?thesis
    using poller_invD [OF inv] by (intro poller_invI) (auto split: if_splits)
qed

lemma poller_inv_create:
  "poller_inv (chans, ep) \<Longrightarrow> chans p = None \<Longrightarrow> poller_inv (chans(p \<mapsto> new_Channel p fd), ep)"
proof -
  assume inv: "poller_inv (chans, ep)" and p: "chans p = None"
  have "channel_ok ep p (new_Channel p fd)" by (simp add: channel_ok_def new_Channel_def index_defs)
  with p show ?thesis
    using poller_invD [OF inv] by (intro poller_invI) (force split: if_splits)+
qed

lemma poller_inv_setRevents:
  "poller_inv (chans, ep) \<Longrightarrow> chans p = Some c \<Longrightarrow> poller_inv (chans(p \<mapsto> setRevents r c), ep)"
proof -
  assume inv: "poller_inv (chans, ep)" and p: "chans p = Some c"
  have "channel_ok ep p (setRevents r c)" and "ch_fd (setRevents r c) = ch_fd c"
    and "ch_index (setRevents r c) = ch_index c"
    using poller_invD(1) [OF inv p] by (auto simp: channel_ok_def setRevents_def isNoneEvent_def)
  with p show ?thesis
    using poller_invD [OF inv] by (intro poller_invI) (force split: if_splits)+
qed

lemma fillActiveChannels_inv:
  "fillActiveChannels ep es chans = Inr (chans', act) \<Longrightarrow> poller_inv (chans, ep) \<Longrightarrow> poller_inv (chans', ep)"
proof (induction es arbitrary: chans act)
  case Nil
  then show ?case by simp
next
  case (Cons e es)
  obtain p ev where e: "e = (p, ev)" by (cases e)
  from Cons.prems(1) obtain c act' where "chans p = Some c"
    and "fillActiveChannels ep es (chans(p \<mapsto> setRevents ev c)) = Inr (chans', act')"
    by (auto simp: e res_simps split: option.splits prod.splits)
  with Cons.IH Cons.prems(2) poller_inv_setRevents show ?case by blast
qed

lemma poller_inv_size: "poller_inv (chans, ep\<lparr>eventVec_size := n\<rparr>) = poller_inv (chans, ep)"
  by (simp add: poller_inv_def channel_ok_def)

lemma poller_step_inv: "poller_step s t \<Longrightarrow> poller_inv s \<Longrightarrow> poller_inv t"
proof (induction rule: poller_step.induct)
  case (act chans p c a ep c' ep')
  obtain m where "run_channel_act a c ep = channel_update True (c\<lparr>ch_events := m\<rparr>) ep"
    using run_channel_act_update by blast
  with act show ?case using channel_update_inv by metis
next
  case (poll events ep chans ep' chans' act)
  then show ?case
    by (auto simp: epoll_poll_def res_simps poller_inv_size dest: fillActiveChannels_inv
        split: if_splits prod.splits)
qed (auto intro: poller_inv_create channel_remove_inv poller_inv_destroy
      dest: destroy_Channel_kNew poller_invD(1))

definition poller_start :: "(nat \<rightharpoonup> channel) \<times> epoll \<Rightarrow> bool" where
  "poller_start s \<longleftrightarrow> s = (Map.empty, new_Epoll)"

interpretation poller: invariant_system poller_start poller_step poller_inv
proof unfold_locales
  show "poller_start s \<Longrightarrow> poller_inv s" for s
    by (simp add: poller_start_def poller_inv_def new_Epoll_def)
  show "poller_inv s \<Longrightarrow> poller_step s t \<Longrightarrow> poller_inv t" for s t
    by (rule poller_step_inv)
qed

lemma run_channel_act_fault:
  assumes "poller_inv (chans, ep)" and "chans p = Some c" and "run_channel_act a c ep = Inl e"
  shows "e = AssertFailed \<and> ch_index c = kNew \<and> channelMap ep (ch_fd c) \<noteq> None"
proof -
  obtain m where m: "run_channel_act a c ep = channel_update True (c\<lparr>ch_events := m\<rparr>) ep"
    using run_channel_act_update by blast
  show ?thesis
    using channel_update_outcome [OF poller_invD(1) [OF assms(1,2)] poller_invD(3) [OF assms(1)], of m]
      assms(3) m by (auto split: if_splits)
qed

lemma interest_of_channels:
  assumes "poller_inv (chans, ep)"
  shows "interest ep fd = (case channelMap ep fd of None \<Rightarrow> None | Some p \<Rightarrow>
      (case chans p of None \<Rightarrow> None | Some c \<Rightarrow>
        if ch_index c = kAdded then Some (ch_events c, p) else None))"
proof (cases "channelMap ep fd")
  case None
  with poller_invD(3) [OF assms] show ?thesis by simp
next
  case (Some p)
  with poller_invD(2) [OF assms] obtain c where "chans p = Some c" "ch_fd c = fd" "ch_index c \<noteq> kNew"
    by blast
  with poller_invD(1) [OF assms, of p c] Some show ?thesis by (auto simp: channel_ok_def)
qed

lemma registered_other:
  assumes "poller_inv (chans, ep)" and "chans p = Some c" and "ch_index c = kNew"
    and "channelMap ep (ch_fd c) \<noteq> None"
  shows "\<exists>q d. q \<noteq> p \<and> chans q = Some d \<and> ch_fd d = ch_fd c \<and> ch_addedToLoop d"
proof -
  from assms(4) obtain q where "channelMap ep (ch_fd c) = Some q" by blast
  from poller_invD(2) [OF assms(1) this] obtain d where d: "chans q = Some d" "ch_fd d = ch_fd c"
    "ch_index d \<noteq> kNew" by blast
  moreover have "ch_addedToLoop d" using poller_invD(1) [OF assms(1) d(1)] d(3) by (simp add: channel_ok_def)
  moreover have "q \<noteq> p" using d assms(2,3) by auto
  ultimately show ?thesis by blast
qed



end
