(* ===== verification/Net_EventLoop.thy ===== *)
theory Net_EventLoop
  imports Net_Epoll
begin

text \<open>
  \<open>net/EventLoop.h\<close> and \<open>net/EventLoop.cpp\<close>: the loop, its queue of functors and the eventfd
  that wakes it. A functor is a value of the type \<open>'f\<close>; what running it does is an
  argument (\<open>exec\<close>), so that a component can run its own callbacks on the same loop. The
  eventfd is its counter. The second half describes the loop thread and any number of
  other threads, step by step, with \<open>queueInLoop\<close> split at the unlock of its mutex.
\<close>

section \<open>The loop object\<close>

record 'f event_loop =
  threadID :: nat
  looping :: bool
  quit_flag :: bool
  callingPendingFunctors :: bool
  eventHandling :: bool
  loop_index :: int
  wakeup_count :: nat
  pendingFunctors :: "'f list"
  activeChannels :: "nat list"
  currentActiveChannel :: "nat option"

definition kPollTimeMs :: int where
  "kPollTimeMs = 10000"

definition new_EventLoop :: "nat \<Rightarrow> 'f event_loop" where
  "new_EventLoop tid =
     \<lparr>threadID = tid, looping = False, quit_flag = False, callingPendingFunctors = False,
      eventHandling = False, loop_index = 0, wakeup_count = 0, pendingFunctors = [],
      activeChannels = [], currentActiveChannel = None\<rparr>"

definition isInLoopThread :: "nat \<Rightarrow> 'f event_loop \<Rightarrow> bool" where
  "isInLoopThread tid l \<longleftrightarrow> threadID l = tid"

definition loop_quit :: "'f event_loop \<Rightarrow> 'f event_loop" where
  "loop_quit l = l\<lparr>quit_flag := True\<rparr>"

definition queueSize :: "'f event_loop \<Rightarrow> nat" where
  "queueSize l = length (pendingFunctors l)"

definition wakeup :: "'f event_loop \<Rightarrow> 'f event_loop" where
  "wakeup l = l\<lparr>wakeup_count := wakeup_count l + 1\<rparr>"

text \<open>\<open>EventLoop::handleRead\<close>: reading an eventfd resets its counter.\<close>

definition loop_handleRead :: "'f event_loop \<Rightarrow> 'f event_loop" where
  "loop_handleRead l = l\<lparr>wakeup_count := 0\<rparr>"

definition queue_push :: "'f \<Rightarrow> 'f event_loop \<Rightarrow> 'f event_loop" where
  "queue_push cb l = l\<lparr>pendingFunctors := pendingFunctors l @ [cb]\<rparr>"

definition queue_wakeup :: "nat \<Rightarrow> 'f event_loop \<Rightarrow> 'f event_loop" where
  "queue_wakeup tid l =
     (if \<not> isInLoopThread tid l \<or> callingPendingFunctors l then wakeup l else l)"

definition queueInLoop :: "nat \<Rightarrow> 'f \<Rightarrow> 'f event_loop \<Rightarrow> 'f event_loop" where
  "queueInLoop tid cb l = queue_wakeup tid (queue_push cb l)"

definition runInLoop :: "('f \<Rightarrow> 'f event_loop \<Rightarrow> 'f event_loop res) \<Rightarrow> nat \<Rightarrow> 'f \<Rightarrow> 'f event_loop \<Rightarrow>
    'f event_loop res" where
  "runInLoop exec tid cb l =
     (if isInLoopThread tid l then exec cb l else Inr (queueInLoop tid cb l))"

fun run_functors :: "('f \<Rightarrow> 'f event_loop \<Rightarrow> 'f event_loop res) \<Rightarrow> 'f list \<Rightarrow> 'f event_loop \<Rightarrow>
    'f event_loop res" where
  "run_functors exec [] l = Inr l"
| "run_functors exec (f # fs) l = bindR (exec f l) (run_functors exec fs)"

definition doPendingFunctors :: "('f \<Rightarrow> 'f event_loop \<Rightarrow> 'f event_loop res) \<Rightarrow> 'f event_loop \<Rightarrow>
    'f event_loop res" where
  "doPendingFunctors exec l =
     (let l1 = l\<lparr>callingPendingFunctors := True\<rparr>;
          functors = pendingFunctors l1;
          l2 = l1\<lparr>pendingFunctors := []\<rparr> in
      bindR (run_functors exec functors l2) (\<lambda>l3. Inr (l3\<lparr>callingPendingFunctors := False\<rparr>)))"

definition loop_removeChannel :: "nat \<Rightarrow> channel \<Rightarrow> 'f event_loop \<times> epoll \<Rightarrow> (channel \<times> epoll) res" where
  "loop_removeChannel tid c = (\<lambda>(l, ep). assertInLoopThread (isInLoopThread tid l)
     (cassert (eventHandling l \<longrightarrow>
         currentActiveChannel l = Some (ch_ptr c) \<or> ch_ptr c \<notin> set (activeChannels l))
       (removeChannel (isInLoopThread tid l) c ep)))"

definition loop_updateChannel :: "nat \<Rightarrow> channel \<Rightarrow> 'f event_loop \<times> epoll \<Rightarrow> (channel \<times> epoll) res" where
  "loop_updateChannel tid c = (\<lambda>(l, ep). assertInLoopThread (isInLoopThread tid l)
     (updateChannel (isInLoopThread tid l) c ep))"

definition loop_hasChannel :: "nat \<Rightarrow> channel \<Rightarrow> 'f event_loop \<times> epoll \<Rightarrow> bool res" where
  "loop_hasChannel tid c = (\<lambda>(l, ep). assertInLoopThread (isInLoopThread tid l) (hasChannel (isInLoopThread tid l) c ep))"

text \<open>
  The constructor and the destructor with the wake-up channel: \<open>fd\<close> is what \<open>eventfd\<close> answered, \<open>p\<close> the address
  of the channel, and \<open>another\<close> tells that this thread has a loop already.
\<close>

definition create_EventLoop :: "nat \<Rightarrow> bool \<Rightarrow> nat \<Rightarrow> int \<Rightarrow> epoll \<Rightarrow> ('f event_loop \<times> channel \<times> epoll) res" where
  "create_EventLoop tid another p fd ep =
     (if fd < 0 \<or> another then Inl FatalAbort
      else bindR (enableReading True (setReadCallback (new_Channel p fd)) ep) (\<lambda>(c, ep1). Inr (new_EventLoop tid, c, ep1)))"

definition destroy_EventLoop :: "nat \<Rightarrow> 'f event_loop \<times> channel \<times> epoll \<Rightarrow> (channel \<times> epoll) res" where
  "destroy_EventLoop tid = (\<lambda>(l, c, ep).
     bindR (disableAll (isInLoopThread tid l) c ep) (\<lambda>(c1, ep1). channel_remove (isInLoopThread tid l) c1 ep1))"

text \<open>
  A loop that is created and destroyed in its thread leaves the poller as it was; the
  destructor ends the process in any other thread.
\<close>

lemma loop_lifecycle:
  assumes "0 \<le> fd" and "channelMap ep fd = None" and "interest ep fd = None"
  shows "\<exists>l c ep1. create_EventLoop tid False p fd ep = Inr (l, c, ep1) \<and>
    interest ep1 fd = Some (kReadEvent, p) \<and>
    returns (destroy_EventLoop tid (l, c, ep1)) (\<lambda>(c2, ep2). channelMap ep2 = channelMap ep \<and> interest ep2 = interest ep \<and>
      ch_index c2 = kNew) \<and>
    (\<forall>tid'. tid' \<noteq> tid \<longrightarrow> destroy_EventLoop tid' (l, c, ep1) = Inl FatalAbort)"
  using assms
  by (auto simp: create_EventLoop_def destroy_EventLoop_def enableReading_def disableAll_def channel_remove_def channel_update_def
      updateChannel_def removeChannel_def epoll_update_def new_Channel_def setReadCallback_def setIndex_def index_defs
      assertInLoopThread_def isInLoopThread_def new_EventLoop_def isNoneEvent_def kNoneEvent_def Let_def fun_upd_idem)

text \<open>
  One round of \<open>EventLoop::loop\<close> after \<open>poll\<close> returned the active channels \<open>act\<close>; \<open>handle\<close> is
  \<open>Channel::handleEvent\<close> on the channel at an address, callbacks included.
\<close>

fun handle_channels :: "(nat \<Rightarrow> 'f event_loop \<Rightarrow> 'f event_loop res) \<Rightarrow> nat list \<Rightarrow> 'f event_loop \<Rightarrow>
    'f event_loop res" where
  "handle_channels handle [] l = Inr l"
| "handle_channels handle (c # cs) l =
     bindR (handle c (l\<lparr>currentActiveChannel := Some c\<rparr>)) (handle_channels handle cs)"

definition loop_round :: "('f \<Rightarrow> 'f event_loop \<Rightarrow> 'f event_loop res) \<Rightarrow>
    (nat \<Rightarrow> 'f event_loop \<Rightarrow> 'f event_loop res) \<Rightarrow> nat list \<Rightarrow> 'f event_loop \<Rightarrow> 'f event_loop res" where
  "loop_round exec handle act l =
     (let l1 = l\<lparr>activeChannels := act, loop_index := loop_index l + 1, eventHandling := True\<rparr> in
      bindR (handle_channels handle act l1) (\<lambda>l2.
      doPendingFunctors exec (l2\<lparr>currentActiveChannel := None, eventHandling := False\<rparr>)))"

text \<open>
  \<open>loop()\<close> against the poll results \<open>acts\<close>: it goes round once per result until \<open>quit\<close> has
  been called. The answer says whether it has left the loop.
\<close>

fun loop_rounds :: "('f \<Rightarrow> 'f event_loop \<Rightarrow> 'f event_loop res) \<Rightarrow>
    (nat \<Rightarrow> 'f event_loop \<Rightarrow> 'f event_loop res) \<Rightarrow> nat list list \<Rightarrow> 'f event_loop \<Rightarrow>
    (bool \<times> 'f event_loop) res" where
  "loop_rounds exec handle acts l =
     (if quit_flag l then Inr (True, l\<lparr>looping := False\<rparr>)
      else case acts of [] \<Rightarrow> Inr (False, l)
           | act # rest \<Rightarrow> bindR (loop_round exec handle act l) (loop_rounds exec handle rest))"

definition loop_main :: "('f \<Rightarrow> 'f event_loop \<Rightarrow> 'f event_loop res) \<Rightarrow>
    (nat \<Rightarrow> 'f event_loop \<Rightarrow> 'f event_loop res) \<Rightarrow> nat \<Rightarrow> nat list list \<Rightarrow> 'f event_loop \<Rightarrow>
    (bool \<times> 'f event_loop) res" where
  "loop_main exec handle tid acts l =
     cassert (\<not> looping l) (assertInLoopThread (isInLoopThread tid l)
       (loop_rounds exec handle acts (l\<lparr>looping := True, quit_flag := False\<rparr>)))"

section \<open>The loop thread among other threads\<close>

text \<open>
  Where the loop thread is: outside \<open>loop()\<close>, at the test of \<open>while (!m_quit)\<close>, inside \<open>epoll_wait\<close>, running event handlers,
  about to take the queue (after setting \<open>m_callingPendingFunctors\<close>), or running the functors
  it took.
\<close>

datatype 'f loop_pc = NotLooping | Check | Polling | Handling | Swap | Running "'f list"

text \<open>
  \<open>inflight\<close> counts the other threads that have pushed a functor and not yet written the
  eventfd; \<open>cold\<close> is set when the loop's own thread queues while it is not in \<open>loop()\<close>;
  \<open>pushed\<close> and \<open>executed\<close> record the functors queued and started so far.
\<close>

record 'f loop_sys =
  sl :: "'f event_loop"
  pc :: "'f loop_pc"
  inflight :: nat
  cold :: bool
  pushed :: "'f list"
  executed :: "'f list"

definition sys_start :: "'f loop_sys \<Rightarrow> bool" where
  "sys_start s \<longleftrightarrow> (\<exists>tid. s = \<lparr>sl = new_EventLoop tid, pc = NotLooping, inflight = 0, cold = False,
     pushed = [], executed = []\<rparr>)"

abbreviation init_sys :: "nat \<Rightarrow> 'f loop_sys" where
  "init_sys tid \<equiv> \<lparr>sl = new_EventLoop tid, pc = NotLooping, inflight = 0, cold = False, pushed = [], executed = []\<rparr>"

inductive loop_step :: "'f loop_sys \<Rightarrow> 'f loop_sys \<Rightarrow> bool" where
  enter: "pc s = NotLooping \<Longrightarrow>
    loop_step s (s\<lparr>sl := (sl s)\<lparr>looping := True, quit_flag := False\<rparr>, pc := Check\<rparr>)"
| check_quit: "pc s = Check \<Longrightarrow>
    loop_step s (s\<lparr>sl := (sl s)\<lparr>looping := \<not> quit_flag (sl s)\<rparr>,
                   pc := if quit_flag (sl s) then NotLooping else Polling\<rparr>)"
| idle_queue: "pc s = NotLooping \<Longrightarrow>
    loop_step s (s\<lparr>sl := queueInLoop (threadID (sl s)) f (sl s), cold := True, pushed := pushed s @ [f]\<rparr>)"
| poll_returns: "pc s = Polling \<Longrightarrow> loop_step s (s\<lparr>pc := Handling\<rparr>)"
| read_wakeup: "pc s = Handling \<Longrightarrow> loop_step s (s\<lparr>sl := loop_handleRead (sl s)\<rparr>)"
| handler_queue: "pc s = Handling \<Longrightarrow>
    loop_step s (s\<lparr>sl := queueInLoop (threadID (sl s)) f (sl s), pushed := pushed s @ [f]\<rparr>)"
| begin_pending: "pc s = Handling \<Longrightarrow>
    loop_step s (s\<lparr>sl := (sl s)\<lparr>callingPendingFunctors := True\<rparr>, pc := Swap\<rparr>)"
| swap: "pc s = Swap \<Longrightarrow>
    loop_step s (s\<lparr>sl := (sl s)\<lparr>pendingFunctors := []\<rparr>, pc := Running (pendingFunctors (sl s)), cold := False\<rparr>)"
| run: "pc s = Running (f # fs) \<Longrightarrow>
    loop_step s (s\<lparr>pc := Running fs, executed := executed s @ [f]\<rparr>)"
| functor_queue: "pc s = Running fs \<Longrightarrow>
    loop_step s (s\<lparr>sl := queueInLoop (threadID (sl s)) f (sl s), pushed := pushed s @ [f]\<rparr>)"
| end_pending: "pc s = Running [] \<Longrightarrow>
    loop_step s (s\<lparr>sl := (sl s)\<lparr>callingPendingFunctors := False\<rparr>, pc := Check\<rparr>)"
| other_push: "loop_step s (s\<lparr>sl := queue_push f (sl s), inflight := inflight s + 1, pushed := pushed s @ [f]\<rparr>)"
| other_wakeup: "0 < inflight s \<Longrightarrow> tid \<noteq> threadID (sl s) \<Longrightarrow>
    loop_step s (s\<lparr>sl := queue_wakeup tid (sl s), inflight := inflight s - 1\<rparr>)"
| call_quit: "loop_step s (s\<lparr>sl := loop_quit (sl s)\<rparr>)"

definition taken :: "'f loop_pc \<Rightarrow> 'f list" where
  "taken p = (case p of Running fs \<Rightarrow> fs | _ \<Rightarrow> [])"

definition loop_inv :: "'f loop_sys \<Rightarrow> bool" where
  "loop_inv s \<longleftrightarrow>
     (callingPendingFunctors (sl s) \<longleftrightarrow> (case pc s of Swap \<Rightarrow> True | Running fs \<Rightarrow> True | _ \<Rightarrow> False)) \<and>
     pushed s = executed s @ taken (pc s) @ pendingFunctors (sl s) \<and>
     (pc s \<noteq> Handling \<longrightarrow> pc s \<noteq> Swap \<longrightarrow> pendingFunctors (sl s) \<noteq> [] \<longrightarrow>
        0 < wakeup_count (sl s) \<or> 0 < inflight s \<or> cold s)"

lemma sys_start_init: "sys_start (init_sys tid)"
  unfolding sys_start_def by blast

lemma entered_polling:
  "reaches loop_step (init_sys tid)
     ((init_sys tid)\<lparr>sl := (new_EventLoop tid)\<lparr>looping := True\<rparr>, pc := Polling\<rparr> :: 'f loop_sys)"
proof -
  have "loop_step (init_sys tid :: 'f loop_sys)
     ((init_sys tid)\<lparr>sl := (new_EventLoop tid)\<lparr>looping := True\<rparr>, pc := Check\<rparr>)"
    using loop_step.enter [of "init_sys tid"] by (simp add: new_EventLoop_def)
  moreover have "loop_step ((init_sys tid)\<lparr>sl := (new_EventLoop tid)\<lparr>looping := True\<rparr>, pc := Check\<rparr> :: 'f loop_sys)
     ((init_sys tid)\<lparr>sl := (new_EventLoop tid)\<lparr>looping := True\<rparr>, pc := Polling\<rparr>)"
    using loop_step.check_quit [of "(init_sys tid)\<lparr>sl := (new_EventLoop tid)\<lparr>looping := True\<rparr>, pc := Check\<rparr>"]
    by (simp add: new_EventLoop_def)
  ultimately show ?thesis by (rule reaches.step [OF reaches_one])
qed

lemmas loop_ops = queueInLoop_def queue_push_def queue_wakeup_def isInLoopThread_def wakeup_def
  loop_handleRead_def loop_quit_def

lemma loop_step_inv: "loop_step s t \<Longrightarrow> loop_inv s \<Longrightarrow> loop_inv t"
  by (induction rule: loop_step.induct) (auto simp: loop_inv_def loop_ops taken_def split: loop_pc.splits)

interpretation loop: invariant_system sys_start loop_step loop_inv
proof unfold_locales
  show "sys_start s \<Longrightarrow> loop_inv s" for s :: "'f loop_sys"
    by (auto simp: sys_start_def loop_inv_def new_EventLoop_def taken_def)
  show "loop_inv s \<Longrightarrow> loop_step s t \<Longrightarrow> loop_inv t" for s t :: "'f loop_sys"
    by (rule loop_step_inv)
qed

text \<open>
  C4. No wake-up is lost: for any interleaving of the loop thread with any number of other
  threads calling \<open>queueInLoop\<close>, whenever the loop thread is inside \<open>epoll_wait\<close> while the
  queue of pending functors is not empty, either the eventfd is readable (so the wait
  returns at once) or a thread that has just queued is still about to write it. The one
  exception is a functor the loop's own thread queued before entering \<open>loop()\<close>.
\<close>

theorem no_lost_wakeup:
  assumes "sys_start s0" and "reaches loop_step s0 s" and "pc s = Polling"
    and "pendingFunctors (sl s) \<noteq> []" and "\<not> cold s"
  shows "0 < wakeup_count (sl s) \<or> 0 < inflight s"
  using loop.reachable_inv [OF assms(1,2)] assms(3-5) by (auto simp: loop_inv_def)

theorem no_lost_wakeup_witness:
  "\<exists>s :: nat loop_sys. pc s = Polling \<and> pendingFunctors (sl s) = [5] \<and> (0 < wakeup_count (sl s) \<or> 0 < inflight s)"
proof -
  let ?s0 = "init_sys 1 :: nat loop_sys"
  let ?s1 = "?s0\<lparr>sl := (new_EventLoop 1)\<lparr>looping := True\<rparr>, pc := Polling\<rparr>"
  let ?s2 = "?s1\<lparr>sl := queue_push 5 (sl ?s1), inflight := inflight ?s1 + 1, pushed := pushed ?s1 @ [5]\<rparr>"
  have s2: "loop_step ?s1 ?s2" by (rule loop_step.other_push)
  have r: "reaches loop_step ?s0 ?s2" by (rule reaches.step, rule entered_polling) (rule s2)
  have st: "sys_start ?s0" by (rule sys_start_init)
  have q: "pc ?s2 = Polling" "pendingFunctors (sl ?s2) = [5]" "pendingFunctors (sl ?s2) \<noteq> []" "\<not> cold ?s2"
    by (simp_all add: queue_push_def new_EventLoop_def)
  have w: "0 < wakeup_count (sl ?s2) \<or> 0 < inflight ?s2" by (rule no_lost_wakeup [OF st r q(1) q(3) q(4)])
  show ?thesis by (rule exI [of _ ?s2]) (intro conjI q(1) q(2) w)
qed

text \<open>
  C16. Queued functors run exactly once and in the order they were queued, whatever threads
  they come from: at every moment the sequence of functors queued so far is the sequence
  of those started, followed by those taken and not yet started, followed by those pending.
\<close>

theorem functors_run_in_order:
  assumes "sys_start s0" and "reaches loop_step s0 s"
  shows "pushed s = executed s @ taken (pc s) @ pendingFunctors (sl s)"
  using loop.reachable_inv [OF assms] by (simp add: loop_inv_def)

theorem functors_run_in_order_witness:
  "\<exists>s :: nat loop_sys. pc s = NotLooping \<and> pushed s = [5] \<and> pushed s = executed s @ taken (pc s) @ pendingFunctors (sl s)"
proof -
  let ?s0 = "init_sys 1 :: nat loop_sys"
  let ?s1 = "?s0\<lparr>sl := queue_push 5 (sl ?s0), inflight := inflight ?s0 + 1, pushed := pushed ?s0 @ [5]\<rparr>"
  have r: "reaches loop_step ?s0 ?s1" by (rule reaches_one) (rule loop_step.other_push)
  have st: "sys_start ?s0" by (rule sys_start_init)
  have f: "pushed ?s1 = executed ?s1 @ taken (pc ?s1) @ pendingFunctors (sl ?s1)"
    by (rule functors_run_in_order [OF st r])
  have q: "pc ?s1 = NotLooping" "pushed ?s1 = [5]" by simp_all
  show ?thesis by (rule exI [of _ ?s1]) (intro conjI q f)
qed

section \<open>One pass over the queue\<close>

lemma queue_while_calling:
  "callingPendingFunctors l \<Longrightarrow> fold (queueInLoop tid) gs l =
     l\<lparr>pendingFunctors := pendingFunctors l @ gs, wakeup_count := wakeup_count l + length gs\<rparr>"
  by (induction gs arbitrary: l) (auto simp: loop_ops)

lemma run_functors_spawn:
  assumes "callingPendingFunctors l"
  shows "run_functors (\<lambda>f l. Inr (fold (queueInLoop tid) (spawn f) l)) fs l =
    Inr (l\<lparr>pendingFunctors := pendingFunctors l @ concat (map spawn fs),
           wakeup_count := wakeup_count l + length (concat (map spawn fs))\<rparr>)"
  using assms by (induction fs arbitrary: l) (auto simp: queue_while_calling)

text \<open>
  One call of \<open>doPendingFunctors\<close> runs exactly the functors that were pending when it
  began, even when they queue further functors (or themselves) while they run: those are
  left, in order, for the next round, and the eventfd is written once for each of them, so
  the next \<open>epoll_wait\<close> does not block. The pass always ends.
\<close>

theorem doPendingFunctors_one_pass:
  "doPendingFunctors (\<lambda>f l. Inr (fold (queueInLoop tid) (spawn f) l)) l =
     Inr (l\<lparr>pendingFunctors := concat (map spawn (pendingFunctors l)),
            wakeup_count := wakeup_count l + length (concat (map spawn (pendingFunctors l))),
            callingPendingFunctors := False\<rparr>)"
  by (simp add: doPendingFunctors_def Let_def run_functors_spawn)

text \<open>
  \<open>quit()\<close> only sets a flag: called from another thread it does not wake the loop. There is
  an execution after which the flag is set, the loop thread is still inside \<open>epoll_wait\<close>,
  and neither the eventfd is readable nor any thread is about to write it, so nothing but
  the poll timeout (\<open>kPollTimeMs\<close>, ten seconds) ends the wait.
\<close>

theorem quit_does_not_wake:
  "\<exists>s0 s :: 'f loop_sys. sys_start s0 \<and> reaches loop_step s0 s \<and> quit_flag (sl s) \<and> pc s = Polling \<and>
     wakeup_count (sl s) = 0 \<and> inflight s = 0"
proof -
  let ?s0 = "init_sys 1 :: 'f loop_sys"
  let ?s1 = "?s0\<lparr>sl := (new_EventLoop 1)\<lparr>looping := True\<rparr>, pc := Polling\<rparr>"
  let ?s2 = "?s1\<lparr>sl := loop_quit (sl ?s1)\<rparr>"
  have s2: "loop_step ?s1 ?s2" by (rule loop_step.call_quit)
  have r: "reaches loop_step ?s0 ?s2" by (rule reaches.step, rule entered_polling) (rule s2)
  have st: "sys_start ?s0" by (rule sys_start_init)
  have q: "quit_flag (sl ?s2)" "pc ?s2 = Polling" "wakeup_count (sl ?s2) = 0" "inflight ?s2 = 0"
    by (simp_all add: loop_quit_def new_EventLoop_def)
  show ?thesis by (rule exI [of _ ?s0], rule exI [of _ ?s2]) (intro conjI q r st)
qed

end
