(* ===== verification/Net_TimerQueue.thy ===== *)
theory Net_TimerQueue
  imports Core_DateTime Net_EventLoop "HOL-Library.Product_Lexorder"
begin

text \<open>
  \<open>net/Timer\<close>, \<open>net/TimerId.h\<close>, \<open>net/TimerQueue\<close> and the timer functions of \<open>EventLoop\<close>. The
  \<open>Timer\<close> objects live in an explicit heap (a map from addresses), because the queue
  owns them through raw pointers: reading a deleted object is the fault \<open>MemoryError\<close>.
  A \<open>std::set\<close> is its sorted list of elements. The current time, which the source reads
  from the system clock, and the address of a new object are arguments.
\<close>

section \<open>Ordered sets\<close>

definition set_insert :: "'a::linorder \<Rightarrow> 'a list \<Rightarrow> bool \<times> 'a list" where
  "set_insert x xs = (x \<notin> set xs, if x \<in> set xs then xs else insort x xs)"

definition set_erase :: "'a::linorder \<Rightarrow> 'a list \<Rightarrow> nat \<times> 'a list" where
  "set_erase x xs = (if x \<in> set xs then 1 else 0, remove1 x xs)"

section \<open>Timers\<close>

record timer =
  t_callback :: nat
  expiration :: datetime
  interval :: rat
  repeat :: bool
  sequence :: int

type_synonym timer_id = "nat \<times> int"
type_synonym entry = "datetime \<times> nat"

record timer_queue =
  theap :: "nat \<rightharpoonup> timer"
  numCreated :: int
  timers :: "entry list"
  activeTimers :: "timer_id list"
  callingExpiredTimers :: bool
  cancelingTimers :: "timer_id list"
  timerfd :: "(datetime \<times> int \<times> int) option"

definition new_TimerQueue :: timer_queue where
  "new_TimerQueue = \<lparr>theap = Map.empty, numCreated = 0, timers = [], activeTimers = [],
     callingExpiredTimers = False, cancelingTimers = [], timerfd = None\<rparr>"

text \<open>\<open>new Timer(cb, when, interval)\<close> at the address \<open>p\<close> the allocator chose.\<close>

definition new_Timer :: "nat \<Rightarrow> nat \<Rightarrow> datetime \<Rightarrow> rat \<Rightarrow> timer_queue \<Rightarrow> timer_queue" where
  "new_Timer p cb when iv q =
     q\<lparr>theap := (theap q)(p \<mapsto> \<lparr>t_callback = cb, expiration = when, interval = iv, repeat = (iv > 0),
                              sequence = numCreated q\<rparr>),
       numCreated := numCreated q + 1\<rparr>"

definition delete_Timer :: "nat \<Rightarrow> timer_queue \<Rightarrow> timer_queue" where
  "delete_Timer p q = q\<lparr>theap := (theap q)(p := None)\<rparr>"

definition deref :: "nat \<Rightarrow> timer_queue \<Rightarrow> timer res" where
  "deref p q = (case theap q p of None \<Rightarrow> Inl MemoryError | Some t \<Rightarrow> Inr t)"

definition restart :: "datetime \<Rightarrow> timer \<Rightarrow> timer" where
  "restart now t =
     (if repeat t then t\<lparr>expiration := addSeconds (double_to_int64 (interval t)) now\<rparr>
      else t\<lparr>expiration := DateTime 0\<rparr>)"

section \<open>The timer descriptor\<close>

text \<open>
  The descriptor is a one-shot timer: \<open>timerfd\<close> holds the expiration it was last armed for
  and the relative time (seconds, nanoseconds) given to the kernel, or \<open>None\<close> once it fired.
\<close>

definition howMuchTimeFromNow :: "datetime \<Rightarrow> datetime \<Rightarrow> int \<times> int" where
  "howMuchTimeFromNow cur when =
     (let d = microSecondsSinceEpoch when - microSecondsSinceEpoch cur;
          us = (if d < 100 then 100 else d) in
      (us sdiv kMicroSecondsPerSecond, (us smod kMicroSecondsPerSecond) * 1000))"

definition resetTimerfd :: "datetime \<Rightarrow> datetime \<Rightarrow> timer_queue \<Rightarrow> timer_queue" where
  "resetTimerfd cur when q = q\<lparr>timerfd := Some (when, howMuchTimeFromNow cur when)\<rparr>"

definition readTimerfd :: "timer_queue \<Rightarrow> timer_queue" where
  "readTimerfd q = q\<lparr>timerfd := None\<rparr>"

section \<open>Operations of the queue\<close>

abbreviation same_size :: "timer_queue \<Rightarrow> bool" where
  "same_size q \<equiv> length (timers q) = length (activeTimers q)"

text \<open>\<open>TimerQueue::insert\<close>; its callers have asserted the loop thread themselves.\<close>

definition insert_timer :: "nat \<Rightarrow> timer_queue \<Rightarrow> (bool \<times> timer_queue) res" where
  "insert_timer p q =
     cassert (same_size q) (bindR (deref p q) (\<lambda>t.
       let when = expiration t;
           earliestChanged = (timers q = [] \<or> when < fst (hd (timers q)));
           (fresh1, ts) = set_insert (when, p) (timers q);
           (fresh2, as) = set_insert (p, sequence t) (activeTimers q) in
       cassert fresh1 (cassert fresh2 (cassert (length ts = length as)
         (Inr (earliestChanged, q\<lparr>timers := ts, activeTimers := as\<rparr>))))))"

definition addTimerInLoop :: "bool \<Rightarrow> datetime \<Rightarrow> nat \<Rightarrow> timer_queue \<Rightarrow> timer_queue res" where
  "addTimerInLoop inloop cur p q = assertInLoopThread inloop
     (bindR (insert_timer p q) (\<lambda>(earliestChanged, q1).
       if earliestChanged then bindR (deref p q1) (\<lambda>t. Inr (resetTimerfd cur (expiration t) q1))
       else Inr q1))"

definition cancelInLoop :: "bool \<Rightarrow> timer_id \<Rightarrow> timer_queue \<Rightarrow> timer_queue res" where
  "cancelInLoop inloop i q = assertInLoopThread inloop (cassert (same_size q)
     (bindR
       (if i \<in> set (activeTimers q) then
          bindR (deref (fst i) q) (\<lambda>t.
            let (n, ts) = set_erase (expiration t, fst i) (timers q) in
            cassert (n = 1) (Inr ((delete_Timer (fst i) q)\<lparr>timers := ts,
              activeTimers := remove1 i (activeTimers q)\<rparr>)))
        else if callingExpiredTimers q then
          Inr (q\<lparr>cancelingTimers := snd (set_insert i (cancelingTimers q))\<rparr>)
        else Inr q)
       (\<lambda>q1. cassert (same_size q1) (Inr q1))))"

definition UINTPTR_MAX :: nat where
  "UINTPTR_MAX = 2 ^ 64 - 1"

text \<open>\<open>lower_bound\<close> of a sorted set splits it at the first element not below the bound.\<close>

fun erase_active :: "entry list \<Rightarrow> timer_queue \<Rightarrow> timer_queue res" where
  "erase_active [] q = Inr q"
| "erase_active (e # es) q = bindR (deref (snd e) q) (\<lambda>t.
     let (n, as) = set_erase (snd e, sequence t) (activeTimers q) in
     cassert (n = 1) (erase_active es (q\<lparr>activeTimers := as\<rparr>)))"

definition getExpired :: "datetime \<Rightarrow> timer_queue \<Rightarrow> (entry list \<times> timer_queue) res" where
  "getExpired now q = cassert (same_size q)
     (let sentry = (now, UINTPTR_MAX);
          expired = takeWhile (\<lambda>e. e < sentry) (timers q);
          rest = dropWhile (\<lambda>e. e < sentry) (timers q) in
      cassert (rest = [] \<or> now < fst (hd rest))
        (bindR (erase_active expired (q\<lparr>timers := rest\<rparr>)) (\<lambda>q1.
          cassert (same_size q1) (Inr (expired, q1)))))"

fun reset_entries :: "datetime \<Rightarrow> entry list \<Rightarrow> timer_queue \<Rightarrow> timer_queue res" where
  "reset_entries now [] q = Inr q"
| "reset_entries now (e # es) q = bindR (deref (snd e) q) (\<lambda>t.
     if repeat t \<and> (snd e, sequence t) \<notin> set (cancelingTimers q)
     then bindR (insert_timer (snd e) (q\<lparr>theap := (theap q)(snd e \<mapsto> restart now t)\<rparr>))
            (\<lambda>(_, q1). reset_entries now es q1)
     else reset_entries now es (delete_Timer (snd e) q))"

definition timers_reset :: "datetime \<Rightarrow> entry list \<Rightarrow> datetime \<Rightarrow> timer_queue \<Rightarrow> timer_queue res" where
  "timers_reset cur expired now q = bindR (reset_entries now expired q) (\<lambda>q1.
     bindR (if timers q1 \<noteq> [] then bindR (deref (snd (hd (timers q1))) q1) (\<lambda>t. Inr (expiration t))
            else Inr (DateTime 0)) (\<lambda>nextExpire.
     Inr (if isValid nextExpire then resetTimerfd cur nextExpire q1 else q1)))"

text \<open>
  \<open>handleRead\<close> in the three parts between which callbacks run, and as a whole with what a
  callback does to the queue (it may add and cancel timers) as an argument.
\<close>

definition begin_expired :: "datetime \<Rightarrow> timer_queue \<Rightarrow> (entry list \<times> timer_queue) res" where
  "begin_expired now q = bindR (getExpired now (readTimerfd q)) (\<lambda>(expired, q1).
     Inr (expired, q1\<lparr>callingExpiredTimers := True, cancelingTimers := []\<rparr>))"

fun run_expired :: "(nat \<Rightarrow> timer_queue \<Rightarrow> timer_queue res) \<Rightarrow> entry list \<Rightarrow> timer_queue \<Rightarrow> timer_queue res" where
  "run_expired body [] q = Inr q"
| "run_expired body (e # es) q = bindR (deref (snd e) q) (\<lambda>t. bindR (body (t_callback t) q) (run_expired body es))"

definition timers_handleRead :: "(nat \<Rightarrow> timer_queue \<Rightarrow> timer_queue res) \<Rightarrow> bool \<Rightarrow> datetime \<Rightarrow> datetime \<Rightarrow>
    timer_queue \<Rightarrow> timer_queue res" where
  "timers_handleRead body inloop cur now q = assertInLoopThread inloop
     (bindR (begin_expired now q) (\<lambda>(expired, q1).
      bindR (run_expired body expired q1) (\<lambda>q2.
      timers_reset cur expired now (q2\<lparr>callingExpiredTimers := False\<rparr>))))"

text \<open>The destructor deletes the timers that are still queued.\<close>

definition destroy_TimerQueue :: "timer_queue \<Rightarrow> timer_queue" where
  "destroy_TimerQueue q = fold delete_Timer (map snd (timers q)) q"

section \<open>Timers of the event loop\<close>

text \<open>
  \<open>TimerQueue::addTimer\<close> called on the loop's own thread, and the three entry points of
  \<open>EventLoop\<close>: delays are doubles, \<open>addSeconds\<close> takes an \<open>int64_t\<close>.
\<close>

definition addTimer :: "datetime \<Rightarrow> nat \<Rightarrow> nat \<Rightarrow> datetime \<Rightarrow> rat \<Rightarrow> timer_queue \<Rightarrow> (timer_id \<times> timer_queue) res" where
  "addTimer cur p cb when iv q =
     (let q1 = new_Timer p cb when iv q in
      bindR (addTimerInLoop True cur p q1) (\<lambda>q2.
      bindR (deref p q2) (\<lambda>t. Inr ((p, sequence t), q2))))"

definition runAt :: "datetime \<Rightarrow> nat \<Rightarrow> nat \<Rightarrow> datetime \<Rightarrow> timer_queue \<Rightarrow> (timer_id \<times> timer_queue) res" where
  "runAt cur p cb time q = addTimer cur p cb time 0 q"

definition runAfter :: "datetime \<Rightarrow> nat \<Rightarrow> nat \<Rightarrow> rat \<Rightarrow> timer_queue \<Rightarrow> (timer_id \<times> timer_queue) res" where
  "runAfter cur p cb delay q = runAt cur p cb (addSeconds (double_to_int64 delay) cur) q"

definition runEvery :: "datetime \<Rightarrow> nat \<Rightarrow> nat \<Rightarrow> rat \<Rightarrow> timer_queue \<Rightarrow> (timer_id \<times> timer_queue) res" where
  "runEvery cur p cb iv q = addTimer cur p cb (addSeconds (double_to_int64 iv) cur) iv q"

section \<open>The invariant of the queue\<close>

text \<open>
  \<open>own\<close> is the set of live timers that are not in the queue at the moment: those being
  fired and those another thread allocated and has not handed over yet.
\<close>

definition seq_of :: "timer_queue \<Rightarrow> nat \<Rightarrow> int" where
  "seq_of q p = sequence (the (theap q p))"

definition id_of :: "timer_queue \<Rightarrow> entry \<Rightarrow> timer_id" where
  "id_of q e = (snd e, seq_of q (snd e))"

definition queue_inv :: "timer_queue \<Rightarrow> nat set \<Rightarrow> bool" where
  "queue_inv q own \<longleftrightarrow>
     sorted_wrt (<) (timers q) \<and> distinct (activeTimers q) \<and> distinct (map snd (timers q)) \<and>
     snd ` set (timers q) \<inter> own = {} \<and> dom (theap q) = snd ` set (timers q) \<union> own \<and>
     (\<forall>e \<in> set (timers q). expiration (the (theap q (snd e))) = fst e) \<and>
     set (activeTimers q) = id_of q ` set (timers q) \<and>
     (\<forall>p t. theap q p = Some t \<longrightarrow> p < UINTPTR_MAX \<and> sequence t < numCreated q) \<and>
     inj_on (seq_of q) (dom (theap q))"

lemma queue_invD:
  assumes "queue_inv q own"
  shows "sorted_wrt (<) (timers q)" "distinct (activeTimers q)" "distinct (map snd (timers q))"
    "snd ` set (timers q) \<inter> own = {}" "dom (theap q) = snd ` set (timers q) \<union> own"
    "\<And>e. e \<in> set (timers q) \<Longrightarrow> expiration (the (theap q (snd e))) = fst e"
    "set (activeTimers q) = id_of q ` set (timers q)"
    "\<And>p t. theap q p = Some t \<Longrightarrow> p < UINTPTR_MAX \<and> sequence t < numCreated q"
    "inj_on (seq_of q) (dom (theap q))"
  using assms by (auto simp: queue_inv_def)

lemma strict_sorted_distinct: "sorted_wrt (<) xs \<Longrightarrow> distinct (xs :: 'a::linorder list)"
  by (induction xs) auto

lemma set_insert_sorted:
  "sorted_wrt (<) xs \<Longrightarrow> x \<notin> set xs \<Longrightarrow> sorted_wrt (<) (insort x (xs :: 'a::linorder list))"
  by (simp add: strict_sorted_iff distinct_insort sorted_insort)

lemma remove1_sorted: "sorted_wrt (<) xs \<Longrightarrow> sorted_wrt (<) (remove1 x (xs :: 'a::linorder list))"
  by (simp add: strict_sorted_iff sorted_remove1 distinct_remove1)

lemma id_of_inj: "distinct (map snd (timers q)) \<Longrightarrow> inj_on (id_of q) (set (timers q))"
  by (auto simp: distinct_map inj_on_def id_of_def)

lemma queue_same_size: "queue_inv q own \<Longrightarrow> same_size q"
proof -
  assume inv: "queue_inv q own"
  note q = queue_invD [OF inv]
  have "length (activeTimers q) = card (id_of q ` set (timers q))"
    using q(2,7) by (metis distinct_card)
  also have "\<dots> = card (set (timers q))" by (rule card_image) (rule id_of_inj [OF q(3)])
  also have "\<dots> = length (timers q)" using q(1) by (simp add: distinct_card strict_sorted_distinct)
  finally show ?thesis by simp
qed

lemma new_TimerQueue_inv: "queue_inv new_TimerQueue {}"
  by (simp add: queue_inv_def new_TimerQueue_def)

lemma new_Timer_inv:
  assumes "queue_inv q own" and "theap q p = None" and "p < UINTPTR_MAX"
  shows "queue_inv (new_Timer p cb when iv q) (insert p own)"
proof -
  note q = queue_invD [OF assms(1)]
  have p: "p \<notin> snd ` set (timers q)" using q(5) assms(2) by auto
  have other: "theap (new_Timer p cb when iv q) r = theap q r" if "r \<noteq> p" for r
    using that by (simp add: new_Timer_def)
  have same: "id_of (new_Timer p cb when iv q) e = id_of q e" if "e \<in> set (timers q)" for e
  proof -
    have "snd e \<noteq> p" using that p by force
    then show ?thesis using other by (simp add: id_of_def seq_of_def)
  qed
  have new: "seq_of (new_Timer p cb when iv q) p = numCreated q" by (simp add: new_Timer_def seq_of_def)
  have old: "seq_of (new_Timer p cb when iv q) r = seq_of q r \<and> seq_of q r < numCreated q"
    if "r \<in> dom (theap q)" for r
    using that q(8) assms(2) other [of r] by (cases "r = p") (auto simp: seq_of_def)
  have "inj_on (seq_of (new_Timer p cb when iv q)) (insert p (dom (theap q)))"
  proof -
    have "inj_on (seq_of (new_Timer p cb when iv q)) (dom (theap q))"
      using q(9) old by (subst inj_on_cong [of _ _ "seq_of q"]) blast+
    moreover have "numCreated q \<noteq> seq_of (new_Timer p cb when iv q) r" if "r \<in> dom (theap q)" for r
      using old [OF that] by simp
    ultimately show ?thesis using new by (auto simp: inj_on_insert simp del: domIff)
  qed
  moreover have "\<forall>e \<in> set (timers q). expiration (the (theap (new_Timer p cb when iv q) (snd e))) = fst e"
    using q(6) p other by fastforce
  moreover have "id_of (new_Timer p cb when iv q) ` set (timers q) = id_of q ` set (timers q)"
    using same by (intro image_cong) auto
  ultimately show ?thesis
    using q p assms(2,3) unfolding queue_inv_def
    by (auto simp: new_Timer_def) (meson less_imp_le)
qed

text \<open>Taking entries out of both sets leaves their timers with the caller; deleting one of those ends it.\<close>

lemma detach_inv:
  assumes "queue_inv q own" and "distinct as" and "set as = id_of q ` set (filter P (timers q))"
  shows "queue_inv (q\<lparr>timers := filter P (timers q), activeTimers := as\<rparr>)
           (own \<union> snd ` {e \<in> set (timers q). \<not> P e})"
proof -
  note q = queue_invD [OF assms(1)]
  let ?q = "q\<lparr>timers := filter P (timers q), activeTimers := as\<rparr>"
  have "snd ` set (filter P (timers q)) \<inter> snd ` {e \<in> set (timers q). \<not> P e} = {}"
    using q(3) by (auto simp: distinct_map inj_on_def)
  moreover have "id_of ?q = id_of q" "seq_of ?q = seq_of q" by (auto simp: id_of_def seq_of_def fun_eq_iff)
  moreover have "snd ` set (timers q) = snd ` set (filter P (timers q)) \<union> snd ` {e \<in> set (timers q). \<not> P e}" by auto
  moreover have "sorted_wrt (<) (filter P (timers q))" "distinct (map snd (filter P (timers q)))"
    using q(1,3) by (auto simp: sorted_wrt_filter distinct_map_filter)
  ultimately show ?thesis
    using q(4-6,8,9) assms(2,3) unfolding queue_inv_def by (auto simp del: id_of_def)
qed

lemma delete_inv:
  assumes "queue_inv q (insert p own)" and "p \<notin> own"
  shows "queue_inv (delete_Timer p q) own"
proof -
  note q = queue_invD [OF assms(1)]
  have p: "p \<notin> snd ` set (timers q)" using q(4) by auto
  then have ne: "snd e \<noteq> p" if "e \<in> set (timers q)" for e using that by force
  have "id_of (delete_Timer p q) ` set (timers q) = id_of q ` set (timers q)"
    using ne by (intro image_cong) (auto simp: id_of_def seq_of_def delete_Timer_def)
  moreover have "inj_on (seq_of (delete_Timer p q)) (dom (theap q) - {p})"
    using q(9) by (auto simp: inj_on_def seq_of_def delete_Timer_def)
  moreover have "\<forall>e \<in> set (timers q). expiration (the (theap (delete_Timer p q) (snd e))) = fst e"
    using q(6) ne by (simp add: delete_Timer_def)
  moreover have "dom (theap (delete_Timer p q)) = dom (theap q) - {p}" by (auto simp: delete_Timer_def)
  ultimately show ?thesis
    using q p assms(2) unfolding queue_inv_def by (auto simp: delete_Timer_def split: if_splits)
qed

lemma update_own_inv:
  assumes "queue_inv q (insert p own)" and "theap q p = Some t" and "sequence t' = sequence t"
  shows "queue_inv (q\<lparr>theap := (theap q)(p \<mapsto> t')\<rparr>) (insert p own)"
proof -
  note q = queue_invD [OF assms(1)]
  let ?q = "q\<lparr>theap := (theap q)(p \<mapsto> t')\<rparr>"
  have p: "p \<notin> snd ` set (timers q)" using q(4) by auto
  then have ne: "snd e \<noteq> p" if "e \<in> set (timers q)" for e using that by force
  have seq: "seq_of ?q = seq_of q" using assms(2,3) by (auto simp: seq_of_def fun_eq_iff)
  then have "id_of ?q = id_of q" by (simp add: id_of_def fun_eq_iff)
  moreover have "dom (theap ?q) = dom (theap q)" using assms(2) by auto
  moreover have "\<forall>e \<in> set (timers q). expiration (the (theap ?q (snd e))) = fst e"
    using q(6) ne by simp
  moreover have "\<forall>r u. theap ?q r = Some u \<longrightarrow> r < UINTPTR_MAX \<and> sequence u < numCreated q"
    using q(8) assms(2,3) by auto
  ultimately show ?thesis
    using q seq unfolding queue_inv_def by auto
qed

lemma insert_timer_returns:
  assumes inv: "queue_inv q (insert p own)" and "p \<notin> own"
  shows "returns (insert_timer p q) (\<lambda>(c, q'). queue_inv q' own \<and>
    q' = q\<lparr>timers := timers q', activeTimers := activeTimers q'\<rparr> \<and>
    timers q' = insort (expiration (the (theap q p)), p) (timers q) \<and>
    c = (timers q = [] \<or> expiration (the (theap q p)) < fst (hd (timers q))))"
proof -
  note q = queue_invD [OF inv]
  from q(5) obtain t where t: "theap q p = Some t" by auto
  let ?e = "(expiration t, p)" and ?i = "(p, sequence t)"
  let ?q = "q\<lparr>timers := insort ?e (timers q), activeTimers := insort ?i (activeTimers q)\<rparr>"
  have p: "p \<notin> snd ` set (timers q)" using q(4) by auto
  then have new: "?e \<notin> set (timers q)" "?i \<notin> set (activeTimers q)"
    using q(7) by (force simp: id_of_def)+
  have "id_of ?q = id_of q" "seq_of ?q = seq_of q" by (auto simp: id_of_def seq_of_def fun_eq_iff)
  moreover have "id_of q ?e = ?i" using t by (simp add: id_of_def seq_of_def)
  moreover have "distinct (map snd (insort ?e (timers q)))"
    using q(3) p new(1) by (auto simp: distinct_map distinct_insort set_insort_key inj_on_def)
  moreover have "sorted_wrt (<) (insort ?e (timers q))" "distinct (insort ?i (activeTimers q))"
    using q(1,2) new by (simp_all add: set_insert_sorted distinct_insort)
  ultimately have "queue_inv ?q own"
    using q(4-9) p t assms(2) unfolding queue_inv_def by (auto simp: set_insort_key)
  with queue_same_size [OF inv] new t show ?thesis
    by (simp add: insert_timer_def set_insert_def deref_def Let_def)
qed

lemma addTimerInLoop_returns:
  assumes inv: "queue_inv q (insert p own)" and "p \<notin> own"
  shows "returns (addTimerInLoop True cur p q) (\<lambda>q'. queue_inv q' own \<and>
    timers q' = insort (expiration (the (theap q p)), p) (timers q) \<and>
    theap q' = theap q \<and> numCreated q' = numCreated q \<and>
    callingExpiredTimers q' = callingExpiredTimers q \<and> cancelingTimers q' = cancelingTimers q \<and>
    timerfd q' = (if timers q = [] \<or> expiration (the (theap q p)) < fst (hd (timers q))
                  then Some (expiration (the (theap q p)), howMuchTimeFromNow cur (expiration (the (theap q p))))
                  else timerfd q))"
proof -
  from queue_invD(5) [OF inv] obtain t where t: "theap q p = Some t" by auto
  have fd: "queue_inv (resetTimerfd cur d q') own = queue_inv q' own" for d q'
    by (simp add: queue_inv_def resetTimerfd_def id_of_def [abs_def] seq_of_def [abs_def])
  from insert_timer_returns [OF assms] obtain c q' where r: "insert_timer p q = Inr (c, q')" "queue_inv q' own"
    "timers q' = insort (expiration t, p) (timers q)"
    "c = (timers q = [] \<or> expiration t < fst (hd (timers q)))"
    and q': "q' = q\<lparr>timers := timers q', activeTimers := activeTimers q'\<rparr>"
    by (auto simp: t elim!: returnsE)
  have same: "theap q' = theap q" "numCreated q' = numCreated q" "callingExpiredTimers q' = callingExpiredTimers q"
    "cancelingTimers q' = cancelingTimers q" "timerfd q' = timerfd q"
    by (subst q', simp)+
  show ?thesis
    using r(2-4) same t by (auto simp: addTimerInLoop_def assertInLoopThread_def r(1) deref_def fd)
      (auto simp: resetTimerfd_def)
qed

lemma remove1_filter: "distinct xs \<Longrightarrow> remove1 x xs = filter (\<lambda>y. y \<noteq> x) xs"
  by (simp add: distinct_remove1_removeAll removeAll_filter_not_eq) (metis (mono_tags) filter_cong)

lemma cancelInLoop_active:
  assumes inv: "queue_inv q own" and act: "i \<in> set (activeTimers q)"
  shows "returns (cancelInLoop True i q) (\<lambda>q'. queue_inv q' own \<and>
    q' = q\<lparr>theap := (theap q)(fst i := None), timers := timers q', activeTimers := activeTimers q'\<rparr> \<and>
    timers q' = filter (\<lambda>e. snd e \<noteq> fst i) (timers q))"
proof -
  note q = queue_invD [OF inv]
  from act q(7) obtain e where e: "e \<in> set (timers q)" "i = id_of q e" by auto
  from e q(5) obtain t where t: "theap q (fst i) = Some t" by (auto simp: id_of_def)
  have ei: "fst i = snd e" and ee: "(expiration t, snd e) = e"
    using e q(6) [OF e(1)] t by (simp_all add: id_of_def prod_eq_iff)
  have P: "filter (\<lambda>y. y \<noteq> e) (timers q) = filter (\<lambda>y. snd y \<noteq> fst i) (timers q)"
    using e q(3) ei by (intro filter_cong) (auto simp: distinct_map inj_on_def)
  have as: "set (remove1 i (activeTimers q)) = id_of q ` set (filter (\<lambda>y. snd y \<noteq> fst i) (timers q))"
    using q(2,7) e(2) by (auto simp: id_of_def)
  have rest: "{y \<in> set (timers q). \<not> snd y \<noteq> fst i} = {e}"
    using e q(3) ei by (auto simp: distinct_map inj_on_def)
  have own: "snd e \<notin> own" using q(4) e(1) by auto
  let ?q = "q\<lparr>timers := filter (\<lambda>y. snd y \<noteq> fst i) (timers q), activeTimers := remove1 i (activeTimers q)\<rparr>"
  have "queue_inv ?q (own \<union> snd ` {e})"
    using detach_inv [OF inv _ as] q(2) rest ei by simp
  then have final: "queue_inv (delete_Timer (fst i) ?q) own"
    using delete_inv [of ?q "snd e" own] own ei by simp
  have eq: "delete_Timer (fst i) ?q = q\<lparr>theap := (theap q)(fst i := None),
      timers := filter (\<lambda>y. snd y \<noteq> fst i) (timers q), activeTimers := remove1 i (activeTimers q)\<rparr>"
    by (rule timer_queue.equality) (simp_all add: delete_Timer_def)
  show ?thesis
    using queue_same_size [OF inv] queue_same_size [OF final [unfolded eq]] final [unfolded eq] act t e(1) ee ei P
      remove1_filter [OF strict_sorted_distinct [OF q(1)], of e]
    by (simp add: cancelInLoop_def assertInLoopThread_def set_erase_def deref_def delete_Timer_def)
qed

lemma cancelInLoop_inactive:
  assumes inv: "queue_inv q own" and "i \<notin> set (activeTimers q)"
  shows "cancelInLoop True i q = Inr (if callingExpiredTimers q
    then q\<lparr>cancelingTimers := snd (set_insert i (cancelingTimers q))\<rparr> else q)"
  using queue_same_size [OF inv] assms(2) by (simp add: cancelInLoop_def assertInLoopThread_def)

lemma queue_inv_fields [simp]:
  "queue_inv (q\<lparr>cancelingTimers := c\<rparr>) own = queue_inv q own"
  "queue_inv (q\<lparr>callingExpiredTimers := b\<rparr>) own = queue_inv q own"
  "queue_inv (q\<lparr>timerfd := f\<rparr>) own = queue_inv q own"
  by (simp_all add: queue_inv_def id_of_def [abs_def] seq_of_def [abs_def])

lemma erase_active_returns:
  assumes "distinct (activeTimers q)" and "distinct (map snd es)"
    and "\<And>e. e \<in> set es \<Longrightarrow> snd e \<in> dom (theap q) \<and> id_of q e \<in> set (activeTimers q)"
  shows "\<exists>as. erase_active es q = Inr (q\<lparr>activeTimers := as\<rparr>) \<and> distinct as \<and>
    set as = set (activeTimers q) - id_of q ` set es"
  using assms
proof (induction es arbitrary: q)
  case Nil
  then show ?case by (intro exI [of _ "activeTimers q"]) simp
next
  case (Cons e es)
  from Cons.prems(3) [of e] obtain t where t: "theap q (snd e) = Some t" by auto
  have i: "id_of q e = (snd e, sequence t)" using t by (simp add: id_of_def seq_of_def)
  let ?q = "q\<lparr>activeTimers := remove1 (id_of q e) (activeTimers q)\<rparr>"
  have ids: "id_of ?q = id_of q" by (simp add: id_of_def seq_of_def fun_eq_iff)
  have "id_of q y \<noteq> id_of q e" if "y \<in> set es" for y
    using that Cons.prems(2) by (auto simp: id_of_def) (metis imageI)
  then have "y \<in> set es \<Longrightarrow> snd y \<in> dom (theap ?q) \<and> id_of ?q y \<in> set (activeTimers ?q)" for y
    using Cons.prems(1,3) unfolding ids by fastforce
  with Cons.IH [of ?q] Cons.prems(1,2) obtain as where
    "erase_active es ?q = Inr (?q\<lparr>activeTimers := as\<rparr>)" "distinct as"
    "set as = set (activeTimers ?q) - id_of q ` set es"
    unfolding ids by auto
  then show ?case
    using Cons.prems(1) Cons.prems(3) [of e] t i by (auto simp: deref_def set_erase_def)
qed

text \<open>Below the sentry are exactly the entries that are due.\<close>

lemma below_sentry: "snd (e :: entry) < UINTPTR_MAX \<Longrightarrow> (e < (now, UINTPTR_MAX)) = (fst e \<le> now)"
  by (cases e) (auto simp: less_prod_def' less_imp_le)

lemma sorted_split_due:
  assumes "sorted_wrt (<) (es :: entry list)" and "\<And>e. e \<in> set es \<Longrightarrow> snd e < UINTPTR_MAX"
  shows "takeWhile (\<lambda>e. e < (now, UINTPTR_MAX)) es = filter (\<lambda>e. fst e \<le> now) es \<and>
    dropWhile (\<lambda>e. e < (now, UINTPTR_MAX)) es = filter (\<lambda>e. \<not> fst e \<le> now) es"
  using assms
proof (induction es)
  case Nil
  then show ?case by simp
next
  case (Cons e es)
  show ?case
  proof (cases "fst e \<le> now")
    case True
    with Cons below_sentry [of e now] show ?thesis by simp
  next
    case False
    have "\<not> fst y \<le> now" if "y \<in> set es" for y
      using that Cons.prems(1) False by (auto simp: less_prod_def' le_less)
    then have "filter (\<lambda>e. fst e \<le> now) es = []" "filter (\<lambda>e. \<not> fst e \<le> now) es = es"
      by (simp_all add: filter_empty_conv filter_id_conv)
    with False Cons.prems(2) [of e] below_sentry [of e now] show ?thesis by simp
  qed
qed

lemma getExpired_returns:
  assumes inv: "queue_inv q own"
  shows "returns (getExpired now q) (\<lambda>(ex, q'). ex = filter (\<lambda>e. fst e \<le> now) (timers q) \<and>
    queue_inv q' (own \<union> snd ` set ex) \<and> q' = q\<lparr>timers := timers q', activeTimers := activeTimers q'\<rparr> \<and>
    timers q' = filter (\<lambda>e. \<not> fst e \<le> now) (timers q))"
proof -
  note q = queue_invD [OF inv]
  let ?P = "\<lambda>e. \<not> fst e \<le> now"
  let ?ex = "filter (\<lambda>e. fst e \<le> now) (timers q)" and ?rest = "filter ?P (timers q)"
  let ?q = "q\<lparr>timers := ?rest\<rparr>"
  have live: "snd e \<in> dom (theap q)" if "e \<in> set (timers q)" for e using that q(5) by blast
  then have ptr: "snd e < UINTPTR_MAX" if "e \<in> set (timers q)" for e using that q(8) by blast
  have tw: "takeWhile (\<lambda>e. e < (now, UINTPTR_MAX)) (timers q) = ?ex"
    and dw: "dropWhile (\<lambda>e. e < (now, UINTPTR_MAX)) (timers q) = ?rest"
    using sorted_split_due [OF q(1), of now] ptr by auto
  have ids: "id_of ?q = id_of q" by (simp add: id_of_def seq_of_def fun_eq_iff)
  have "\<exists>as. erase_active ?ex ?q = Inr (?q\<lparr>activeTimers := as\<rparr>) \<and> distinct as \<and>
    set as = set (activeTimers ?q) - id_of ?q ` set ?ex"
    using q(2,3,7) live by (intro erase_active_returns) (auto simp: distinct_map_filter ids)
  then obtain as where as: "erase_active ?ex ?q = Inr (?q\<lparr>activeTimers := as\<rparr>)" "distinct as"
    "set as = id_of q ` set (timers q) - id_of q ` set ?ex" using q(7) ids by auto
  have "set as = id_of q ` set ?rest"
  proof -
    have "set ?rest = set (timers q) - set ?ex" by auto
    then show ?thesis using as(3) inj_on_image_set_diff [OF id_of_inj [OF q(3)], of "set (timers q)" "set ?ex"] by auto
  qed
  from detach_inv [OF inv as(2) this] have final: "queue_inv (?q\<lparr>activeTimers := as\<rparr>) (own \<union> snd ` set ?ex)"
    by simp
  have "?rest = [] \<or> now < fst (hd ?rest)"
    using hd_in_set [of ?rest] by (cases "?rest = []") auto
  with final queue_same_size [OF inv] queue_same_size [OF final] as(1) show ?thesis
    unfolding getExpired_def Let_def tw dw by simp
qed

definition live_ids :: "timer_queue \<Rightarrow> timer_id set" where
  "live_ids q = (\<lambda>p. (p, seq_of q p)) ` dom (theap q)"

definition times_ok :: "timer_queue \<Rightarrow> bool" where
  "times_ok q \<longleftrightarrow> (\<forall>p t. theap q p = Some t \<longrightarrow> isValid (expiration t) \<and> (repeat t \<longrightarrow> 0 < interval t))"

lemma live_ids_iff: "(p, n) \<in> live_ids q \<longleftrightarrow> (\<exists>t. theap q p = Some t \<and> sequence t = n)"
  by (auto simp: live_ids_def seq_of_def)

lemma live_ids_delete: "live_ids (delete_Timer p q) = {i \<in> live_ids q. fst i \<noteq> p}"
  by (auto simp: live_ids_iff delete_Timer_def split: if_splits)

lemma times_ok_delete: "times_ok q \<Longrightarrow> times_ok (delete_Timer p q)"
  by (simp add: times_ok_def delete_Timer_def)

lemma restart_valid:
  assumes "isValid now" and "repeat t" and "0 < interval t"
  shows "isValid (expiration (restart now t))"
  using assms double_to_int64_nonneg [of "interval t"]
  by (auto simp: isValid_def restart_def duration_defs intro: add_pos_nonneg)

lemma restart_simps [simp]:
  "sequence (restart now t) = sequence t" "repeat (restart now t) = repeat t" "interval (restart now t) = interval t"
  by (simp_all add: restart_def)

text \<open>The timers that end when a round is over: those that do not repeat or were cancelled in it.\<close>

definition ends :: "timer_queue \<Rightarrow> entry \<Rightarrow> bool" where
  "ends q e \<longleftrightarrow> \<not> repeat (the (theap q (snd e))) \<or> id_of q e \<in> set (cancelingTimers q)"

lemma reset_entries_returns:
  assumes "queue_inv q (own \<union> snd ` set es)" and "distinct (map snd es)" and "own \<inter> snd ` set es = {}"
  shows "returns (reset_entries now es q) (\<lambda>q'. queue_inv q' own \<and> numCreated q' = numCreated q \<and>
    callingExpiredTimers q' = callingExpiredTimers q \<and> cancelingTimers q' = cancelingTimers q \<and>
    live_ids q' = live_ids q - id_of q ` {e \<in> set es. ends q e} \<and>
    (isValid now \<longrightarrow> times_ok q \<longrightarrow> times_ok q'))"
  using assms
proof (induction es arbitrary: q)
  case Nil
  then show ?case by simp
next
  case (Cons e es)
  let ?own = "own \<union> snd ` set es"
  have own: "snd e \<notin> ?own" and inv: "queue_inv q (insert (snd e) ?own)"
    using Cons.prems by auto
  from queue_invD(5) [OF inv] obtain t where t: "theap q (snd e) = Some t" by auto
  have rest: "distinct (map snd es)" "own \<inter> snd ` set es = {}" using Cons.prems(2,3) by auto
  have others: "ends q1 y = ends q y \<and> id_of q1 y = id_of q y"
    if "y \<in> set es" and "\<And>r. r \<noteq> snd e \<Longrightarrow> theap q1 r = theap q r" and "cancelingTimers q1 = cancelingTimers q" for q1 y
  proof -
    have "snd y \<noteq> snd e" using that(1) own by (metis UnI2 imageI)
    with that(2,3) show ?thesis by (simp add: ends_def id_of_def seq_of_def)
  qed
  have ended: "ends q e = (\<not> (repeat t \<and> (snd e, sequence t) \<notin> set (cancelingTimers q)))"
    using t by (simp add: ends_def id_of_def seq_of_def)
  show ?case
  proof (cases "ends q e")
    case True
    let ?q = "delete_Timer (snd e) q"
    have "queue_inv ?q ?own" by (rule delete_inv [OF inv own])
    note IH = Cons.IH [OF this rest]
    have sets: "id_of ?q ` {y \<in> set es. ends ?q y} = id_of q ` {y \<in> set es. ends q y}"
      using others [of _ ?q] by (intro image_cong) (auto simp: delete_Timer_def)
    have "id_of q ` {y \<in> set (e # es). ends q y} = insert (id_of q e) (id_of q ` {y \<in> set es. ends q y})"
      using True by auto
    moreover have "live_ids ?q = live_ids q - {id_of q e}"
      using t by (auto simp: live_ids_iff live_ids_delete id_of_def seq_of_def)
    ultimately have live: "live_ids q - id_of q ` {y \<in> set (e # es). ends q y} =
        live_ids ?q - id_of ?q ` {y \<in> set es. ends ?q y}"
      unfolding sets by auto
    have step: "reset_entries now (e # es) q = reset_entries now es ?q"
      using True ended t by (auto simp: deref_def)
    show ?thesis unfolding step live
      using times_ok_delete [of q "snd e"] by (rule_tac returns_mono [OF IH]) (auto simp: delete_Timer_def)
  next
    case False
    let ?q = "q\<lparr>theap := (theap q)(snd e \<mapsto> restart now t)\<rparr>"
    have "queue_inv ?q (insert (snd e) ?own)" by (rule update_own_inv [OF inv t]) simp
    from insert_timer_returns [OF this own] obtain c q1 where
      ins: "insert_timer (snd e) ?q = Inr (c, q1)" "queue_inv q1 ?own"
      and q1: "q1 = ?q\<lparr>timers := timers q1, activeTimers := activeTimers q1\<rparr>"
      by (auto elim!: returnsE)
    have f: "theap q1 = (theap q)(snd e \<mapsto> restart now t)" "numCreated q1 = numCreated q"
      "callingExpiredTimers q1 = callingExpiredTimers q" "cancelingTimers q1 = cancelingTimers q"
      by (subst q1, simp)+
    note IH = Cons.IH [OF ins(2) rest]
    have sets: "id_of q1 ` {y \<in> set es. ends q1 y} = id_of q ` {y \<in> set (e # es). ends q y}"
      using others [of _ q1] False f by (intro image_cong) auto
    have "live_ids q1 = live_ids q" using t f(1) by (auto simp: live_ids_iff split: if_splits)
    moreover have "isValid now \<Longrightarrow> times_ok q \<Longrightarrow> times_ok q1"
      using restart_valid [of now t] False ended t unfolding times_ok_def f(1) by auto
    moreover have "reset_entries now (e # es) q = reset_entries now es q1"
      using False ended t ins(1) by (simp add: deref_def)
    ultimately show ?thesis
      using IH f(2-4) sets by (auto elim!: returns_mono)
  qed
qed

section \<open>The queue in a running loop\<close>

text \<open>
  The loop thread is idle or inside \<open>handleRead\<close>, with the entries it has run and those it
  has still to run; callbacks (and, when idle, any other handler) add and cancel timers in
  between. Other threads allocate timers and queue functors, which the loop runs in order
  (\<open>Net_EventLoop\<close>) when it is idle. \<open>fired\<close> records the timers whose callback was run.
\<close>

datatype timer_functor = AddTimerInLoop nat | CancelInLoop timer_id

datatype timer_pc = TIdle | TFiring datetime "entry list" "entry list"

record timer_sys =
  tq :: timer_queue
  tpc :: timer_pc
  tpending :: "timer_functor list"
  fired :: "timer_id list"

datatype timer_cmd =
    TAdd datetime nat nat datetime rat
  | TCancel timer_id
  | TAddOther nat nat datetime rat
  | TCancelOther timer_id
  | TRun datetime
  | TAlarm datetime
  | TFire
  | TFinish datetime

fun texec :: "timer_cmd \<Rightarrow> timer_sys \<Rightarrow> timer_sys res" where
  "texec (TAdd cur p cb when iv) s = bindR (addTimer cur p cb when iv (tq s)) (\<lambda>(i, q). Inr (s\<lparr>tq := q\<rparr>))"
| "texec (TCancel i) s = bindR (cancelInLoop True i (tq s)) (\<lambda>q. Inr (s\<lparr>tq := q\<rparr>))"
| "texec (TAddOther p cb when iv) s =
     Inr (s\<lparr>tq := new_Timer p cb when iv (tq s), tpending := tpending s @ [AddTimerInLoop p]\<rparr>)"
| "texec (TCancelOther i) s = Inr (s\<lparr>tpending := tpending s @ [CancelInLoop i]\<rparr>)"
| "texec (TRun cur) s = (case tpending s of
       [] \<Rightarrow> Inr s
     | f # fs \<Rightarrow> bindR (case f of AddTimerInLoop p \<Rightarrow> addTimerInLoop True cur p (tq s)
                                | CancelInLoop i \<Rightarrow> cancelInLoop True i (tq s))
                   (\<lambda>q. Inr (s\<lparr>tq := q, tpending := fs\<rparr>)))"
| "texec (TAlarm now) s = bindR (begin_expired now (tq s)) (\<lambda>(ex, q). Inr (s\<lparr>tq := q, tpc := TFiring now [] ex\<rparr>))"
| "texec TFire s = (case tpc s of
       TFiring now dn (e # todo) \<Rightarrow> bindR (deref (snd e) (tq s)) (\<lambda>t.
         Inr (s\<lparr>tpc := TFiring now (dn @ [e]) todo, fired := fired s @ [(snd e, sequence t)]\<rparr>))
     | _ \<Rightarrow> Inr s)"
| "texec (TFinish cur) s = (case tpc s of
       TFiring now dn todo \<Rightarrow> bindR (timers_reset cur dn now ((tq s)\<lparr>callingExpiredTimers := False\<rparr>)) (\<lambda>q.
         Inr (s\<lparr>tq := q, tpc := TIdle\<rparr>))
     | TIdle \<Rightarrow> Inr s)"

text \<open>
  When a step can happen. The allocator returns an address that is not in use and, as an
  object has a size, below \<open>UINTPTR_MAX\<close>; times are after the epoch.
\<close>

fun tenabled :: "timer_cmd \<Rightarrow> timer_sys \<Rightarrow> bool" where
  "tenabled (TAdd cur p cb when iv) s = (theap (tq s) p = None \<and> p < UINTPTR_MAX \<and> isValid when)"
| "tenabled (TCancel i) s = True"
| "tenabled (TAddOther p cb when iv) s = (theap (tq s) p = None \<and> p < UINTPTR_MAX \<and> isValid when)"
| "tenabled (TCancelOther i) s = True"
| "tenabled (TRun cur) s = (tpc s = TIdle \<and> tpending s \<noteq> [])"
| "tenabled (TAlarm now) s = (tpc s = TIdle \<and> isValid now)"
| "tenabled TFire s = (case tpc s of TFiring now dn (e # todo) \<Rightarrow> True | _ \<Rightarrow> False)"
| "tenabled (TFinish cur) s = (case tpc s of TFiring now dn [] \<Rightarrow> True | _ \<Rightarrow> False)"

definition timer_step :: "timer_sys \<Rightarrow> timer_sys \<Rightarrow> bool" where
  "timer_step s t \<longleftrightarrow> (\<exists>c. tenabled c s \<and> texec c s = Inr t)"

definition timer_start :: "timer_sys \<Rightarrow> bool" where
  "timer_start s \<longleftrightarrow> s = \<lparr>tq = new_TimerQueue, tpc = TIdle, tpending = [], fired = []\<rparr>"

definition firing :: "timer_sys \<Rightarrow> entry list" where
  "firing s = (case tpc s of TIdle \<Rightarrow> [] | TFiring now dn todo \<Rightarrow> dn @ todo)"

fun adds :: "timer_functor list \<Rightarrow> nat list" where
  "adds [] = []"
| "adds (AddTimerInLoop p # fs) = p # adds fs"
| "adds (CancelInLoop i # fs) = adds fs"

definition outside :: "timer_sys \<Rightarrow> nat list" where
  "outside s = map snd (firing s) @ adds (tpending s)"

definition armed :: "timer_queue \<Rightarrow> bool" where
  "armed q \<longleftrightarrow> timers q = [] \<or> (\<exists>d x. timerfd q = Some (d, x) \<and> (\<forall>e \<in> set (timers q). d \<le> fst e))"

definition timer_inv :: "timer_sys \<Rightarrow> bool" where
  "timer_inv s \<longleftrightarrow> queue_inv (tq s) (set (outside s)) \<and> distinct (outside s) \<and> times_ok (tq s) \<and>
     (callingExpiredTimers (tq s) \<longleftrightarrow> tpc s \<noteq> TIdle) \<and>
     (case tpc s of TIdle \<Rightarrow> armed (tq s) | TFiring now dn todo \<Rightarrow> isValid now)"

lemma adds_append [simp]: "adds (fs @ gs) = adds fs @ adds gs"
  by (induction fs rule: adds.induct) auto

lemma armed_insert:
  assumes "sorted_wrt (<) (timers q)" and "armed q"
    and "timers q' = insort (w, p) (timers q)"
    and "timerfd q' = (if timers q = [] \<or> w < fst (hd (timers q)) then Some (w, x) else timerfd q)"
  shows "armed q'"
proof (cases "timers q = [] \<or> w < fst (hd (timers q))")
  case True
  then have "w \<le> fst e" if "e \<in> set (timers q)" for e
    using that assms(1) by (cases "timers q") (auto simp: less_prod_def')
  with True assms(3,4) show ?thesis by (auto simp: armed_def set_insort_key)
next
  case False
  with assms(2) obtain d y where d: "timerfd q = Some (d, y)" "\<forall>e \<in> set (timers q). d \<le> fst e"
    by (auto simp: armed_def)
  have "fst (hd (timers q)) \<le> w" "hd (timers q) \<in> set (timers q)" using False by auto
  with d have "d \<le> w" by (meson order_trans)
  with d False assms(3,4) show ?thesis by (auto simp: armed_def set_insort_key)
qed

lemma addTimer_returns:
  assumes inv: "queue_inv q own" and new: "theap q p = None" and "p < UINTPTR_MAX"
  shows "returns (addTimer cur p cb when iv q) (\<lambda>(i, q'). queue_inv q' own \<and> i = (p, numCreated q) \<and>
    theap q' = theap (new_Timer p cb when iv q) \<and> numCreated q' = numCreated q + 1 \<and>
    callingExpiredTimers q' = callingExpiredTimers q \<and> cancelingTimers q' = cancelingTimers q \<and>
    timers q' = insort (when, p) (timers q) \<and>
    timerfd q' = (if timers q = [] \<or> when < fst (hd (timers q))
                  then Some (when, howMuchTimeFromNow cur when) else timerfd q))"
proof -
  let ?q = "new_Timer p cb when iv q"
  have p: "p \<notin> own" using queue_invD(5) [OF inv] new by blast
  note r = addTimerInLoop_returns [OF new_Timer_inv [OF assms] p]
  show ?thesis unfolding addTimer_def Let_def returns_bindR
    by (rule returns_mono [OF r]) (simp add: deref_def new_Timer_def)
qed

lemma cancelInLoop_returns:
  assumes inv: "queue_inv q own"
  shows "returns (cancelInLoop True i q) (\<lambda>q'. queue_inv q' own \<and> set (timers q') \<subseteq> set (timers q) \<and>
    timerfd q' = timerfd q \<and> callingExpiredTimers q' = callingExpiredTimers q \<and> numCreated q' = numCreated q \<and>
    live_ids q' \<subseteq> live_ids q \<and> (times_ok q \<longrightarrow> times_ok q') \<and>
    (i \<in> set (activeTimers q) \<longrightarrow> i \<notin> live_ids q'))"
proof (cases "i \<in> set (activeTimers q)")
  case True
  from cancelInLoop_active [OF inv True] obtain q' where
    c: "cancelInLoop True i q = Inr q'" "queue_inv q' own" "timers q' = filter (\<lambda>e. snd e \<noteq> fst i) (timers q)"
    and q': "q' = q\<lparr>theap := (theap q)(fst i := None), timers := timers q', activeTimers := activeTimers q'\<rparr>"
    by (auto elim!: returnsE)
  have f: "theap q' = (theap q)(fst i := None)" "timerfd q' = timerfd q"
    "callingExpiredTimers q' = callingExpiredTimers q" "numCreated q' = numCreated q"
    by (subst q', simp)+
  have live: "live_ids q' \<subseteq> live_ids q - {i}"
    using f(1) by (cases i) (auto simp: live_ids_iff split: if_splits)
  have "times_ok q \<longrightarrow> times_ok q'" using f(1) by (simp add: times_ok_def)
  moreover have "live_ids q' \<subseteq> live_ids q" "i \<notin> live_ids q'" using live by auto
  moreover have "set (timers q') \<subseteq> set (timers q)" using c(3) by auto
  ultimately show ?thesis using c(2) f(2-4) by (simp add: c(1))
next
  case False
  then show ?thesis
    using inv by (simp add: cancelInLoop_inactive [OF inv False] times_ok_def live_ids_def seq_of_def [abs_def])
qed

lemma armed_subset:
  "armed q \<Longrightarrow> set (timers q') \<subseteq> set (timers q) \<Longrightarrow> timerfd q' = timerfd q \<Longrightarrow> armed q'"
  by (auto simp: armed_def)

lemma begin_expired_returns:
  assumes "queue_inv q own"
  shows "returns (begin_expired now q) (\<lambda>(ex, q'). ex = filter (\<lambda>e. fst e \<le> now) (timers q) \<and>
    queue_inv q' (own \<union> snd ` set ex) \<and> theap q' = theap q \<and> numCreated q' = numCreated q \<and>
    callingExpiredTimers q' \<and> cancelingTimers q' = [] \<and>
    timers q' = filter (\<lambda>e. \<not> fst e \<le> now) (timers q))"
proof -
  have "queue_inv (readTimerfd q) own" using assms by (simp add: readTimerfd_def)
  from getExpired_returns [OF this, of now] obtain ex q' where
    g: "getExpired now (readTimerfd q) = Inr (ex, q')" "ex = filter (\<lambda>e. fst e \<le> now) (timers q)"
      "queue_inv q' (own \<union> snd ` set ex)" "timers q' = filter (\<lambda>e. \<not> fst e \<le> now) (timers q)"
    and q': "q' = (readTimerfd q)\<lparr>timers := timers q', activeTimers := activeTimers q'\<rparr>"
    by (auto simp: readTimerfd_def elim!: returnsE)
  have "theap q' = theap q" "numCreated q' = numCreated q" by (subst q', simp add: readTimerfd_def)+
  with g show ?thesis by (simp add: begin_expired_def)
qed

lemma timers_reset_returns:
  assumes "queue_inv q (own \<union> snd ` set es)" and "distinct (map snd es)" and "own \<inter> snd ` set es = {}"
    and "isValid now" and "times_ok q"
  shows "returns (timers_reset cur es now q) (\<lambda>q'. queue_inv q' own \<and> numCreated q' = numCreated q \<and>
    callingExpiredTimers q' = callingExpiredTimers q \<and> times_ok q' \<and> armed q' \<and>
    live_ids q' = live_ids q - id_of q ` {e \<in> set es. ends q e})"
proof -
  from reset_entries_returns [OF assms(1-3), of now] assms(4,5) obtain q1 where
    r: "reset_entries now es q = Inr q1" "queue_inv q1 own" "numCreated q1 = numCreated q"
      "callingExpiredTimers q1 = callingExpiredTimers q" "times_ok q1"
      "live_ids q1 = live_ids q - id_of q ` {e \<in> set es. ends q e}"
    by (auto elim!: returnsE)
  show ?thesis
  proof (cases "timers q1 = []")
    case True
    with r show ?thesis by (simp add: timers_reset_def isValid_def armed_def)
  next
    case False
    let ?e = "hd (timers q1)"
    have e: "?e \<in> set (timers q1)" using False by simp
    note q1 = queue_invD [OF r(2)]
    from e q1(5) obtain t where t: "theap q1 (snd ?e) = Some t" by blast
    have x1: "expiration t = fst ?e" using q1(6) [OF e] t by simp
    have x2: "isValid (fst ?e)" using r(5) t unfolding times_ok_def x1 [symmetric] by blast
    note x = x1 x2
    have "fst ?e \<le> fst y" if "y \<in> set (timers q1)" for y
      using that q1(1) False by (cases "timers q1") (auto simp: less_prod_def')
    then have "armed (resetTimerfd cur (fst ?e) q1)" by (simp add: armed_def resetTimerfd_def)
    moreover have "times_ok (resetTimerfd cur d q1)" "live_ids (resetTimerfd cur d q1) = live_ids q1" for d
      using r(5) by (simp_all add: times_ok_def live_ids_def seq_of_def [abs_def] resetTimerfd_def)
    ultimately show ?thesis
      using r(2,3,4,6) False t x by (auto simp: timers_reset_def r(1) deref_def) (simp_all add: resetTimerfd_def)
  qed
qed

lemma times_ok_new: "times_ok q \<Longrightarrow> isValid when \<Longrightarrow> times_ok (new_Timer p cb when iv q)"
  by (simp add: times_ok_def new_Timer_def)

lemma texec_add:
  assumes "timer_inv s" and "tenabled (TAdd cur p cb when iv) s"
  shows "returns (texec (TAdd cur p cb when iv) s) timer_inv"
proof -
  from assms have q: "queue_inv (tq s) (set (outside s))" "times_ok (tq s)" and sorted: "sorted_wrt (<) (timers (tq s))"
    by (auto simp: timer_inv_def queue_inv_def)
  from addTimer_returns [OF q(1), of p cur cb "when" iv] assms(2) obtain i q' where
    r: "addTimer cur p cb when iv (tq s) = Inr (i, q')" "queue_inv q' (set (outside s))"
      "theap q' = theap (new_Timer p cb when iv (tq s))" "callingExpiredTimers q' = callingExpiredTimers (tq s)"
      "timers q' = insort (when, p) (timers (tq s))"
      "timerfd q' = (if timers (tq s) = [] \<or> when < fst (hd (timers (tq s)))
                  then Some (when, howMuchTimeFromNow cur when) else timerfd (tq s))"
    by (auto elim!: returnsE)
  have "times_ok q'" using times_ok_new [OF q(2), of "when" p cb iv] assms(2) r(3) by (simp add: times_ok_def)
  moreover have "armed (tq s) \<Longrightarrow> armed q'" by (rule armed_insert [OF sorted _ r(5,6)])
  moreover have "outside (s\<lparr>tq := q'\<rparr>) = outside s" by (simp add: outside_def firing_def)
  ultimately show ?thesis
    using assms(1) r(1,2,4) by (auto simp: timer_inv_def split: timer_pc.splits)
qed

lemma texec_cancel:
  assumes "timer_inv s"
  shows "returns (cancelInLoop True i (tq s)) (\<lambda>q'. timer_inv (s\<lparr>tq := q'\<rparr>))"
proof -
  from assms have q: "queue_inv (tq s) (set (outside s))" by (simp add: timer_inv_def)
  show ?thesis
  proof (rule returns_mono [OF cancelInLoop_returns [OF q, of i]])
    fix q' assume r: "queue_inv q' (set (outside s)) \<and> set (timers q') \<subseteq> set (timers (tq s)) \<and>
      timerfd q' = timerfd (tq s) \<and> callingExpiredTimers q' = callingExpiredTimers (tq s) \<and>
      numCreated q' = numCreated (tq s) \<and> live_ids q' \<subseteq> live_ids (tq s) \<and> (times_ok (tq s) \<longrightarrow> times_ok q') \<and>
      (i \<in> set (activeTimers (tq s)) \<longrightarrow> i \<notin> live_ids q')"
    have "outside (s\<lparr>tq := q'\<rparr>) = outside s" by (simp add: outside_def firing_def)
    moreover have "armed (tq s) \<Longrightarrow> armed q'" using r armed_subset by blast
    ultimately show "timer_inv (s\<lparr>tq := q'\<rparr>)"
      using assms r by (auto simp: timer_inv_def split: timer_pc.splits)
  qed
qed

lemma texec_add_other:
  assumes "timer_inv s" and "tenabled (TAddOther p cb when iv) s"
  shows "returns (texec (TAddOther p cb when iv) s) timer_inv"
proof -
  let ?q = "new_Timer p cb when iv (tq s)"
  let ?s = "s\<lparr>tq := ?q, tpending := tpending s @ [AddTimerInLoop p]\<rparr>"
  from assms have q: "queue_inv (tq s) (set (outside s))" "times_ok (tq s)" by (auto simp: timer_inv_def)
  have p: "p \<notin> set (outside s)" using queue_invD(5) [OF q(1)] assms(2) by auto
  have o: "outside ?s = outside s @ [p]" by (simp add: outside_def firing_def)
  have "queue_inv ?q (set (outside ?s))" using new_Timer_inv [OF q(1)] assms(2) o by simp
  moreover have "times_ok ?q" using times_ok_new [OF q(2)] assms(2) by simp
  moreover have "armed (tq s) \<Longrightarrow> armed ?q" by (simp add: armed_def new_Timer_def)
  moreover have "callingExpiredTimers ?q = callingExpiredTimers (tq s)" by (simp add: new_Timer_def)
  ultimately show ?thesis
    using assms(1) o p by (auto simp: timer_inv_def split: timer_pc.splits)
qed

lemma texec_run:
  assumes "timer_inv s" and "tenabled (TRun cur) s"
  shows "returns (texec (TRun cur) s) timer_inv"
proof -
  from assms(2) obtain f fs where fs: "tpending s = f # fs" and idle: "tpc s = TIdle"
    by (cases "tpending s") auto
  show ?thesis
  proof (cases f)
    case (CancelInLoop i)
    have "timer_inv (s\<lparr>tq := q\<rparr>) \<Longrightarrow> timer_inv (s\<lparr>tq := q, tpending := fs\<rparr>)" for q
      using fs CancelInLoop idle by (simp add: timer_inv_def outside_def firing_def)
    then show ?thesis
      using returns_mono [OF texec_cancel [OF assms(1), of i]] fs CancelInLoop by auto
  next
    case (AddTimerInLoop p)
    have o: "outside s = p # adds fs" using fs AddTimerInLoop idle by (simp add: outside_def firing_def)
    from assms(1) have q: "queue_inv (tq s) (insert p (set (adds fs)))" "p \<notin> set (adds fs)" "times_ok (tq s)"
      and arm: "armed (tq s)" and dist: "distinct (adds fs)" and idle': "\<not> callingExpiredTimers (tq s)"
      using idle by (auto simp: timer_inv_def o)
    have sorted: "sorted_wrt (<) (timers (tq s))" using q(1) by (simp add: queue_inv_def)
    have "returns (addTimerInLoop True cur p (tq s)) (\<lambda>q'. timer_inv (s\<lparr>tq := q', tpending := fs\<rparr>))"
    proof (rule returns_mono [OF addTimerInLoop_returns [OF q(1,2), of cur]], elim conjE)
      fix q' let ?w = "expiration (the (theap (tq s) p))"
      assume r: "queue_inv q' (set (adds fs))" "timers q' = insort (?w, p) (timers (tq s))"
        "theap q' = theap (tq s)" "callingExpiredTimers q' = callingExpiredTimers (tq s)"
        "timerfd q' = (if timers (tq s) = [] \<or> ?w < fst (hd (timers (tq s)))
           then Some (?w, howMuchTimeFromNow cur ?w) else timerfd (tq s))"
      have "armed q'" by (rule armed_insert [OF sorted arm r(2,5)])
      moreover have "times_ok q'" using q(3) r(3) by (simp add: times_ok_def)
      ultimately show "timer_inv (s\<lparr>tq := q', tpending := fs\<rparr>)"
        using r(1,4) dist idle idle' by (simp add: timer_inv_def outside_def firing_def)
    qed
    then show ?thesis using fs AddTimerInLoop by simp
  qed
qed

lemma texec_alarm:
  assumes "timer_inv s" and "tenabled (TAlarm now) s"
  shows "returns (texec (TAlarm now) s) timer_inv"
proof -
  from assms have q: "queue_inv (tq s) (set (adds (tpending s)))" "times_ok (tq s)" "distinct (adds (tpending s))"
    by (auto simp: timer_inv_def outside_def firing_def)
  note q0 = queue_invD [OF q(1)]
  from begin_expired_returns [OF q(1), of now] obtain ex q' where
    r: "begin_expired now (tq s) = Inr (ex, q')" "ex = filter (\<lambda>e. fst e \<le> now) (timers (tq s))"
      "queue_inv q' (set (adds (tpending s)) \<union> snd ` set ex)" "theap q' = theap (tq s)" "callingExpiredTimers q'"
    by (auto elim!: returnsE)
  have "distinct (map snd ex)" "snd ` set ex \<inter> set (adds (tpending s)) = {}"
    using q0(3,4) r(2) by (auto simp: distinct_map_filter)
  moreover have "times_ok q'" using q(2) r(4) by (simp add: times_ok_def)
  ultimately show ?thesis
    using assms(2) r(1,3,5) q(3)
    by (auto simp: timer_inv_def outside_def firing_def Un_commute)
qed

lemma texec_fire:
  assumes "timer_inv s" and "tenabled TFire s"
  shows "returns (texec TFire s) (\<lambda>s'. timer_inv s' \<and> tq s' = tq s)"
proof -
  from assms(2) obtain now dn e todo where pc: "tpc s = TFiring now dn (e # todo)"
    by (auto split: timer_pc.splits list.splits)
  have "queue_inv (tq s) (set (outside s))" "snd e \<in> set (outside s)"
    using assms(1) pc by (auto simp: timer_inv_def outside_def firing_def)
  with queue_invD(5) obtain t where t: "theap (tq s) (snd e) = Some t" by blast
  have "outside (s\<lparr>tpc := TFiring now (dn @ [e]) todo, fired := f\<rparr>) = outside s" for f
    using pc by (simp add: outside_def firing_def)
  then show ?thesis using assms(1) t pc by (simp add: deref_def timer_inv_def)
qed

lemma times_ok_calling: "times_ok (q\<lparr>callingExpiredTimers := b\<rparr>) = times_ok q"
  by (simp add: times_ok_def)

lemma texec_finish:
  assumes "timer_inv s" and "tpc s = TFiring now dn []"
  shows "returns (texec (TFinish cur) s) (\<lambda>s'. timer_inv s' \<and> tpc s' = TIdle \<and> fired s' = fired s \<and>
    numCreated (tq s') = numCreated (tq s) \<and> tpending s' = tpending s \<and>
    live_ids (tq s') = live_ids (tq s) - id_of (tq s) ` {e \<in> set dn. ends (tq s) e})"
proof -
  let ?q = "(tq s)\<lparr>callingExpiredTimers := False\<rparr>" and ?own = "set (adds (tpending s))"
  have q: "queue_inv ?q (?own \<union> snd ` set dn)" "distinct (map snd dn)" "?own \<inter> snd ` set dn = {}" "isValid now"
    "times_ok ?q" "distinct (adds (tpending s))"
    using assms by (auto simp: timer_inv_def outside_def firing_def times_ok_calling Un_commute)
  have same: "live_ids ?q = live_ids (tq s)" "id_of ?q = id_of (tq s)" "ends ?q = ends (tq s)"
    by (simp_all add: live_ids_def id_of_def ends_def seq_of_def fun_eq_iff)
  from timers_reset_returns [OF q(1-5), of cur] obtain q' where
    r: "timers_reset cur dn now ?q = Inr q'" "queue_inv q' ?own" "numCreated q' = numCreated (tq s)"
      "\<not> callingExpiredTimers q'" "times_ok q'" "armed q'"
      "live_ids q' = live_ids (tq s) - id_of (tq s) ` {e \<in> set dn. ends (tq s) e}"
    unfolding same by (auto elim!: returnsE)
  then show ?thesis using assms(2) q(6) by (simp add: timer_inv_def outside_def firing_def)
qed

lemma texec_returns:
  assumes "timer_inv s" and "tenabled c s"
  shows "returns (texec c s) timer_inv"
proof (cases c)
  case (TCancel i)
  then show ?thesis using texec_cancel [OF assms(1), of i] by simp
next
  case (TCancelOther i)
  have "timer_inv (s\<lparr>tpending := tpending s @ [CancelInLoop i]\<rparr>)"
    using assms(1) by (simp add: timer_inv_def outside_def firing_def split: timer_pc.splits)
  with TCancelOther show ?thesis by simp
next
  case (TFinish cur)
  with assms(2) obtain now dn where "tpc s = TFiring now dn []" by (auto split: timer_pc.splits list.splits)
  from texec_finish [OF assms(1) this, of cur] show ?thesis unfolding TFinish by (rule returns_mono) simp
next
  case TFire
  show ?thesis unfolding TFire using texec_fire [OF assms(1)] assms(2) TFire by (auto elim!: returns_mono)
qed (use assms texec_add texec_add_other texec_run texec_alarm in blast)+

interpretation timers: invariant_system timer_start timer_step timer_inv
proof unfold_locales
  show "timer_start s \<Longrightarrow> timer_inv s" for s
    using new_TimerQueue_inv
    by (simp add: timer_start_def timer_inv_def outside_def firing_def times_ok_def armed_def new_TimerQueue_def)
  show "timer_inv s \<Longrightarrow> timer_step s t \<Longrightarrow> timer_inv t" for s t
    unfolding timer_step_def using texec_returns [of s] by (metis returns_Inr)
qed

text \<open>A schedule run from a state; it ends only when every step is enabled and returns.\<close>

fun trun :: "timer_cmd list \<Rightarrow> timer_sys \<Rightarrow> timer_sys option" where
  "trun [] s = Some s"
| "trun (c # cs) s = (if tenabled c s then case texec c s of Inl f \<Rightarrow> None | Inr t \<Rightarrow> trun cs t else None)"

lemma trun_reaches: "trun cs s = Some t \<Longrightarrow> reaches timer_step s t"
proof (induction cs arbitrary: s)
  case Nil
  then show ?case by (simp add: reaches.refl)
next
  case (Cons c cs)
  then obtain u where u: "tenabled c s" "texec c s = Inr u" "trun cs u = Some t"
    by (auto split: if_splits sum.splits)
  then have "timer_step s u" by (auto simp: timer_step_def)
  from reaches_trans [OF Cons.IH [OF u(3)] reaches_one [of timer_step, OF this]] show ?case .
qed

abbreviation timers_init :: timer_sys where
  "timers_init \<equiv> \<lparr>tq = new_TimerQueue, tpc = TIdle, tpending = [], fired = []\<rparr>"

lemmas timer_eval = new_TimerQueue_def new_Timer_def addTimer_def addTimerInLoop_def insert_timer_def
  cancelInLoop_def delete_Timer_def set_insert_def set_erase_def deref_def assertInLoopThread_def
  resetTimerfd_def begin_expired_def getExpired_def readTimerfd_def timers_reset_def UINTPTR_MAX_def
  less_prod_def' less_datetime_def less_eq_datetime_def isValid_def Let_def

lemma timers_init_start: "timer_start timers_init"
  by (simp add: timer_start_def)



text \<open>
  C22. No queued timer is forgotten: whenever the loop is idle and a timer is queued, the
  timer descriptor is armed, for a time no later than that timer's expiration.
\<close>

theorem timers_stay_armed:
  assumes "timer_start s0" and "reaches timer_step s0 s" and "tpc s = TIdle" and "e \<in> set (timers (tq s))"
  shows "\<exists>d x. timerfd (tq s) = Some (d, x) \<and> d \<le> fst e"
  using timers.reachable_inv [OF assms(1,2)] assms(3,4) by (fastforce simp: timer_inv_def armed_def)

theorem timers_stay_armed_witness:
  "\<exists>s e. trun [TAdd (DateTime 1) 8 0 (DateTime 5) 0] timers_init = Some s \<and> e \<in> set (timers (tq s)) \<and>
     (\<exists>d x. timerfd (tq s) = Some (d, x) \<and> d \<le> fst e)"
proof -
  let ?cs = "[TAdd (DateTime 1) 8 0 (DateTime 5) 0]"
  have "case trun ?cs timers_init of None \<Rightarrow> False | Some s \<Rightarrow> tpc s = TIdle \<and> timers (tq s) = [(DateTime 5, 8)]"
    by (simp add: timer_eval)
  then obtain s where s: "trun ?cs timers_init = Some s" "tpc s = TIdle" "(DateTime 5, 8) \<in> set (timers (tq s))"
    by (auto split: option.splits)
  from timers_stay_armed [OF timers_init_start trun_reaches [OF s(1)] s(2,3)] s show ?thesis by blast
qed

text \<open>
  C30. The relative time handed to the kernel is never zero, which would disarm the
  descriptor: it is the time left, but at least 100 microseconds, correctly split into
  seconds and nanoseconds.
\<close>

theorem howMuchTimeFromNow_arms:
  "case howMuchTimeFromNow cur when of (sec, nsec) \<Rightarrow> 0 \<le> sec \<and> 0 \<le> nsec \<and> nsec < 1000000000 \<and>
     sec * 1000000000 + nsec = 1000 * max 100 (microSecondsSinceEpoch when - microSecondsSinceEpoch cur)"
proof -
  let ?u = "max 100 (microSecondsSinceEpoch when - microSecondsSinceEpoch cur)"
  have "howMuchTimeFromNow cur when = (?u sdiv 1000000, (?u smod 1000000) * 1000)"
    by (auto simp: howMuchTimeFromNow_def Let_def kMicroSecondsPerSecond_def max_def)
  then have "howMuchTimeFromNow cur when = (?u div 1000000, (?u mod 1000000) * 1000)"
    using smod_nonneg [of ?u 1000000] by simp
  moreover have "?u div 1000000 * 1000000 + ?u mod 1000000 = ?u" by simp
  then have "?u div 1000000 * 1000000000 + ?u mod 1000000 * 1000 = 1000 * ?u" by linarith
  moreover have "0 \<le> ?u div 1000000" "0 \<le> ?u mod 1000000" "?u mod 1000000 < 1000000" by simp_all
  ultimately show ?thesis by simp
qed

section \<open>Cancelling\<close>

lemma live_ids_new:
  "theap q p = None \<Longrightarrow> live_ids (new_Timer p cb when iv q) = insert (p, numCreated q) (live_ids q)"
  by (auto simp: live_ids_iff new_Timer_def split: if_splits)

lemma live_ids_heap: "theap q' = theap q \<Longrightarrow> live_ids q' = live_ids q"
  by (simp add: live_ids_def seq_of_def [abs_def])

definition live_grows :: "timer_sys \<Rightarrow> timer_sys \<Rightarrow> bool" where
  "live_grows s t \<longleftrightarrow> numCreated (tq s) \<le> numCreated (tq t) \<and>
     (\<forall>i \<in> live_ids (tq t). i \<in> live_ids (tq s) \<or> numCreated (tq s) \<le> snd i) \<and>
     (fired t = fired s \<or> (\<exists>i \<in> live_ids (tq s). fired t = fired s @ [i]))"

lemma live_growsI:
  "fired t = fired s \<Longrightarrow> numCreated (tq s) \<le> numCreated (tq t) \<Longrightarrow>
   live_ids (tq t) \<subseteq> live_ids (tq s) \<union> {i. numCreated (tq s) \<le> snd i} \<Longrightarrow> live_grows s t"
  by (auto simp: live_grows_def)

lemma cancel_live_grows:
  assumes "timer_inv s" and "bindR (cancelInLoop True i (tq s)) (\<lambda>q. Inr (s\<lparr>tq := q, tpending := fs\<rparr>)) = Inr t"
  shows "live_grows s t"
proof -
  have "queue_inv (tq s) (set (outside s))" using assms(1) by (simp add: timer_inv_def)
  from cancelInLoop_returns [OF this, of i] obtain q' where
    "cancelInLoop True i (tq s) = Inr q'" "numCreated q' = numCreated (tq s)" "live_ids q' \<subseteq> live_ids (tq s)"
    by (auto elim!: returnsE)
  with assms(2) show ?thesis by (intro live_growsI) auto
qed

lemma texec_live_grows:
  assumes inv: "timer_inv s" and en: "tenabled c s" and ex: "texec c s = Inr t"
  shows "live_grows s t"
proof -
  have q: "queue_inv (tq s) (set (outside s))" using inv by (simp add: timer_inv_def)
  show ?thesis
  proof (cases c)
    case (TAdd cur p cb w iv)
    from addTimer_returns [OF q, of p cur cb w iv] TAdd en obtain i q' where
      "addTimer cur p cb w iv (tq s) = Inr (i, q')" "theap q' = theap (new_Timer p cb w iv (tq s))"
      "numCreated q' = numCreated (tq s) + 1" by (auto elim!: returnsE)
    with TAdd en ex live_ids_new [of "tq s" p cb w iv] live_ids_heap [of q' "new_Timer p cb w iv (tq s)"]
    show ?thesis by (intro live_growsI) auto
  next
    case (TCancel i)
    have "s\<lparr>tq := q\<rparr> = s\<lparr>tq := q, tpending := tpending s\<rparr>" for q by (rule timer_sys.equality) simp_all
    with TCancel ex show ?thesis by (intro cancel_live_grows [OF inv, of i "tpending s"]) simp
  next
    case (TAddOther p cb w iv)
    moreover have "numCreated (new_Timer p cb w iv (tq s)) = numCreated (tq s) + 1" by (simp add: new_Timer_def)
    ultimately show ?thesis using en ex live_ids_new [of "tq s" p cb w iv] by (intro live_growsI) auto
  next
    case (TCancelOther i)
    with ex show ?thesis by (intro live_growsI) auto
  next
    case (TRun cur)
    with en obtain f fs where fs: "tpending s = f # fs" "tpc s = TIdle" by (cases "tpending s") auto
    show ?thesis
    proof (cases f)
      case (AddTimerInLoop p)
      have "queue_inv (tq s) (insert p (set (adds fs)))" "p \<notin> set (adds fs)"
        using inv fs AddTimerInLoop by (auto simp: timer_inv_def outside_def firing_def)
      from addTimerInLoop_returns [OF this, of cur] obtain q' where
        "addTimerInLoop True cur p (tq s) = Inr q'" "theap q' = theap (tq s)" "numCreated q' = numCreated (tq s)"
        by (auto elim!: returnsE)
      with TRun fs AddTimerInLoop ex live_ids_heap [of q' "tq s"] show ?thesis by (intro live_growsI) auto
    next
      case (CancelInLoop i)
      with TRun fs ex show ?thesis by (intro cancel_live_grows [OF inv, of i fs]) simp
    qed
  next
    case (TAlarm now)
    from begin_expired_returns [OF q, of now] obtain x q' where
      "begin_expired now (tq s) = Inr (x, q')" "theap q' = theap (tq s)" "numCreated q' = numCreated (tq s)"
      by (auto elim!: returnsE)
    with TAlarm ex live_ids_heap [of q' "tq s"] show ?thesis by (intro live_growsI) auto
  next
    case TFire
    with en obtain now dn e todo where pc: "tpc s = TFiring now dn (e # todo)"
      by (auto split: timer_pc.splits list.splits)
    with TFire ex obtain u where "theap (tq s) (snd e) = Some u" "tq t = tq s" "fired t = fired s @ [(snd e, sequence u)]"
      by (auto simp: deref_def split: option.splits)
    then show ?thesis by (auto simp: live_grows_def live_ids_iff intro!: bexI [of _ "(snd e, sequence u)"])
  next
    case (TFinish cur)
    with en obtain now dn where "tpc s = TFiring now dn []" by (auto split: timer_pc.splits list.splits)
    from texec_finish [OF inv this, of cur] TFinish ex show ?thesis
      by (intro live_growsI) (auto simp del: texec.simps)
  qed
qed

definition dead :: "timer_id \<Rightarrow> nat \<Rightarrow> timer_sys \<Rightarrow> bool" where
  "dead i k s \<longleftrightarrow> timer_inv s \<and> i \<notin> live_ids (tq s) \<and> snd i < numCreated (tq s) \<and> count_list (fired s) i = k"

interpretation dead: invariant_system "dead i k" timer_step "dead i k" for i k
proof unfold_locales
  fix s t assume d: "dead i k s" and "timer_step s t"
  then obtain c where c: "tenabled c s" "texec c s = Inr t" by (auto simp: timer_step_def)
  have inv: "timer_inv s" using d by (simp add: dead_def)
  from texec_live_grows [OF inv c] texec_returns [OF inv c(1)] c(2) d show "dead i k t"
    by (auto simp: dead_def live_grows_def)
qed

lemma inactive_not_live:
  assumes "timer_inv s" and "tpc s = TIdle" and "i \<notin> set (activeTimers (tq s))" and "fst i \<notin> set (adds (tpending s))"
  shows "i \<notin> live_ids (tq s)"
proof
  assume "i \<in> live_ids (tq s)"
  then have p: "fst i \<in> dom (theap (tq s))" "snd i = seq_of (tq s) (fst i)" by (auto simp: live_ids_def)
  have q: "queue_inv (tq s) (set (adds (tpending s)))"
    using assms(1,2) by (simp add: timer_inv_def outside_def firing_def)
  from p(1) queue_invD(5) [OF q] assms(4) obtain e where "e \<in> set (timers (tq s))" "snd e = fst i" by auto
  then have "i \<in> id_of (tq s) ` set (timers (tq s))" using p(2) by (force simp: id_of_def prod_eq_iff)
  with queue_invD(7) [OF q] assms(3) show False by simp
qed



section \<open>What expires, and when\<close>

text \<open>
  C29. An alarm takes exactly the timers that are due: \<open>getExpired\<close> returns, in order of
  expiration, the entries whose time is not after \<open>now\<close> and leaves exactly the others queued,
  although it finds the boundary with a sentry address instead of comparing times.
\<close>

theorem getExpired_exactly_due:
  assumes "queue_inv q own"
  shows "returns (getExpired now q) (\<lambda>(ex, q'). ex = filter (\<lambda>e. fst e \<le> now) (timers q) \<and>
    timers q' = filter (\<lambda>e. \<not> fst e \<le> now) (timers q) \<and> sorted (map fst ex) \<and> theap q' = theap q \<and>
    queue_inv q' (own \<union> snd ` set ex))"
proof -
  have "sorted (map fst (filter P (timers q)))" for P
  proof -
    have "sorted_wrt (\<lambda>a b. fst a \<le> fst b) (timers q)"
      using queue_invD(1) [OF assms] by (rule sorted_wrt_mono_rel [rotated]) (auto simp: less_prod_def')
    then show ?thesis by (simp add: sorted_map sorted_wrt_filter)
  qed
  moreover from getExpired_returns [OF assms, of now] obtain ex q' where
    g: "getExpired now q = Inr (ex, q')" "ex = filter (\<lambda>e. fst e \<le> now) (timers q)"
      "queue_inv q' (own \<union> snd ` set ex)" "timers q' = filter (\<lambda>e. \<not> fst e \<le> now) (timers q)"
    and q': "q' = q\<lparr>timers := timers q', activeTimers := activeTimers q'\<rparr>"
    by (auto elim!: returnsE)
  moreover have "theap q' = theap q" by (subst q') simp
  ultimately show ?thesis by simp
qed

theorem getExpired_exactly_due_witness:
  "returns (getExpired (DateTime 6) \<lparr>theap = [8 \<mapsto> \<lparr>t_callback = 0, expiration = DateTime 5, interval = 0, repeat = False, sequence = 0\<rparr>],
      numCreated = 1, timers = [(DateTime 5, 8)], activeTimers = [(8, 0)], callingExpiredTimers = False,
      cancelingTimers = [], timerfd = None\<rparr>) (\<lambda>(ex, q'). ex = [(DateTime 5, 8)] \<and> timers q' = [])"
proof -
  let ?q = "\<lparr>theap = [8 \<mapsto> \<lparr>t_callback = 0, expiration = DateTime 5, interval = 0, repeat = False, sequence = 0\<rparr>],
      numCreated = 1, timers = [(DateTime 5, 8)], activeTimers = [(8, 0)], callingExpiredTimers = False,
      cancelingTimers = [], timerfd = None\<rparr>"
  have "queue_inv ?q {}" by (simp add: queue_inv_def id_of_def seq_of_def UINTPTR_MAX_def split: if_splits)
  from getExpired_exactly_due [OF this, of "DateTime 6"] show ?thesis
    by (rule returns_mono) (auto simp: less_eq_datetime_def)
qed

text \<open>
  Delays are cut to whole seconds: a timer asked for after a delay below one second is
  due at once (it is the same as one asked for now), and a repeating timer with an
  interval below one second is, after each run, due again at the time of that run, because
  the \<open>double\<close> is converted to \<open>int64_t\<close> by \<open>addSeconds\<close>.
\<close>

theorem subsecond_delays_vanish:
  assumes "0 \<le> delay" and "delay < 1"
  shows "runAfter cur p cb delay q = runAt cur p cb cur q \<and>
    runEvery cur p cb delay q = addTimer cur p cb cur delay q \<and>
    (repeat t \<and> interval t = delay \<longrightarrow> expiration (restart now t) = now)"
  using assms by (simp add: runAfter_def runEvery_def restart_def duration_defs)

theorem subsecond_delays_vanish_witness:
  "runAfter (DateTime 7) 8 0 (1 / 2) new_TimerQueue = runAt (DateTime 7) 8 0 (DateTime 7) new_TimerQueue"
  using subsecond_delays_vanish [of "1 / 2"] by simp

text \<open>
  \<open>addTimer\<close> called from another thread reads \<open>timer->sequence()\<close> after it has handed the
  timer to the loop: there is a schedule in which the loop has by then run and deleted it,
  so that the read is of a deleted object.
\<close>

theorem addTimer_may_read_deleted:
  "\<exists>s. trun [TAddOther 8 0 (DateTime 5) 0, TRun (DateTime 1), TAlarm (DateTime 7), TFire, TFinish (DateTime 8)]
         timers_init = Some s \<and> fired s = [(8, 0)] \<and> deref 8 (tq s) = Inl MemoryError"
  by (simp add: timer_eval)

end
