(* ===== verification/Core_DateFormat.thy ===== *)
theory Core_DateFormat
  imports Core_DateTime Decimal
begin

text \<open>
  The text forms and the clock of \<open>core/DateTime.cc\<close>. \<open>strftime\<close> is modelled for the conversions the library
  uses (\<open>%Y %m %d %H %M %S\<close>); \<open>other\<close> stands for the remaining ones. The text is written to a buffer of 32
  bytes: \<open>None\<close> is a text that does not fit, after which the buffer's contents are unspecified. \<open>now\<close>
  is the count of \<open>system_clock\<close>, in nanoseconds.
\<close>

section \<open>The clock\<close>

definition currentDateTime :: "int \<Rightarrow> datetime" where
  "currentDateTime now = DateTime (now sdiv 1000)"

definition currentMicroSecondsSinceEpoch :: "int \<Rightarrow> int" where
  "currentMicroSecondsSinceEpoch now = now sdiv 1000"

definition currentMilliSecondsSinceEpoch :: "int \<Rightarrow> int" where
  "currentMilliSecondsSinceEpoch now = now sdiv 1000000"

definition currentSecondsSinceEpoch :: "int \<Rightarrow> int" where
  "currentSecondsSinceEpoch now = now sdiv 1000000000"

section \<open>Formatting\<close>

definition pad0 :: "nat \<Rightarrow> nat \<Rightarrow> string" where
  "pad0 k n = replicate (k - length (dec_digits n)) CHR ''0'' @ dec_digits n"

text \<open>\<open>%06d\<close> counts the sign among the six characters.\<close>

definition printf_06d :: "int \<Rightarrow> string" where
  "printf_06d i = (if i < 0 then CHR ''-'' # pad0 5 (nat (- i)) else pad0 6 (nat i))"

definition conversion :: "(char \<Rightarrow> tm \<Rightarrow> string) \<Rightarrow> char \<Rightarrow> tm \<Rightarrow> string" where
  "conversion other ch t =
     (if ch = CHR ''Y'' then show_int (tm_year t + 1900)
      else if ch = CHR ''m'' then pad0 2 (nat (tm_mon t + 1))
      else if ch = CHR ''d'' then pad0 2 (nat (tm_mday t))
      else if ch = CHR ''H'' then pad0 2 (nat (tm_hour t))
      else if ch = CHR ''M'' then pad0 2 (nat (tm_min t))
      else if ch = CHR ''S'' then pad0 2 (nat (tm_sec t))
      else other ch t)"

fun strftime :: "(char \<Rightarrow> tm \<Rightarrow> string) \<Rightarrow> string \<Rightarrow> tm \<Rightarrow> string" where
  "strftime other [] t = []"
| "strftime other [ch] t = [ch]"
| "strftime other (ch # ch' # fmt) t =
     (if ch = CHR ''%'' then conversion other ch' t @ strftime other fmt t else ch # strftime other (ch' # fmt) t)"

definition kBufSize :: nat where
  "kBufSize = 32"

definition dt_toString :: "(char \<Rightarrow> tm \<Rightarrow> string) \<Rightarrow> (int \<Rightarrow> tm) \<Rightarrow> string \<Rightarrow> datetime \<Rightarrow> string option" where
  "dt_toString other localtime fmt d =
     (let s = strftime other fmt (localtime (to_time_t d)) in if length s < kBufSize then Some s else None)"

text \<open>The microseconds are appended with \<open>snprintf\<close> to what is left of the buffer.\<close>

definition toStandardFormat :: "(char \<Rightarrow> tm \<Rightarrow> string) \<Rightarrow> (int \<Rightarrow> tm) \<Rightarrow> datetime \<Rightarrow> string option" where
  "toStandardFormat other localtime d =
     (case dt_toString other localtime ''%Y-%m-%d %H:%M:%S'' d of
        None \<Rightarrow> None
      | Some s \<Rightarrow> Some (s @ take (kBufSize - length s - 1) (CHR ''.'' # printf_06d (microSecondsSinceEpoch d smod 1000000))))"

section \<open>The standard form\<close>

text \<open>A broken-down time of a year of four digits, as \<open>localtime\<close> makes it.\<close>

definition tm_full :: "tm \<Rightarrow> bool" where
  "tm_full t \<longleftrightarrow> tm_ok t \<and> 1000 \<le> tm_year t + 1900 \<and> tm_year t + 1900 \<le> 9999 \<and> 0 \<le> tm_hour t \<and> tm_hour t \<le> 23 \<and>
     0 \<le> tm_min t \<and> tm_min t \<le> 59 \<and> 0 \<le> tm_sec t \<and> tm_sec t \<le> 60"

lemma length_pad0: "n < 10 ^ k \<Longrightarrow> 0 < k \<Longrightarrow> length (pad0 k n) = k"
  using length_dec_digits [of n k] by (simp add: pad0_def)

lemma digits_value_zeros: "digits_value (replicate k CHR ''0'' @ xs) = digits_value xs"
  by (induction k) (simp_all add: digits_value_def)

lemma digits_value_pad0: "digits_value (pad0 k n) = int n"
  unfolding pad0_def digits_value_zeros using dec_digits_value [of n] by simp

lemma pad0_inject [simp]: "pad0 k m = pad0 k n \<longleftrightarrow> m = n"
  by (metis digits_value_pad0 of_nat_eq_iff)

lemma length_year:
  assumes "tm_full t"
  shows "length (show_int (tm_year t + 1900)) = 4"
proof -
  from assms have y: "(10::nat) ^ 3 \<le> nat (tm_year t + 1900)" "nat (tm_year t + 1900) < 10 ^ 4" "0 \<le> tm_year t + 1900"
    unfolding tm_full_def by auto
  from length_dec_digits [OF y(2)] dec_digits_length_ge [OF y(1)] y(3) show ?thesis by (simp add: show_int_def)
qed

lemma length_fields:
  assumes "tm_full t"
  shows "length (pad0 2 (nat (tm_mon t + 1))) = 2" "length (pad0 2 (nat (tm_mday t))) = 2" "length (pad0 2 (nat (tm_hour t))) = 2"
    "length (pad0 2 (nat (tm_min t))) = 2" "length (pad0 2 (nat (tm_sec t))) = 2"
  using assms by (auto simp: tm_full_def tm_ok_def daysOfMonth_def intro!: length_pad0 split: if_splits)

lemma standard_text:
  assumes "tm_full t"
  shows "strftime other ''%Y-%m-%d %H:%M:%S'' t = show_int (tm_year t + 1900) @ CHR ''-'' # pad0 2 (nat (tm_mon t + 1)) @
      CHR ''-'' # pad0 2 (nat (tm_mday t)) @ CHR '' '' # pad0 2 (nat (tm_hour t)) @ CHR '':'' # pad0 2 (nat (tm_min t)) @
      CHR '':'' # pad0 2 (nat (tm_sec t))"
    and "length (strftime other ''%Y-%m-%d %H:%M:%S'' t) = 19"
  using length_year [OF assms] length_fields [OF assms] by (simp_all add: conversion_def)

lemma micros_range: "0 \<le> x \<Longrightarrow> 0 \<le> x smod 1000000 \<and> x smod (1000000::int) < 1000000"
  using smod_nonneg [of x 1000000] by simp

text \<open>
  The standard form of a time after the epoch in a year of four digits has 26 characters, so it
  fits into the buffer, and it determines the local time and the microseconds.
\<close>

lemma toStandardFormat_text:
  assumes "tm_full (localtime (to_time_t d))" and "0 \<le> microSecondsSinceEpoch d"
  shows "toStandardFormat other localtime d = Some (strftime other ''%Y-%m-%d %H:%M:%S'' (localtime (to_time_t d)) @
      CHR ''.'' # pad0 6 (nat (microSecondsSinceEpoch d smod 1000000)))"
    and "length (the (toStandardFormat other localtime d)) = 26"
proof -
  have "length (pad0 6 (nat (microSecondsSinceEpoch d smod 1000000))) = 6"
    using micros_range [OF assms(2)] by (intro length_pad0) auto
  moreover note standard_text(2) [OF assms(1), of other] micros_range [OF assms(2)]
  ultimately show "toStandardFormat other localtime d = Some (strftime other ''%Y-%m-%d %H:%M:%S'' (localtime (to_time_t d)) @
      CHR ''.'' # pad0 6 (nat (microSecondsSinceEpoch d smod 1000000)))"
    "length (the (toStandardFormat other localtime d)) = 26"
    by (simp_all add: toStandardFormat_def dt_toString_def kBufSize_def printf_06d_def Let_def del: strftime.simps)
qed

lemma standard_text_inject:
  assumes "tm_full s" and "tm_full t" and "strftime other ''%Y-%m-%d %H:%M:%S'' s = strftime other ''%Y-%m-%d %H:%M:%S'' t"
  shows "tm_year s = tm_year t \<and> tm_mon s = tm_mon t \<and> tm_mday s = tm_mday t \<and> tm_hour s = tm_hour t \<and>
    tm_min s = tm_min t \<and> tm_sec s = tm_sec t"
proof -
  note r = assms(1,2) [unfolded tm_full_def tm_ok_def]
  have y: "show_int (tm_year s + 1900) = dec_digits (nat (tm_year s + 1900))"
    "show_int (tm_year t + 1900) = dec_digits (nat (tm_year t + 1900))" using r by (simp_all add: show_int_def)
  have "nat (tm_year s + 1900) = nat (tm_year t + 1900) \<and> nat (tm_mon s + 1) = nat (tm_mon t + 1) \<and>
      nat (tm_mday s) = nat (tm_mday t) \<and> nat (tm_hour s) = nat (tm_hour t) \<and> nat (tm_min s) = nat (tm_min t) \<and>
      nat (tm_sec s) = nat (tm_sec t)"
    using assms(3) length_year [OF assms(1)] length_year [OF assms(2)] length_fields [OF assms(1)] length_fields [OF assms(2)]
    unfolding standard_text(1) [OF assms(1)] standard_text(1) [OF assms(2)] y by simp
  with r show ?thesis by (simp add: eq_nat_nat_iff)
qed

theorem standard_format_faithful:
  assumes "tm_full (localtime (to_time_t d))" and "tm_full (localtime (to_time_t e))"
    and "0 \<le> microSecondsSinceEpoch d" and "0 \<le> microSecondsSinceEpoch e" and "\<And>t. mktime (localtime t) = t"
    and "\<And>t. tm_isdst (localtime t) = 0" and "toStandardFormat other localtime d = toStandardFormat other localtime e"
  shows "d = e"
proof -
  let ?s = "localtime (to_time_t d)" and ?t = "localtime (to_time_t e)"
  have len: "length (strftime other ''%Y-%m-%d %H:%M:%S'' ?s) = length (strftime other ''%Y-%m-%d %H:%M:%S'' ?t)"
    using standard_text(2) assms(1,2) by metis
  from assms(7) have eq: "strftime other ''%Y-%m-%d %H:%M:%S'' ?s = strftime other ''%Y-%m-%d %H:%M:%S'' ?t"
    "pad0 6 (nat (microSecondsSinceEpoch d smod 1000000)) = pad0 6 (nat (microSecondsSinceEpoch e smod 1000000))"
    unfolding toStandardFormat_text(1) [where d = d and localtime = localtime, OF assms(1,3)] toStandardFormat_text(1) [where d = e and localtime = localtime, OF assms(2,4)] using len
    by (simp_all del: strftime.simps)
  have "?s = ?t" using standard_text_inject [OF assms(1,2) eq(1)] assms(6) by (intro tm.equality) simp_all
  then have "to_time_t d = to_time_t e" using assms(5) by metis
  moreover have "microSecondsSinceEpoch d smod 1000000 = microSecondsSinceEpoch e smod 1000000"
    using eq(2) micros_range [OF assms(3)] micros_range [OF assms(4)] by (simp add: eq_nat_nat_iff)
  ultimately have "microSecondsSinceEpoch d = microSecondsSinceEpoch e"
    unfolding to_time_t_def by (metis sdiv_mult_smod_eq)
  then show ?thesis by (rule datetime.expand)
qed

text \<open>Before the epoch the microseconds are negative and printed with their sign.\<close>

lemma negative_micros_text:
  assumes "- 10 < i" and "i < 0"
  shows "printf_06d i = ''-0000'' @ dec_digits (nat (- i))"
proof -
  from assms have "nat (- i) < 10" by linarith
  then have "length (dec_digits (nat (- i))) = 1" by (simp add: dec_digits.simps [of "nat (- i)"])
  then show ?thesis using assms(2) by (simp add: printf_06d_def pad0_def numeral_eq_Suc)
qed

end
