(* ===== verification/Core_Support.thy ===== *)
theory Core_Support
  imports Decimal
begin

text \<open>
  Small classes of \<open>core\<close> and \<open>utils\<close>: the cached identifier of a thread (\<open>core/CurrentThread\<close>), a stop
  watch (\<open>core/ElapsedTimer\<close>), a callback on an object that may be gone (\<open>core/WeakCallback\<close>) and a value that is made
  once (\<open>utils/Singleton\<close>). The kernel's and the clock's answers are arguments.
\<close>

section \<open>CurrentThread\<close>

text \<open>The variables are local to a thread. \<open>getTid\<close> and \<open>getPid\<close> are what the kernel answers.\<close>

record thread_local =
  tidCache :: int
  tidStringBuf :: string
  tidStringLen :: int

definition new_thread_local :: thread_local where
  "new_thread_local = \<lparr>tidCache = 0, tidStringBuf = [], tidStringLen = 6\<rparr>"

definition pad_left :: "nat \<Rightarrow> string \<Rightarrow> string" where
  "pad_left w s = replicate (w - length s) CHR '' '' @ s"

definition tid_text :: "int \<Rightarrow> string" where
  "tid_text i = pad_left 5 (show_int i) @ '' ''"

text \<open>\<open>snprintf\<close> stores at most 31 characters and returns the length of the whole text.\<close>

definition cacheTid :: "int \<Rightarrow> thread_local \<Rightarrow> thread_local" where
  "cacheTid getTid t =
     (if tidCache t = 0
      then t\<lparr>tidCache := getTid, tidStringBuf := take 31 (tid_text getTid), tidStringLen := int (length (tid_text getTid))\<rparr>
      else t)"

definition current_tid :: "int \<Rightarrow> thread_local \<Rightarrow> int \<times> thread_local" where
  "current_tid getTid t = (let t1 = (if tidCache t = 0 then cacheTid getTid t else t) in (tidCache t1, t1))"

definition tidString :: "thread_local \<Rightarrow> string" where
  "tidString t = tidStringBuf t"

definition tidStringLength :: "thread_local \<Rightarrow> int" where
  "tidStringLength t = tidStringLen t"

definition isMainThread :: "int \<Rightarrow> int \<Rightarrow> thread_local \<Rightarrow> bool \<times> thread_local" where
  "isMainThread getTid getPid t = (case current_tid getTid t of (i, t1) \<Rightarrow> (i = getPid, t1))"

lemma tid_text_length:
  assumes "\<bar>i\<bar> < 2 ^ 31"
  shows "6 \<le> length (tid_text i) \<and> length (tid_text i) \<le> 12"
proof -
  have "nat \<bar>i\<bar> < 10 ^ 10" using assms by simp
  then have "length (dec_digits (nat \<bar>i\<bar>)) \<le> 10" by (rule length_dec_digits) simp
  then have "length (show_int i) \<le> 11" by (auto simp: show_int_def)
  then show ?thesis by (auto simp: tid_text_def pad_left_def)
qed

text \<open>
  After the first call of \<open>tid()\<close> in a thread the cache holds the kernel's identifier (never 0 for a thread), the text is
  complete and its recorded length is its length; later calls return the same without asking
  the kernel.
\<close>

theorem tid_cached:
  assumes "i \<noteq> 0" and "\<bar>i\<bar> < 2 ^ 31" and "current_tid i new_thread_local = (j, t)"
  shows "j = i \<and> tidString t = tid_text i \<and> tidStringLength t = int (length (tidString t)) \<and>
    (\<forall>k. current_tid k t = (i, t))"
  using assms tid_text_length [OF assms(2)]
  by (auto simp: current_tid_def cacheTid_def new_thread_local_def tidString_def tidStringLength_def Let_def)

text \<open>
  Before that the length says 6 although the text is empty. Nothing resets the cache after a \<open>fork\<close>: the child, whose
  identifier is its process number, answers that it is not the main thread.
\<close>

lemma tidStringLength_before: "tidStringLength new_thread_local = 6" "tidString new_thread_local = []"
  by (simp_all add: new_thread_local_def tidString_def tidStringLength_def)

lemma isMainThread_after_fork:
  assumes "current_tid parent new_thread_local = (parent, t)" and "parent \<noteq> 0" and "child \<noteq> parent"
  shows "fst (isMainThread parent parent t) \<and> \<not> fst (isMainThread child child t)"
  using assms by (auto simp: isMainThread_def current_tid_def cacheTid_def new_thread_local_def Let_def)

section \<open>ElapsedTimer\<close>

text \<open>
  Times of the steady clock are in nanoseconds; a timer that was not started holds 0. The text
  of the seconds (\<open>%.6lf\<close>) is an argument, a function of the difference.
\<close>

record elapsed_timer =
  m_startPoint :: int

definition new_ElapsedTimer :: elapsed_timer where
  "new_ElapsedTimer = \<lparr>m_startPoint = 0\<rparr>"

definition et_start :: "int \<Rightarrow> elapsed_timer \<Rightarrow> elapsed_timer" where
  "et_start now t = t\<lparr>m_startPoint := now\<rparr>"

definition et_reStart :: "int \<Rightarrow> elapsed_timer \<Rightarrow> elapsed_timer" where
  "et_reStart now t = et_start now t"

definition elapsed :: "(int \<Rightarrow> string) \<Rightarrow> int \<Rightarrow> elapsed_timer \<Rightarrow> string" where
  "elapsed seconds_text now t = take 19 (seconds_text (now - m_startPoint t) @ ''(S)'')"

text \<open>\<open>duration_cast\<close> cuts off towards zero.\<close>

definition to_microseconds :: "int \<Rightarrow> int" where
  "to_microseconds ns = (if ns < 0 then - (- ns div 1000) else ns div 1000)"

definition hasExpired :: "int \<Rightarrow> int \<Rightarrow> elapsed_timer \<Rightarrow> bool" where
  "hasExpired now microseconds t \<longleftrightarrow> to_microseconds (now - m_startPoint t) > microseconds"

definition isVaid :: "elapsed_timer \<Rightarrow> bool" where
  "isVaid t \<longleftrightarrow> m_startPoint t > 0"

text \<open>
  A timer has expired from the first whole microsecond after the limit, and stays so as the
  clock goes on; restarting it makes it run again.
\<close>

lemma hasExpired_iff:
  assumes "0 \<le> us"
  shows "hasExpired now us (et_start begin t) \<longleftrightarrow> begin + (us + 1) * 1000 \<le> now"
proof -
  have pos: "us < n div 1000 \<longleftrightarrow> (us + 1) * 1000 \<le> n" for n :: int
    using zdiv_mono1 [of "(us + 1) * 1000" n 1000] div_mult_mod_eq [of n 1000] pos_mod_bound [of 1000 n] pos_mod_sign [of 1000 n] by auto
  have neg: "\<not> us < - (- n div 1000)" if "n < 0" for n :: int
    using assms that pos_imp_zdiv_nonneg_iff [of 1000 "- n"] by linarith
  show ?thesis
  proof (cases "now - begin < 0")
    case True
    with neg [of "now - begin"] assms show ?thesis by (simp add: hasExpired_def et_start_def to_microseconds_def)
  next
    case False
    with pos [of "now - begin"] show ?thesis by (auto simp: hasExpired_def et_start_def to_microseconds_def)
  qed
qed

lemma hasExpired_stays:
  assumes "0 \<le> us" and "hasExpired now us (et_start begin t)" and "now \<le> later"
  shows "hasExpired later us (et_start begin t) \<and> \<not> hasExpired later us (et_reStart later (et_start begin t))"
  using assms hasExpired_iff [OF assms(1)] by (simp add: et_reStart_def)

lemma elapsed_complete: "length (seconds_text (now - begin)) \<le> 16 \<Longrightarrow>
    elapsed seconds_text now (et_start begin t) = seconds_text (now - begin) @ ''(S)''"
  by (simp add: elapsed_def et_start_def)

text \<open>A timer that was never started is not valid, but measures the time since the clock began.\<close>

lemma unstarted_expires: "0 \<le> us \<Longrightarrow> hasExpired now us new_ElapsedTimer \<longleftrightarrow> (us + 1) * 1000 \<le> now"
  using hasExpired_iff [of us now 0 new_ElapsedTimer] by (simp add: et_start_def new_ElapsedTimer_def)

section \<open>WeakCallback\<close>

text \<open>
  Shared objects live in a store while somebody owns them; \<open>lock\<close> finds the object or nothing. The function changes
  the object.
\<close>

record ('id, 'obj, 'arg) weak_callback =
  wc_object :: 'id
  wc_function :: "'arg \<Rightarrow> 'obj \<Rightarrow> 'obj"

definition makeWeakCallback :: "'id \<Rightarrow> ('arg \<Rightarrow> 'obj \<Rightarrow> 'obj) \<Rightarrow> ('id, 'obj, 'arg) weak_callback" where
  "makeWeakCallback object function = \<lparr>wc_object = object, wc_function = function\<rparr>"

definition weak_call :: "('id, 'obj, 'arg) weak_callback \<Rightarrow> 'arg \<Rightarrow> ('id \<Rightarrow> 'obj option) \<Rightarrow> 'id \<Rightarrow> 'obj option" where
  "weak_call cb args store = (case store (wc_object cb) of
       Some ptr \<Rightarrow> store(wc_object cb \<mapsto> wc_function cb args ptr)
     | None \<Rightarrow> store)"

text \<open>
  A weak callback never brings an object back and never touches another one; called while the object is
  alive it is the plain call, and after its end it does nothing.
\<close>

lemma weak_call_safe:
  "dom (weak_call cb args store) = dom store"
  "i \<noteq> wc_object cb \<Longrightarrow> weak_call cb args store i = store i"
  "weak_call (makeWeakCallback i g) args store i = map_option (g args) (store i)"
  by (auto simp: weak_call_def makeWeakCallback_def split: option.splits)

section \<open>Singleton\<close>

text \<open>
  A local static variable is initialised by the first call that reaches it, all other callers
  waiting for it. \<open>made\<close> is the value the constructor would make at the time of the call.
\<close>

definition getInstance :: "'a \<Rightarrow> 'a option \<Rightarrow> 'a \<times> 'a option" where
  "getInstance made t = (case t of None \<Rightarrow> (made, Some made) | Some x \<Rightarrow> (x, Some x))"

fun getInstances :: "'a list \<Rightarrow> 'a option \<Rightarrow> 'a list" where
  "getInstances [] t = []"
| "getInstances (m # ms) t = (case getInstance m t of (x, t1) \<Rightarrow> x # getInstances ms t1)"

lemma getInstances_Some: "getInstances ms (Some x) = replicate (length ms) x"
  by (induction ms) (simp_all add: getInstance_def)

text \<open>All callers, in whatever order they come, get the value that the first one made.\<close>

lemma one_instance: "getInstances (m # ms) None = replicate (Suc (length ms)) m"
  by (simp add: getInstance_def getInstances_Some)

end
