(* ===== verification/Socket_Func.thy ===== *)
theory Socket_Func
  imports Youth_Prelude
begin

text \<open>
  The byte-order functions of \<open>net/SocketFunc.cpp\<close>. \<open>htobe*\<close> and \<open>be*toh\<close> swap the bytes
  of an integer on a little-endian host and are the identity on a big-endian one; the
  theory keeps the host's byte order as an argument, so that its facts hold on both.
\<close>

section \<open>Byte order\<close>

definition htobe :: "endian \<Rightarrow> 'a::len word \<Rightarrow> 'a word" where
  "htobe e w = (case e of LittleEndian \<Rightarrow> bswap w | BigEndian \<Rightarrow> w)"

definition betoh :: "endian \<Rightarrow> 'a::len word \<Rightarrow> 'a word" where
  "betoh e w = (case e of LittleEndian \<Rightarrow> bswap w | BigEndian \<Rightarrow> w)"

definition hostToNetwork64 :: "endian \<Rightarrow> 64 word \<Rightarrow> 64 word" where
  "hostToNetwork64 e host64 = htobe e host64"

definition hostToNetwork32 :: "endian \<Rightarrow> 32 word \<Rightarrow> 32 word" where
  "hostToNetwork32 e host32 = htobe e host32"

definition hostToNetwork16 :: "endian \<Rightarrow> 16 word \<Rightarrow> 16 word" where
  "hostToNetwork16 e host16 = htobe e host16"

definition networkToHost32 :: "endian \<Rightarrow> 32 word \<Rightarrow> 32 word" where
  "networkToHost32 e net32 = betoh e net32"

definition networkToHost64 :: "endian \<Rightarrow> 64 word \<Rightarrow> 64 word" where
  "networkToHost64 e net64 = betoh e net64"

definition networkToHost16 :: "endian \<Rightarrow> 16 word \<Rightarrow> 16 word" where
  "networkToHost16 e net16 = betoh e net16"

lemmas byte_order_defs = hostToNetwork64_def hostToNetwork32_def hostToNetwork16_def
  networkToHost32_def networkToHost64_def networkToHost16_def

lemma mem_of_LittleEndian_rev: "mem_of BigEndian w = rev (mem_of LittleEndian w)"
  by (simp add: mem_of_def)

lemma mem_of_bswap:
  assumes "8 dvd LENGTH('a)"
  shows "mem_of LittleEndian (bswap (w :: 'a::len word)) = mem_of BigEndian w"
proof -
  have "mem_of BigEndian (bswap w) = mem_of LittleEndian w"
    unfolding bswap_def by (rule mem_of_of_mem [OF assms]) simp
  then show ?thesis by (metis mem_of_LittleEndian_rev rev_rev_ident)
qed

lemma bswap_bswap [simp]:
  assumes "8 dvd LENGTH('a)"
  shows "bswap (bswap (w :: 'a::len word)) = w"
  unfolding bswap_def [of "bswap w"] mem_of_bswap [OF assms] by (rule of_mem_mem_of [OF assms])

text \<open>
  The memory image of a value in network order is its big-endian byte sequence, whatever
  the byte order of the host.
\<close>

lemma mem_of_htobe:
  assumes "8 dvd LENGTH('a)"
  shows "mem_of e (htobe e (w :: 'a::len word)) = be_bytes (LENGTH('a) div 8) (unat w)"
  using mem_of_bswap [OF assms, of w]
  by (cases e) (simp_all add: htobe_def mem_of_def be_bytes_def)

lemma betoh_htobe [simp]:
  "8 dvd LENGTH('a) \<Longrightarrow> betoh e (htobe e (w :: 'a::len word)) = w"
  by (cases e) (simp_all add: htobe_def betoh_def)

lemma betoh_of_mem_be_bytes:
  assumes "8 dvd LENGTH('a)"
  shows "betoh e (of_mem e (be_bytes (LENGTH('a) div 8) (unat w))) = (w :: 'a::len word)"
  using assms by (simp add: mem_of_htobe [OF assms, of e, symmetric] of_mem_mem_of)

end
