(* ===== verification/Errno.thy ===== *)
theory Errno
  imports Youth_Prelude
begin

text \<open>
  The error numbers the networking sources name (on Linux \<open>EWOULDBLOCK\<close> is \<open>EAGAIN\<close>), with
  every other number as \<open>EOTHER\<close>, and the answer of \<open>write(2)\<close> on a socket.
\<close>

datatype errno =
    EAGAIN | EINTR | EPIPE | ECONNRESET | ECONNABORTED | EPROTO | EPERM | EMFILE
  | EBADF | EFAULT | EINVAL | ENFILE | ENOBUFS | ENOMEM | ENOTSOCK | EOPNOTSUPP
  | EINPROGRESS | EISCONN | EADDRINUSE | EADDRNOTAVAIL | ECONNREFUSED | ENETUNREACH
  | EACCES | EAFNOSUPPORT | EALREADY | EOTHER nat

abbreviation EWOULDBLOCK :: errno where
  "EWOULDBLOCK \<equiv> EAGAIN"

datatype write_answer = Wrote nat | WriteFailed errno

text \<open>The conversion of a \<open>ssize_t\<close> (in range) to a \<open>size_t\<close> parameter: negative values wrap.\<close>

definition ssize_to_size :: "int \<Rightarrow> nat" where
  "ssize_to_size n = (if n < 0 then nat (n + 2 ^ 64) else nat n)"

lemma ssize_to_size_nat [simp]: "ssize_to_size (int n) = n"
  by (simp add: ssize_to_size_def)

lemma ssize_to_size_m1: "ssize_to_size (- 1) = 2 ^ 64 - 1"
  by (simp add: ssize_to_size_def)

end
