(* ===== verification/Net_Address.thy ===== *)
theory Net_Address
  imports Socket_Func Decimal Errno
begin

text \<open>
  Addresses and sockets: the rest of \<open>net/SocketFunc.cpp\<close>, \<open>net/HostAddress\<close> and the operations of
  \<open>net/Socket\<close> that are more than a single system call. The union of \<open>sockaddr_in\<close> and
  \<open>sockaddr_in6\<close> in a \<open>HostAddress\<close> is kept as memory: the family, the port as stored, and the
  24 bytes behind it. \<open>inet_pton\<close> and \<open>inet_ntop\<close> are arguments, and so are the answers of
  the kernel and of the resolver.
\<close>

section \<open>Socket addresses in memory\<close>

definition AF_INET :: nat where
  "AF_INET = 2"

definition AF_INET6 :: nat where
  "AF_INET6 = 10"

text \<open>
  \<open>sa_data\<close> holds \<open>sin_addr\<close> in its first 4 bytes and ends after 12 for a \<open>sockaddr_in\<close>; for a
  \<open>sockaddr_in6\<close> bytes 4 to 19 are \<open>sin6_addr\<close>, after the flow label.
\<close>

record sockaddr =
  sa_family :: nat
  sa_port :: "16 word"
  sa_data :: "char list"

record inet_fns =
  inet_pton4 :: "string \<Rightarrow> char list option"
  inet_pton6 :: "string \<Rightarrow> char list option"
  inet_ntop4 :: "char list \<Rightarrow> string"
  inet_ntop6 :: "char list \<Rightarrow> string"

definition zero_byte :: char where
  "zero_byte = CHR 0x00"

definition sin_addr :: "sockaddr \<Rightarrow> char list" where
  "sin_addr a = take 4 (sa_data a)"

definition sin6_addr :: "sockaddr \<Rightarrow> char list" where
  "sin6_addr a = take 16 (drop 4 (sa_data a))"

definition memset_in :: "sockaddr \<Rightarrow> sockaddr" where
  "memset_in a = \<lparr>sa_family = 0, sa_port = 0, sa_data = blit 0 (replicate 12 zero_byte) (sa_data a)\<rparr>"

definition memset_in6 :: "sockaddr \<Rightarrow> sockaddr" where
  "memset_in6 a = \<lparr>sa_family = 0, sa_port = 0, sa_data = replicate 24 zero_byte\<rparr>"

definition INADDR_ANY :: "32 word" where
  "INADDR_ANY = 0"

definition INADDR_LOOPBACK :: "32 word" where
  "INADDR_LOOPBACK = 0x7f000001"

definition in6addr_any :: "char list" where
  "in6addr_any = replicate 16 zero_byte"

definition in6addr_loopback :: "char list" where
  "in6addr_loopback = replicate 15 zero_byte @ [CHR 0x01]"

section \<open>SocketFunc\<close>

definition setServerAddress_in :: "endian \<Rightarrow> 16 word \<Rightarrow> bool \<Rightarrow> sockaddr \<Rightarrow> sockaddr" where
  "setServerAddress_in e port loopbackOnly a =
     (let a1 = memset_in a;
          ip = (if loopbackOnly then INADDR_LOOPBACK else INADDR_ANY) in
      a1\<lparr>sa_family := AF_INET, sa_port := hostToNetwork16 e port,
         sa_data := blit 0 (mem_of e (htobe e ip)) (sa_data a1)\<rparr>)"

definition setServerAddress_in6 :: "endian \<Rightarrow> 16 word \<Rightarrow> bool \<Rightarrow> sockaddr \<Rightarrow> sockaddr" where
  "setServerAddress_in6 e port loopbackOnly a =
     (let a1 = memset_in6 a;
          ip = (if loopbackOnly then in6addr_loopback else in6addr_any) in
      a1\<lparr>sa_family := AF_INET6, sa_port := hostToNetwork16 e port,
         sa_data := blit 4 ip (sa_data a1)\<rparr>)"

text \<open>\<open>inet_pton\<close> writes the address only when it accepts the text; a failure is logged.\<close>

definition setServerAddress_ip :: "inet_fns \<Rightarrow> endian \<Rightarrow> string \<Rightarrow> 16 word \<Rightarrow> sockaddr \<Rightarrow> sockaddr" where
  "setServerAddress_ip inet e ip port a =
     (let a1 = (memset_in a)\<lparr>sa_family := AF_INET, sa_port := hostToNetwork16 e port\<rparr> in
      case inet_pton4 inet ip of
        Some bs \<Rightarrow> a1\<lparr>sa_data := blit 0 bs (sa_data a1)\<rparr>
      | None \<Rightarrow> a1)"

definition setServerAddress_ip6 :: "inet_fns \<Rightarrow> endian \<Rightarrow> string \<Rightarrow> 16 word \<Rightarrow> sockaddr \<Rightarrow> sockaddr" where
  "setServerAddress_ip6 inet e ip port a =
     (let a1 = (memset_in6 a)\<lparr>sa_family := AF_INET, sa_port := hostToNetwork16 e port\<rparr> in
      case inet_pton6 inet ip of
        Some bs \<Rightarrow> a1\<lparr>sa_data := blit 4 bs (sa_data a1)\<rparr>
      | None \<Rightarrow> a1)"

definition createNonblockingOrDie :: "errno + int \<Rightarrow> int res" where
  "createNonblockingOrDie answer = (case answer of Inl e \<Rightarrow> Inl FatalAbort | Inr fd \<Rightarrow> Inr fd)"

text \<open>The kernel's \<open>bind\<close> and \<open>connect\<close> get the address and the length that is passed with it.\<close>

definition socket_bind :: "(sockaddr \<Rightarrow> nat \<Rightarrow> bool) \<Rightarrow> sockaddr \<Rightarrow> unit res" where
  "socket_bind kernel_bind a = (if kernel_bind a 16 then Inr () else Inl FatalAbort)"

definition socket_listen :: "bool \<Rightarrow> unit res" where
  "socket_listen accepted = (if accepted then Inr () else Inl FatalAbort)"

fun accept_error_expected :: "errno \<Rightarrow> bool" where
  "accept_error_expected EAGAIN = True"
| "accept_error_expected ECONNABORTED = True"
| "accept_error_expected EINTR = True"
| "accept_error_expected EPROTO = True"
| "accept_error_expected EPERM = True"
| "accept_error_expected EMFILE = True"
| "accept_error_expected e = False"

definition socket_accept :: "errno + int \<Rightarrow> (errno + int) res" where
  "socket_accept answer = (case answer of
       Inl e \<Rightarrow> if accept_error_expected e then Inr (Inl e) else Inl FatalAbort
     | Inr fd \<Rightarrow> Inr (Inr fd))"

definition socket_connect :: "(sockaddr \<Rightarrow> nat \<Rightarrow> errno option) \<Rightarrow> sockaddr \<Rightarrow> errno option" where
  "socket_connect kernel_connect a = kernel_connect a 28"

text \<open>
  The text is built in an uninitialised array that \<open>inet_ntop\<close> fills; for a family that is
  neither IPv4 nor IPv6 the array is read as it is.
\<close>

definition getIp :: "inet_fns \<Rightarrow> sockaddr \<Rightarrow> string res" where
  "getIp inet a =
     (if sa_family a = AF_INET then Inr (inet_ntop4 inet (sin_addr a))
      else if sa_family a = AF_INET6 then Inr (inet_ntop6 inet (sin6_addr a))
      else Inl MemoryError)"

definition getPort :: "endian \<Rightarrow> sockaddr \<Rightarrow> 16 word" where
  "getPort e a = betoh e (sa_port a)"

text \<open>\<open>snprintf\<close> into an array of \<open>n\<close> bytes keeps the first \<open>n - 1\<close> characters.\<close>

definition getIpAndPort :: "inet_fns \<Rightarrow> endian \<Rightarrow> sockaddr \<Rightarrow> string res" where
  "getIpAndPort inet e a =
     bindR (getIp inet a) (\<lambda>ip. Inr (ip @ take 11 ('':'' @ dec_digits (unat (getPort e a)))))"

text \<open>\<open>getsockname\<close> and \<open>getpeername\<close> overwrite a zeroed address when they succeed.\<close>

definition getLocalAddr :: "sockaddr option \<Rightarrow> sockaddr" where
  "getLocalAddr answer = (case answer of
      Some a \<Rightarrow> a
    | None \<Rightarrow> \<lparr>sa_family = 0, sa_port = 0, sa_data = replicate 24 zero_byte\<rparr>)"

definition getPeerAddr :: "sockaddr option \<Rightarrow> sockaddr" where
  "getPeerAddr answer = (case answer of
      Some a \<Rightarrow> a
    | None \<Rightarrow> \<lparr>sa_family = 0, sa_port = 0, sa_data = replicate 24 zero_byte\<rparr>)"

definition isSelfConnect :: "sockaddr option \<Rightarrow> sockaddr option \<Rightarrow> bool" where
  "isSelfConnect sockname peername =
     (let localaddr = getLocalAddr sockname; peeraddr = getPeerAddr peername in
      if sa_family localaddr = AF_INET
      then sa_port localaddr = sa_port peeraddr \<and> sin_addr localaddr = sin_addr peeraddr
      else if sa_family localaddr = AF_INET6
      then sa_port localaddr = sa_port peeraddr \<and> sin6_addr localaddr = sin6_addr peeraddr
      else False)"

definition getSocketError :: "errno + int \<Rightarrow> errno + int" where
  "getSocketError answer = (case answer of Inl errno \<Rightarrow> Inl errno | Inr optval \<Rightarrow> Inr optval)"

section \<open>HostAddress\<close>

text \<open>\<open>mem\<close> is the memory of the union before the constructor runs.\<close>

definition HostAddress_port :: "endian \<Rightarrow> sockaddr \<Rightarrow> 16 word \<Rightarrow> bool \<Rightarrow> bool \<Rightarrow> sockaddr" where
  "HostAddress_port e mem port loopbackOnly ipv6 =
     (if ipv6 then setServerAddress_in6 e port loopbackOnly mem
      else setServerAddress_in e port loopbackOnly mem)"

definition HostAddress_ip :: "inet_fns \<Rightarrow> endian \<Rightarrow> sockaddr \<Rightarrow> string \<Rightarrow> 16 word \<Rightarrow> bool \<Rightarrow> sockaddr" where
  "HostAddress_ip inet e mem ip port ipv6 =
     (if ipv6 then setServerAddress_ip6 inet e ip port mem
      else setServerAddress_ip inet e ip port mem)"

definition HostAddress_of_in :: "sockaddr \<Rightarrow> sockaddr \<Rightarrow> sockaddr" where
  "HostAddress_of_in mem addr = addr\<lparr>sa_data := blit 0 (take 12 (sa_data addr)) (sa_data mem)\<rparr>"

definition HostAddress_of_in6 :: "sockaddr \<Rightarrow> sockaddr" where
  "HostAddress_of_in6 addr = addr"

definition address_eq :: "inet_fns \<Rightarrow> endian \<Rightarrow> sockaddr \<Rightarrow> sockaddr \<Rightarrow> bool res" where
  "address_eq inet e a b =
     (if sa_family a \<noteq> sa_family b then Inr False
      else bindR (getIpAndPort inet e a) (\<lambda>x. bindR (getIpAndPort inet e b) (\<lambda>y. Inr (x = y))))"

definition address_neq :: "inet_fns \<Rightarrow> endian \<Rightarrow> sockaddr \<Rightarrow> sockaddr \<Rightarrow> bool res" where
  "address_neq inet e a b = bindR (address_eq inet e a b) (\<lambda>eq. Inr (\<not> eq))"

definition host_family :: "sockaddr \<Rightarrow> nat" where
  "host_family a = sa_family a"

definition host_ip :: "inet_fns \<Rightarrow> sockaddr \<Rightarrow> string res" where
  "host_ip inet a = getIp inet a"

definition host_port :: "endian \<Rightarrow> sockaddr \<Rightarrow> 16 word" where
  "host_port e a = getPort e a"

definition host_ipAndPort :: "inet_fns \<Rightarrow> endian \<Rightarrow> sockaddr \<Rightarrow> string res" where
  "host_ipAndPort inet e a = getIpAndPort inet e a"

definition setSockAddrInet6 :: "sockaddr \<Rightarrow> sockaddr \<Rightarrow> sockaddr" where
  "setSockAddrInet6 addr6 a = addr6"

fun find_address :: "inet_fns \<Rightarrow> endian \<Rightarrow> sockaddr \<Rightarrow> sockaddr list \<Rightarrow> bool res" where
  "find_address inet e info [] = Inr False"
| "find_address inet e info (x # xs) =
     bindR (address_eq inet e x info) (\<lambda>eq. if eq then Inr True else find_address inet e info xs)"

definition resolve_add :: "inet_fns \<Rightarrow> endian \<Rightarrow> sockaddr \<Rightarrow> sockaddr list \<Rightarrow> sockaddr list res" where
  "resolve_add inet e info infos =
     bindR (find_address inet e info infos) (\<lambda>found. Inr (if found then infos else infos @ [info]))"

fun resolve_nodes :: "inet_fns \<Rightarrow> endian \<Rightarrow> sockaddr \<Rightarrow> (nat \<times> sockaddr) list \<Rightarrow> sockaddr list \<Rightarrow> sockaddr list res" where
  "resolve_nodes inet e mem [] infos = Inr infos"
| "resolve_nodes inet e mem ((family, addr) # nodes) infos =
     bindR (if family = AF_INET then resolve_add inet e (HostAddress_of_in mem addr) infos
            else if family = AF_INET6 then resolve_add inet e (HostAddress_of_in6 addr) infos
            else Inr infos)
       (\<lambda>infos1. resolve_nodes inet e mem nodes infos1)"

definition resolve :: "inet_fns \<Rightarrow> endian \<Rightarrow> sockaddr \<Rightarrow> int + (nat \<times> sockaddr) list \<Rightarrow> sockaddr list res" where
  "resolve inet e mem answer = (case answer of Inl err \<Rightarrow> Inr [] | Inr nodes \<Rightarrow> resolve_nodes inet e mem nodes [])"

section \<open>Socket\<close>

definition Socket_bindAddress :: "(sockaddr \<Rightarrow> nat \<Rightarrow> bool) \<Rightarrow> sockaddr \<Rightarrow> unit res" where
  "Socket_bindAddress kernel_bind a = socket_bind kernel_bind a"

text \<open>\<open>addr6\<close> is what the kernel writes into the zeroed address when it accepts.\<close>

definition Socket_accept :: "errno + int \<Rightarrow> sockaddr \<Rightarrow> sockaddr \<Rightarrow> ((errno + int) \<times> sockaddr) res" where
  "Socket_accept answer addr6 peeraddr =
     bindR (socket_accept answer) (\<lambda>r.
       Inr (r, case r of Inr connfd \<Rightarrow> if 0 < connfd then setSockAddrInet6 addr6 peeraddr else peeraddr
                       | Inl e \<Rightarrow> peeraddr))"

section \<open>Addresses are read back\<close>

lemma getPort_hostToNetwork16 [simp]: "getPort e \<lparr>sa_family = f, sa_port = hostToNetwork16 e p, sa_data = d\<rparr> = p"
  by (simp add: getPort_def hostToNetwork16_def)

lemma port_text: "take 11 ('':'' @ dec_digits (unat (p :: 16 word))) = '':'' @ dec_digits (unat p)"
proof -
  have "unat p < 10 ^ 5" using unsigned_less [of p, where ?'a = nat] by simp
  then have "length (dec_digits (unat p)) \<le> 5" by (rule length_dec_digits) simp
  then show ?thesis by simp
qed

lemma sin_addr_blit [simp]:
  "length bs = 4 \<Longrightarrow> sin_addr \<lparr>sa_family = f, sa_port = p, sa_data = blit 0 bs d\<rparr> = bs"
  by (simp add: sin_addr_def blit_def)

lemma sin6_addr_blit [simp]:
  "length bs = 16 \<Longrightarrow> 4 \<le> length d \<Longrightarrow> sin6_addr \<lparr>sa_family = f, sa_port = p, sa_data = blit 4 bs d\<rparr> = bs"
  by (simp add: sin6_addr_def blit_def)

lemmas address_defs = HostAddress_ip_def HostAddress_port_def setServerAddress_ip_def setServerAddress_ip6_def
  setServerAddress_in_def setServerAddress_in6_def memset_in_def memset_in6_def Let_def

lemma le_bytes_numeral: "le_bytes (numeral k) v = char_of v # le_bytes (pred_numeral k) (v div 256)"
  by (simp only: numeral_eq_Suc [of k] le_bytes.simps)

lemma inaddr_bytes:
  "mem_of e (htobe e INADDR_LOOPBACK) = [CHR 0x7F, CHR 0x00, CHR 0x00, CHR 0x01]"
  "mem_of e (htobe e INADDR_ANY) = [CHR 0x00, CHR 0x00, CHR 0x00, CHR 0x00]"
proof -
  have l: "8 dvd LENGTH(32)" by simp
  show "mem_of e (htobe e INADDR_LOOPBACK) = [CHR 0x7F, CHR 0x00, CHR 0x00, CHR 0x01]"
    unfolding mem_of_htobe [OF l]
    by (simp add: INADDR_LOOPBACK_def INADDR_ANY_def be_bytes_def le_bytes_numeral char_of_eq_iff)
  show "mem_of e (htobe e INADDR_ANY) = [CHR 0x00, CHR 0x00, CHR 0x00, CHR 0x00]"
    unfolding mem_of_htobe [OF l]
    by (simp add: INADDR_LOOPBACK_def INADDR_ANY_def be_bytes_def le_bytes_numeral char_of_eq_iff)
qed

definition addr_text :: "string \<Rightarrow> 16 word \<Rightarrow> string" where
  "addr_text ip port = ip @ '':'' @ dec_digits (unat port)"

text \<open>
  C36. An address built from an IPv4 text, or from a port alone for IPv4 or IPv6, is read back as
  the same address and port, on a host of either byte order and whatever the memory held
  before; \<open>inet_pton\<close> is only assumed to write the 4 bytes of an IPv4 address.
\<close>

theorem host_address_roundtrip:
  assumes "\<And>s b. inet_pton4 inet s = Some b \<Longrightarrow> length b = 4" and "inet_pton4 inet ip = Some bs"
  shows "getIpAndPort inet e (HostAddress_ip inet e mem ip port False)
           = Inr (addr_text (inet_ntop4 inet bs) port) \<and>
         getIpAndPort inet e (HostAddress_port e mem port loopback False)
           = Inr (addr_text (inet_ntop4 inet (if loopback then [CHR 0x7F, CHR 0x00, CHR 0x00, CHR 0x01]
                                              else [CHR 0x00, CHR 0x00, CHR 0x00, CHR 0x00])) port) \<and>
         getIpAndPort inet e (HostAddress_port e mem port loopback True)
           = Inr (addr_text (inet_ntop6 inet (if loopback then in6addr_loopback else in6addr_any)) port)"
proof (intro conjI)
  have "length bs = 4" using assms by blast
  with assms(2) show "getIpAndPort inet e (HostAddress_ip inet e mem ip port False)
      = Inr (addr_text (inet_ntop4 inet bs) port)"
    by (simp add: address_defs getIpAndPort_def getIp_def addr_text_def port_text [simplified])
  show "getIpAndPort inet e (HostAddress_port e mem port loopback False)
      = Inr (addr_text (inet_ntop4 inet (if loopback then [CHR 0x7F, CHR 0x00, CHR 0x00, CHR 0x01]
                                              else [CHR 0x00, CHR 0x00, CHR 0x00, CHR 0x00])) port)"
    by (simp add: address_defs getIpAndPort_def getIp_def addr_text_def inaddr_bytes port_text [simplified])
  have "length in6addr_loopback = 16" "length in6addr_any = 16"
    by (simp_all add: in6addr_loopback_def in6addr_any_def)
  then show "getIpAndPort inet e (HostAddress_port e mem port loopback True)
      = Inr (addr_text (inet_ntop6 inet (if loopback then in6addr_loopback else in6addr_any)) port)"
    by (simp add: address_defs getIpAndPort_def getIp_def addr_text_def AF_INET_def AF_INET6_def port_text [simplified])
qed

text \<open>A small instance of the conversions, with dotted decimal output.\<close>

definition dotted :: "char list \<Rightarrow> string" where
  "dotted bs = (case map (\<lambda>b. dec_digits (of_char b)) bs of
     [] \<Rightarrow> [] | d # ds \<Rightarrow> d @ concat (map (\<lambda>x. ''.'' @ x) ds))"

definition sample_inet :: inet_fns where
  "sample_inet = \<lparr>inet_pton4 = (\<lambda>s. if s = ''10.0.0.7'' then Some (map char_of [10, 0, 0, 7 :: nat]) else None),
     inet_pton6 = (\<lambda>s. if s = ''::1'' then Some in6addr_loopback else None),
     inet_ntop4 = dotted, inet_ntop6 = (\<lambda>bs. if bs = in6addr_loopback then ''::1'' else ''::'')\<rparr>"

theorem host_address_roundtrip_witness:
  "getIpAndPort sample_inet LittleEndian
     (HostAddress_ip sample_inet LittleEndian
        \<lparr>sa_family = 7, sa_port = 9, sa_data = replicate 24 CHR ''x''\<rparr> ''10.0.0.7'' 8080 False)
   = Inr ''10.0.0.7:8080''"
proof -
  have "inet_pton4 sample_inet ''10.0.0.7'' = Some (map char_of [10, 0, 0, 7 :: nat])"
    by (simp add: sample_inet_def)
  moreover have "addr_text (inet_ntop4 sample_inet (map char_of [10, 0, 0, 7 :: nat])) 8080 = ''10.0.0.7:8080''"
    by (simp add: addr_text_def sample_inet_def dotted_def dec_digits.simps char_of_eq_iff)
  moreover have "\<And>s b. inet_pton4 sample_inet s = Some b \<Longrightarrow> length b = 4"
    by (auto simp: sample_inet_def split: if_splits)
  ultimately show ?thesis
    using host_address_roundtrip [of sample_inet "''10.0.0.7''" "map char_of [10, 0, 0, 7 :: nat]" LittleEndian] by simp
qed

text \<open>
  An IPv6 text is stored under the family \<open>AF_INET\<close> and is therefore read back as the IPv4
  address of its zero flow label.
\<close>

lemma ip6_text_read_as_ip4:
  assumes "inet_pton6 inet ip = Some bs" and "length bs = 16"
  shows "sa_family (HostAddress_ip inet e mem ip port True) = AF_INET \<and>
         getIp inet (HostAddress_ip inet e mem ip port True)
           = Inr (inet_ntop4 inet [CHR 0x00, CHR 0x00, CHR 0x00, CHR 0x00])"
  using assms
  by (simp add: address_defs getIp_def sin_addr_def blit_def zero_byte_def numeral_eq_Suc)

text \<open>\<open>bind\<close> passes the length of a \<open>sockaddr_in\<close>; a kernel that refuses a short IPv6 address ends the process.\<close>

lemma bind_inet6_aborts:
  assumes "\<And>a len. sa_family a = AF_INET6 \<Longrightarrow> len < 24 \<Longrightarrow> \<not> kernel_bind a len"
  shows "Socket_bindAddress kernel_bind (HostAddress_port e mem port loopback True) = Inl FatalAbort"
  using assms [of _ 16] by (simp add: Socket_bindAddress_def socket_bind_def address_defs)

section \<open>Resolving\<close>

text \<open>Two addresses are equal for \<open>operator==\<close> when their families and texts are.\<close>

definition known_family :: "sockaddr \<Rightarrow> bool" where
  "known_family a \<longleftrightarrow> sa_family a = AF_INET \<or> sa_family a = AF_INET6"

definition addr_key :: "inet_fns \<Rightarrow> endian \<Rightarrow> sockaddr \<Rightarrow> nat \<times> string res" where
  "addr_key inet e a = (sa_family a, getIpAndPort inet e a)"

lemma address_eq_key:
  "known_family a \<Longrightarrow> known_family b \<Longrightarrow> address_eq inet e a b = Inr (addr_key inet e a = addr_key inet e b)"
  by (auto simp: address_eq_def addr_key_def known_family_def getIpAndPort_def getIp_def)

lemma find_address_key:
  "known_family a \<Longrightarrow> list_all known_family xs \<Longrightarrow>
     find_address inet e a xs = Inr (addr_key inet e a \<in> addr_key inet e ` set xs)"
  by (induction xs) (auto simp: address_eq_key)

definition node_addr :: "sockaddr \<Rightarrow> nat \<times> sockaddr \<Rightarrow> sockaddr" where
  "node_addr mem n = (if fst n = AF_INET then HostAddress_of_in mem (snd n) else HostAddress_of_in6 (snd n))"

definition keep_first :: "'a list \<Rightarrow> 'a list" where
  "keep_first xs = rev (remdups (rev xs))"

lemma keep_first_snoc: "keep_first (xs @ [x]) = (if x \<in> set xs then keep_first xs else keep_first xs @ [x])"
  by (simp add: keep_first_def)

lemma set_keep_first [simp]: "set (keep_first xs) = set xs" "distinct (keep_first xs)"
  by (simp_all add: keep_first_def)

lemma resolve_add_key:
  assumes "known_family a" and "list_all known_family xs"
  shows "resolve_add inet e a xs =
           Inr (if addr_key inet e a \<in> addr_key inet e ` set xs then xs else xs @ [a])"
  using assms by (simp add: resolve_add_def find_address_key)

lemma resolve_nodes_key:
  assumes "list_all (\<lambda>n. (fst n = AF_INET \<or> fst n = AF_INET6) \<and> sa_family (snd n) = fst n) nodes"
    and "list_all known_family xs" and "map (addr_key inet e) xs = keep_first seen"
  shows "\<exists>infos. resolve_nodes inet e mem nodes xs = Inr infos \<and> list_all known_family infos \<and>
           map (addr_key inet e) infos = keep_first (seen @ map (addr_key inet e \<circ> node_addr mem) nodes)"
  using assms
proof (induction nodes arbitrary: xs seen)
  case Nil
  then show ?case by simp
next
  case (Cons n nodes)
  let ?a = "node_addr mem n"
  have ka: "known_family ?a" using Cons.prems(1)
    by (cases n) (auto simp: node_addr_def known_family_def HostAddress_of_in_def HostAddress_of_in6_def AF_INET_def AF_INET6_def)
  let ?xs = "if addr_key inet e ?a \<in> addr_key inet e ` set xs then xs else xs @ [?a]"
  have mem: "addr_key inet e ` set xs = set seen" using Cons.prems(3) by (metis list.set_map set_keep_first(1))
  have "resolve_nodes inet e mem (n # nodes) xs = resolve_nodes inet e mem nodes ?xs"
    using Cons.prems(1) resolve_add_key [OF ka Cons.prems(2), of inet e]
    by (cases n) (auto simp: node_addr_def AF_INET_def AF_INET6_def)
  moreover have "list_all known_family ?xs" using Cons.prems(2) ka by auto
  moreover have "map (addr_key inet e) ?xs = keep_first (seen @ [addr_key inet e ?a])"
    using Cons.prems(3) mem by (simp add: keep_first_snoc)
  ultimately show ?case using Cons.IH [of ?xs "seen @ [addr_key inet e ?a]"] Cons.prems(1) by simp
qed

text \<open>
  Resolving a host name returns every IPv4 and IPv6 address the resolver lists exactly once,
  in the order of its first appearance, where two addresses count as the same when
  \<open>operator==\<close> says so.
\<close>

theorem resolve_unique:
  assumes "list_all (\<lambda>n. (fst n = AF_INET \<or> fst n = AF_INET6) \<and> sa_family (snd n) = fst n) nodes"
  shows "\<exists>infos. resolve inet e mem (Inr nodes) = Inr infos \<and>
           map (addr_key inet e) infos = keep_first (map (addr_key inet e \<circ> node_addr mem) nodes) \<and>
           distinct (map (addr_key inet e) infos)"
  using resolve_nodes_key [OF assms, of "[]" inet e "[]" mem]
  by (auto simp: resolve_def keep_first_def)

theorem resolve_unique_witness:
  "\<exists>infos. resolve sample_inet BigEndian \<lparr>sa_family = 0, sa_port = 0, sa_data = replicate 24 CHR ''x''\<rparr>
       (Inr [(2, \<lparr>sa_family = 2, sa_port = 80, sa_data = replicate 12 CHR 0x07\<rparr>),
             (2, \<lparr>sa_family = 2, sa_port = 80, sa_data = replicate 12 CHR 0x07\<rparr>)]) = Inr infos \<and>
     distinct (map (addr_key sample_inet BigEndian) infos)"
  using resolve_unique [of "[(2, \<lparr>sa_family = 2, sa_port = 80, sa_data = replicate 12 CHR 0x07\<rparr>),
             (2, \<lparr>sa_family = 2, sa_port = 80, sa_data = replicate 12 CHR 0x07\<rparr>)]" sample_inet BigEndian]
  by (auto simp: AF_INET_def)

end
