(* ===== verification/Net_Socket.thy ===== *)
theory Net_Socket
  imports Net_Address
begin

text \<open>
  \<open>net/Socket\<close>: the object that owns a descriptor, its options, \<open>shutdown\<close>, \<open>close\<close>, and the kernel's
  \<open>TCP_INFO\<close> as text, also through \<open>net/TcpConnection\<close>. The kernel is a table of open descriptors together
  with the calls it refuses. The theorems show that an object touches its own descriptor
  only, that options take effect unless the kernel refuses them, that the descriptor
  is closed by the destructor, and that the text is never cut off.
\<close>

section \<open>The kernel's descriptors\<close>

datatype sockopt = TCP_NODELAY | SO_REUSEADDR | SO_REUSEPORT | SO_KEEPALIVE

record ksock =
  ks_options :: "sockopt \<Rightarrow> int"
  ks_listening :: bool
  ks_shut_wr :: bool

record sock_kernel =
  sk_table :: "int \<Rightarrow> ksock option"
  sk_refuses :: "int \<Rightarrow> sockopt \<Rightarrow> bool"
  sk_refuses_listen :: "int \<Rightarrow> bool"
  sk_connected :: "int \<Rightarrow> bool"
  sk_errors :: "string list"

definition log_error :: "string \<Rightarrow> sock_kernel \<Rightarrow> sock_kernel" where
  "log_error s k = k\<lparr>sk_errors := sk_errors k @ [s]\<rparr>"

definition setsockopt :: "int \<Rightarrow> sockopt \<Rightarrow> int \<Rightarrow> sock_kernel \<Rightarrow> int \<times> sock_kernel" where
  "setsockopt fd opt v k = (case sk_table k fd of
       Some s \<Rightarrow> if sk_refuses k fd opt then (-1, k)
                 else (0, k\<lparr>sk_table := (sk_table k)(fd \<mapsto> s\<lparr>ks_options := (ks_options s)(opt := v)\<rparr>)\<rparr>)
     | None \<Rightarrow> (-1, k))"

text \<open>\<open>SocketFunc::shutdownWrite\<close>, \<open>SocketFunc::close\<close> and \<open>SocketFunc::listen\<close>.\<close>

definition socket_shutdownWrite :: "int \<Rightarrow> sock_kernel \<Rightarrow> sock_kernel" where
  "socket_shutdownWrite fd k = (case sk_table k fd of
       Some s \<Rightarrow> if sk_connected k fd then k\<lparr>sk_table := (sk_table k)(fd \<mapsto> s\<lparr>ks_shut_wr := True\<rparr>)\<rparr>
                 else log_error ''SocketFunc::shutdownWrite'' k
     | None \<Rightarrow> log_error ''SocketFunc::shutdownWrite'' k)"

definition socket_close :: "int \<Rightarrow> sock_kernel \<Rightarrow> sock_kernel" where
  "socket_close fd k =
     (if 0 < fd
      then (case sk_table k fd of Some s \<Rightarrow> k\<lparr>sk_table := (sk_table k)(fd := None)\<rparr>
                                | None \<Rightarrow> log_error ''SocketFunc::close'' k)
      else k)"

definition kernel_listen :: "int \<Rightarrow> sock_kernel \<Rightarrow> bool \<times> sock_kernel" where
  "kernel_listen fd k = (case sk_table k fd of
       Some s \<Rightarrow> if sk_refuses_listen k fd then (False, k)
                 else (True, k\<lparr>sk_table := (sk_table k)(fd \<mapsto> s\<lparr>ks_listening := True\<rparr>)\<rparr>)
     | None \<Rightarrow> (False, k))"

section \<open>Socket\<close>

record sock_obj =
  m_sockfd :: int

definition new_Socket :: "int \<Rightarrow> sock_obj" where
  "new_Socket sockfd = \<lparr>m_sockfd = sockfd\<rparr>"

definition destroy_Socket :: "sock_obj \<Rightarrow> sock_kernel \<Rightarrow> sock_kernel" where
  "destroy_Socket s k = socket_close (m_sockfd s) k"

definition Socket_listen :: "sock_obj \<Rightarrow> sock_kernel \<Rightarrow> sock_kernel res" where
  "Socket_listen s k =
     (let (accepted, k1) = kernel_listen (m_sockfd s) k in bindR (socket_listen accepted) (\<lambda>u. Inr k1))"

definition Socket_shutdownWrite :: "sock_obj \<Rightarrow> sock_kernel \<Rightarrow> sock_kernel" where
  "Socket_shutdownWrite s k = socket_shutdownWrite (m_sockfd s) k"

definition setTcpNoDelay :: "bool \<Rightarrow> sock_obj \<Rightarrow> sock_kernel \<Rightarrow> sock_kernel" where
  "setTcpNoDelay on s k = snd (setsockopt (m_sockfd s) TCP_NODELAY (if on then 1 else 0) k)"

definition setReuseAddr :: "bool \<Rightarrow> sock_obj \<Rightarrow> sock_kernel \<Rightarrow> sock_kernel" where
  "setReuseAddr on s k = snd (setsockopt (m_sockfd s) SO_REUSEADDR (if on then 1 else 0) k)"

text \<open>As compiled where the system has \<open>SO_REUSEPORT\<close>.\<close>

definition setReusePort :: "bool \<Rightarrow> sock_obj \<Rightarrow> sock_kernel \<Rightarrow> sock_kernel" where
  "setReusePort on s k =
     (let (ret, k1) = setsockopt (m_sockfd s) SO_REUSEPORT (if on then 1 else 0) k in
      if ret < 0 \<and> on then log_error ''SO_REUSEPORT failed.'' k1 else k1)"

definition setKeepAlive :: "bool \<Rightarrow> sock_obj \<Rightarrow> sock_kernel \<Rightarrow> sock_kernel" where
  "setKeepAlive on s k = snd (setsockopt (m_sockfd s) SO_KEEPALIVE (if on then 1 else 0) k)"

section \<open>The operations of an object\<close>

datatype sock_op = OpNoDelay bool | OpReuseAddr bool | OpReusePort bool | OpKeepAlive bool | OpShutdownWrite

fun sock_do :: "sock_obj \<Rightarrow> sock_op \<Rightarrow> sock_kernel \<Rightarrow> sock_kernel" where
  "sock_do s (OpNoDelay on) k = setTcpNoDelay on s k"
| "sock_do s (OpReuseAddr on) k = setReuseAddr on s k"
| "sock_do s (OpReusePort on) k = setReusePort on s k"
| "sock_do s (OpKeepAlive on) k = setKeepAlive on s k"
| "sock_do s OpShutdownWrite k = Socket_shutdownWrite s k"

fun sets_option :: "sock_op \<Rightarrow> (sockopt \<times> bool) option" where
  "sets_option (OpNoDelay on) = Some (TCP_NODELAY, on)"
| "sets_option (OpReuseAddr on) = Some (SO_REUSEADDR, on)"
| "sets_option (OpReusePort on) = Some (SO_REUSEPORT, on)"
| "sets_option (OpKeepAlive on) = Some (SO_KEEPALIVE, on)"
| "sets_option OpShutdownWrite = None"

text \<open>What an operation makes of the options: an abstract socket is the values of its options.\<close>

definition spec_option :: "(sockopt \<Rightarrow> bool) \<Rightarrow> (sockopt \<Rightarrow> int) \<Rightarrow> sock_op \<Rightarrow> sockopt \<Rightarrow> int" where
  "spec_option refused os op = (case sets_option op of
       Some (opt, on) \<Rightarrow> if refused opt then os else os(opt := if on then 1 else 0)
     | None \<Rightarrow> os)"

lemmas sock_defs = setTcpNoDelay_def setReuseAddr_def setReusePort_def setKeepAlive_def Socket_shutdownWrite_def
  socket_shutdownWrite_def setsockopt_def log_error_def spec_option_def

lemma sock_do_fixed [simp]:
  "sk_refuses (sock_do s op k) = sk_refuses k" "sk_connected (sock_do s op k) = sk_connected k"
  "sk_refuses_listen (sock_do s op k) = sk_refuses_listen k"
  by (cases op; simp add: sock_defs Let_def split: option.splits)+

lemma sock_do_other: "fd \<noteq> m_sockfd s \<Longrightarrow> sk_table (sock_do s op k) fd = sk_table k fd"
  by (cases op) (simp_all add: sock_defs Let_def split: option.splits)

lemma sock_do_own:
  assumes "sk_table k (m_sockfd s) = Some ks"
  shows "\<exists>ks'. sk_table (sock_do s op k) (m_sockfd s) = Some ks' \<and> ks_listening ks' = ks_listening ks \<and>
    ks_options ks' = spec_option (sk_refuses k (m_sockfd s)) (ks_options ks) op"
  using assms by (cases op) (simp_all add: sock_defs Let_def)

text \<open>
  A socket object and the life of its descriptor: whatever operations are called through it,
  every other descriptor keeps its state; its own stays open, its options being those
  last set and not refused; and the destructor closes it, and nothing else.
\<close>

theorem socket_owns_descriptor:
  assumes "s = new_Socket fd" and "0 < fd" and "sk_table k fd = Some ks" and "k' = fold (sock_do s) ops k"
  shows "(\<exists>ks'. sk_table k' fd = Some ks' \<and> ks_options ks' = foldl (spec_option (sk_refuses k fd)) (ks_options ks) ops) \<and>
    sk_table (destroy_Socket s k') = (sk_table k)(fd := None)"
proof -
  have own: "m_sockfd s = fd" using assms(1) by (simp add: new_Socket_def)
  have "\<exists>ks'. sk_table (fold (sock_do s) ops k) fd = Some ks' \<and>
      ks_options ks' = foldl (spec_option (sk_refuses k fd)) (ks_options ks) ops \<and>
      (\<forall>d. d \<noteq> fd \<longrightarrow> sk_table (fold (sock_do s) ops k) d = sk_table k d)"
    using assms(3)
  proof (induction ops arbitrary: k ks)
    case (Cons op ops)
    from sock_do_own [of k s ks op] own Cons.prems obtain ks1 where
      ks1: "sk_table (sock_do s op k) fd = Some ks1" "ks_options ks1 = spec_option (sk_refuses k fd) (ks_options ks) op" by auto
    from Cons.IH [OF ks1(1)] ks1(2) sock_do_other [of _ s op k] own show ?case by simp
  qed simp
  then obtain ks' where ks': "sk_table k' fd = Some ks'" "ks_options ks' = foldl (spec_option (sk_refuses k fd)) (ks_options ks) ops"
    "\<forall>d. d \<noteq> fd \<longrightarrow> sk_table k' d = sk_table k d" using assms(4) by blast
  have "sk_table (destroy_Socket s k') = (sk_table k)(fd := None)"
    using ks' own assms(2) by (auto simp: destroy_Socket_def socket_close_def)
  with ks' show ?thesis by blast
qed

text \<open>
  \<open>SocketFunc::close\<close> takes 0 for no descriptor although the kernel may hand it out (when the
  standard input is closed), so an object for it leaves it open; \<open>Socket::accept\<close> does not
  report the address of its peer.
\<close>

lemma descriptor_zero_leaks:
  "destroy_Socket (new_Socket 0) k = k" "Socket_accept (Inr 0) addr6 peeraddr = Inr (Inr 0, peeraddr)"
  by (simp_all add: destroy_Socket_def new_Socket_def socket_close_def Socket_accept_def socket_accept_def)

text \<open>Only a refused request to reuse the port is reported.\<close>

lemma setReusePort_reports:
  assumes "sk_table k (m_sockfd s) = Some ks"
  shows "sk_errors (setReusePort on s k) = sk_errors k @ (if on \<and> sk_refuses k (m_sockfd s) SO_REUSEPORT then [''SO_REUSEPORT failed.''] else [])"
  using assms by (simp add: sock_defs Let_def)

section \<open>TCP information\<close>

text \<open>The members of \<open>tcp_info\<close> that are printed; the first one is a byte.\<close>

record tcp_info =
  tcpi_retransmits :: "8 word"
  tcpi_rto :: "32 word"
  tcpi_ato :: "32 word"
  tcpi_snd_mss :: "32 word"
  tcpi_rcv_mss :: "32 word"
  tcpi_lost :: "32 word"
  tcpi_retrans :: "32 word"
  tcpi_rtt :: "32 word"
  tcpi_rttvar :: "32 word"
  tcpi_snd_ssthresh :: "32 word"
  tcpi_snd_cwnd :: "32 word"
  tcpi_total_retrans :: "32 word"

definition zero_tcp_info :: tcp_info where
  "zero_tcp_info = \<lparr>tcpi_retransmits = 0, tcpi_rto = 0, tcpi_ato = 0, tcpi_snd_mss = 0, tcpi_rcv_mss = 0, tcpi_lost = 0,
     tcpi_retrans = 0, tcpi_rtt = 0, tcpi_rttvar = 0, tcpi_snd_ssthresh = 0, tcpi_snd_cwnd = 0, tcpi_total_retrans = 0\<rparr>"

definition getTcpInfo :: "(int \<Rightarrow> tcp_info option) \<Rightarrow> sock_obj \<Rightarrow> bool \<times> tcp_info" where
  "getTcpInfo kernel_info s = (case kernel_info (m_sockfd s) of Some i \<Rightarrow> (True, i) | None \<Rightarrow> (False, zero_tcp_info))"

definition show_u :: "'a::len word \<Rightarrow> string" where
  "show_u w = dec_digits (unat w)"

definition tcp_info_text :: "tcp_info \<Rightarrow> string" where
  "tcp_info_text i =
     ''unrecovered='' @ show_u (tcpi_retransmits i) @
     '' rto='' @ show_u (tcpi_rto i) @ '' ato='' @ show_u (tcpi_ato i) @
     '' snd_mss='' @ show_u (tcpi_snd_mss i) @ '' rcv_mss='' @ show_u (tcpi_rcv_mss i) @
     '' lost='' @ show_u (tcpi_lost i) @ '' retrans='' @ show_u (tcpi_retrans i) @
     '' rtt='' @ show_u (tcpi_rtt i) @ '' rttvar='' @ show_u (tcpi_rttvar i) @
     '' sshthresh='' @ show_u (tcpi_snd_ssthresh i) @ '' cwnd='' @ show_u (tcpi_snd_cwnd i) @
     '' total_retrans='' @ show_u (tcpi_total_retrans i)"

text \<open>
  \<open>snprintf(buf, len, ...)\<close> writes at most \<open>len - 1\<close> characters and a NUL, nothing when \<open>len\<close> is 0; to
  write behind the array is a fault.
\<close>

definition snprintf :: "string \<Rightarrow> nat \<Rightarrow> string \<Rightarrow> string res" where
  "snprintf buf len s =
     (let out = (if len = 0 then [] else take (len - 1) s @ [zero_byte]) in
      if length out \<le> length buf then Inr (blit 0 out buf) else Inl MemoryError)"

definition getTcpInfoString :: "(int \<Rightarrow> tcp_info option) \<Rightarrow> string \<Rightarrow> nat \<Rightarrow> sock_obj \<Rightarrow> (bool \<times> string) res" where
  "getTcpInfoString kernel_info buf len s =
     (let (ok, tcpi) = getTcpInfo kernel_info s in
      if ok then bindR (snprintf buf len (tcp_info_text tcpi)) (\<lambda>buf1. Inr (True, buf1)) else Inr (False, buf))"

text \<open>\<open>TcpConnection::getTcpInfoString\<close>: \<open>mem\<close> is the array before it is used; the result ends at the first NUL.\<close>

definition conn_getTcpInfo :: "(int \<Rightarrow> tcp_info option) \<Rightarrow> sock_obj \<Rightarrow> bool \<times> tcp_info" where
  "conn_getTcpInfo kernel_info s = getTcpInfo kernel_info s"

definition conn_getTcpInfoString :: "(int \<Rightarrow> tcp_info option) \<Rightarrow> string \<Rightarrow> sock_obj \<Rightarrow> string res" where
  "conn_getTcpInfoString kernel_info mem s =
     bindR (getTcpInfoString kernel_info (mem[0 := zero_byte]) 1024 s)
       (\<lambda>(ok, buf). if zero_byte \<in> set buf then Inr (takeWhile (\<lambda>c. c \<noteq> zero_byte) buf) else Inl MemoryError)"

definition conn_setTcpNoDelay :: "bool \<Rightarrow> sock_obj \<Rightarrow> sock_kernel \<Rightarrow> sock_kernel" where
  "conn_setTcpNoDelay on s k = setTcpNoDelay on s k"

lemma length_show_u8: "length (show_u (w :: 8 word)) \<le> 3"
  using unsigned_less [of w, where ?'a = nat] by (auto simp: show_u_def intro: length_dec_digits)

lemma length_show_u32: "length (show_u (w :: 32 word)) \<le> 10"
  using unsigned_less [of w, where ?'a = nat] by (auto simp: show_u_def intro: length_dec_digits)

lemma show_u_no_zero [simp]: "CHR 0x00 \<notin> set (show_u w)"
  using dec_digits_value [of "unat w"] by (auto simp: show_u_def list_all_iff is_digit_def)

lemma tcp_info_text_length: "length (tcp_info_text i) \<le> 217"
proof -
  note b = length_show_u32 [of "tcpi_rto i"] length_show_u32 [of "tcpi_ato i"] length_show_u32 [of "tcpi_snd_mss i"]
    length_show_u32 [of "tcpi_rcv_mss i"] length_show_u32 [of "tcpi_lost i"] length_show_u32 [of "tcpi_retrans i"]
    length_show_u32 [of "tcpi_rtt i"] length_show_u32 [of "tcpi_rttvar i"] length_show_u32 [of "tcpi_snd_ssthresh i"]
    length_show_u32 [of "tcpi_snd_cwnd i"] length_show_u32 [of "tcpi_total_retrans i"] length_show_u8 [of "tcpi_retransmits i"]
  then show ?thesis unfolding tcp_info_text_def by simp
qed

lemma tcp_info_text_no_zero: "zero_byte \<notin> set (tcp_info_text i)"
  by (simp add: tcp_info_text_def zero_byte_def)

lemma c_string_snprintf:
  assumes "length s < len" and "len \<le> length buf" and "zero_byte \<notin> set s"
  shows "\<exists>buf1. snprintf buf len s = Inr buf1 \<and> zero_byte \<in> set buf1 \<and> takeWhile (\<lambda>c. c \<noteq> zero_byte) buf1 = s"
  using assms by (auto simp: snprintf_def blit_def Let_def takeWhile_append2 takeWhile_tail)

text \<open>The text of a connection's information is complete, and empty when the kernel has none.\<close>

theorem tcp_info_string_complete:
  assumes "length mem = 1024"
  shows "conn_getTcpInfoString kernel_info mem s =
    Inr (case kernel_info (m_sockfd s) of Some i \<Rightarrow> tcp_info_text i | None \<Rightarrow> [])"
proof (cases "kernel_info (m_sockfd s)")
  case None
  moreover obtain c cs where "mem = c # cs" using assms by (cases mem) auto
  ultimately show ?thesis by (simp add: conn_getTcpInfoString_def getTcpInfoString_def getTcpInfo_def)
next
  case (Some i)
  have "length (tcp_info_text i) < 1024" using tcp_info_text_length [of i] by simp
  from c_string_snprintf [OF this, of "mem[0 := zero_byte]"] assms tcp_info_text_no_zero Some show ?thesis
    by (auto simp: conn_getTcpInfoString_def getTcpInfoString_def getTcpInfo_def)
qed

end
