(* ===== verification/Byte_Queue.thy ===== *)
theory Byte_Queue
  imports Youth_Prelude
begin

text \<open>
  The contract of a byte queue: what a client may rely on when it appends bytes, takes
  bytes from the front, drops everything, takes back the last bytes it wrote or reserves
  space. \<open>net/Buffer\<close> provides it; connections, parsers and codecs are its clients.
\<close>

datatype queue_op = Put string | Get nat | Drain | Unput nat | Reserve nat

text \<open>The abstract queue: \<open>None\<close> when an operation asks for more bytes than there are.\<close>

fun spec_op :: "queue_op \<Rightarrow> string \<Rightarrow> string option" where
  "spec_op (Put d) xs = Some (xs @ d)"
| "spec_op (Get n) xs = (if n \<le> length xs then Some (drop n xs) else None)"
| "spec_op Drain xs = Some []"
| "spec_op (Unput n) xs = (if n \<le> length xs then Some (take (length xs - n) xs) else None)"
| "spec_op (Reserve n) xs = Some xs"

fun spec_queue :: "queue_op list \<Rightarrow> string \<Rightarrow> string option" where
  "spec_queue [] xs = Some xs"
| "spec_queue (q # qs) xs = (case spec_op q xs of None \<Rightarrow> None | Some ys \<Rightarrow> spec_queue qs ys)"

text \<open>The same sequence on an implementation, given its operations.\<close>

fun run_op ::
  "(string \<Rightarrow> 'b \<Rightarrow> 'b res) \<Rightarrow> (nat \<Rightarrow> 'b \<Rightarrow> 'b res) \<Rightarrow> ('b \<Rightarrow> 'b) \<Rightarrow> (nat \<Rightarrow> 'b \<Rightarrow> 'b res) \<Rightarrow>
   (nat \<Rightarrow> 'b \<Rightarrow> 'b res) \<Rightarrow> queue_op \<Rightarrow> 'b \<Rightarrow> 'b res" where
  "run_op put get drain unput reserve (Put d) b = put d b"
| "run_op put get drain unput reserve (Get n) b = get n b"
| "run_op put get drain unput reserve Drain b = Inr (drain b)"
| "run_op put get drain unput reserve (Unput n) b = unput n b"
| "run_op put get drain unput reserve (Reserve n) b = reserve n b"

fun run_queue ::
  "(string \<Rightarrow> 'b \<Rightarrow> 'b res) \<Rightarrow> (nat \<Rightarrow> 'b \<Rightarrow> 'b res) \<Rightarrow> ('b \<Rightarrow> 'b) \<Rightarrow> (nat \<Rightarrow> 'b \<Rightarrow> 'b res) \<Rightarrow>
   (nat \<Rightarrow> 'b \<Rightarrow> 'b res) \<Rightarrow> queue_op list \<Rightarrow> 'b \<Rightarrow> 'b res" where
  "run_queue put get drain unput reserve [] b = Inr b"
| "run_queue put get drain unput reserve (q # qs) b =
     bindR (run_op put get drain unput reserve q b) (run_queue put get drain unput reserve qs)"

locale byte_queue =
  fixes inv :: "'b \<Rightarrow> bool"
    and abs :: "'b \<Rightarrow> string"
    and put :: "string \<Rightarrow> 'b \<Rightarrow> 'b res"
    and get :: "nat \<Rightarrow> 'b \<Rightarrow> 'b res"
    and drain :: "'b \<Rightarrow> 'b"
    and unput :: "nat \<Rightarrow> 'b \<Rightarrow> 'b res"
    and reserve :: "nat \<Rightarrow> 'b \<Rightarrow> 'b res"
  assumes put_returns: "inv b \<Longrightarrow> returns (put d b) (\<lambda>b'. inv b' \<and> abs b' = abs b @ d)"
    and get_returns: "inv b \<Longrightarrow> n \<le> length (abs b) \<Longrightarrow>
      returns (get n b) (\<lambda>b'. inv b' \<and> abs b' = drop n (abs b))"
    and get_fault: "inv b \<Longrightarrow> length (abs b) < n \<Longrightarrow> get n b = Inl AssertFailed"
    and drain: "inv b \<Longrightarrow> inv (drain b) \<and> abs (drain b) = []"
    and unput_returns: "inv b \<Longrightarrow> n \<le> length (abs b) \<Longrightarrow>
      returns (unput n b) (\<lambda>b'. inv b' \<and> abs b' = take (length (abs b) - n) (abs b))"
    and unput_fault: "inv b \<Longrightarrow> length (abs b) < n \<Longrightarrow> unput n b = Inl AssertFailed"
    and reserve_returns: "inv b \<Longrightarrow> returns (reserve n b) (\<lambda>b'. inv b' \<and> abs b' = abs b)"
begin

lemma op_refines:
  assumes "inv b"
  shows "case spec_op q (abs b) of
      None \<Rightarrow> run_op put get drain unput reserve q b = Inl AssertFailed
    | Some ys \<Rightarrow> returns (run_op put get drain unput reserve q b) (\<lambda>b'. inv b' \<and> abs b' = ys)"
  using put_returns [OF assms] get_returns [OF assms] get_fault [OF assms] drain [OF assms]
    unput_returns [OF assms] unput_fault [OF assms] reserve_returns [OF assms]
  by (cases q) auto

lemma run_refines:
  assumes "inv b"
  shows "case spec_queue qs (abs b) of
      None \<Rightarrow> run_queue put get drain unput reserve qs b = Inl AssertFailed
    | Some ys \<Rightarrow> returns (run_queue put get drain unput reserve qs b) (\<lambda>b'. inv b' \<and> abs b' = ys)"
  using assms
proof (induction qs arbitrary: b)
  case Nil
  then show ?case by simp
next
  case (Cons q qs)
  note step = op_refines [OF Cons.prems, of q]
  show ?case
  proof (cases "spec_op q (abs b)")
    case None
    with step show ?thesis by simp
  next
    case (Some ys)
    with step obtain b' where "run_op put get drain unput reserve q b = Inr b'" "inv b'" "abs b' = ys"
      by (auto elim: returnsE)
    with Some Cons.IH [of b'] show ?thesis by (simp split: option.splits)
  qed
qed

text \<open>A client that only ever puts chunks and takes \<open>n\<close> bytes sees their concatenation in order.\<close>

lemma puts_in_order:
  assumes "inv b"
  shows "returns (run_queue put get drain unput reserve (map Put ds) b)
    (\<lambda>b'. inv b' \<and> abs b' = abs b @ concat ds)"
proof -
  have "spec_queue (map Put ds) xs = Some (xs @ concat ds)" for xs
    by (induction ds arbitrary: xs) auto
  with run_refines [OF assms, of "map Put ds"] show ?thesis by simp
qed

end

end
