(* ===== verification/Net_Buffer.thy ===== *)
theory Net_Buffer
  imports Socket_Func Byte_Queue
begin

text \<open>
  \<open>net/Buffer.h\<close> and \<open>net/Buffer.cpp\<close>: a byte queue in one vector, with a reader and a
  writer index and a prependable area in front. A \<open>const char*\<close> into the vector is its
  index. \<open>size_t\<close> is \<open>nat\<close>: every size is bounded by the length of a live vector. A
  failed \<open>assert\<close> is \<open>Inl AssertFailed\<close>.
\<close>

section \<open>The vector and its indices\<close>

record buffer =
  bufferVec :: "char list"
  readerIndex :: nat
  writerIndex :: nat

definition kCheapPrepend :: nat where
  "kCheapPrepend = 8"

definition kInitialSize :: nat where
  "kInitialSize = 1024"

definition kCRLF :: string where
  "kCRLF = [CHR 0x0D, CHR 0x0A]"

definition new_Buffer :: "nat \<Rightarrow> buffer" where
  "new_Buffer initialSize =
     \<lparr>bufferVec = replicate (kCheapPrepend + initialSize) (CHR 0x00),
      readerIndex = kCheapPrepend, writerIndex = kCheapPrepend\<rparr>"

definition swap_Buffer :: "buffer \<Rightarrow> buffer \<Rightarrow> buffer \<times> buffer" where
  "swap_Buffer this rhs =
     (\<lparr>bufferVec = bufferVec rhs, readerIndex = readerIndex rhs, writerIndex = writerIndex rhs\<rparr>,
      \<lparr>bufferVec = bufferVec this, readerIndex = readerIndex this, writerIndex = writerIndex this\<rparr>)"

definition readableBytes :: "buffer \<Rightarrow> nat" where
  "readableBytes b = writerIndex b - readerIndex b"

definition writableBytes :: "buffer \<Rightarrow> nat" where
  "writableBytes b = length (bufferVec b) - writerIndex b"

definition prependableBytes :: "buffer \<Rightarrow> nat" where
  "prependableBytes b = readerIndex b"

definition peek :: "buffer \<Rightarrow> nat" where
  "peek b = readerIndex b"

definition beginWrite :: "buffer \<Rightarrow> nat" where
  "beginWrite b = writerIndex b"

text \<open>The bytes a pointer range \<open>[p, q)\<close> of the vector covers.\<close>

definition bytes_between :: "buffer \<Rightarrow> nat \<Rightarrow> nat \<Rightarrow> char list" where
  "bytes_between b p q = take (q - p) (drop p (bufferVec b))"

definition contents :: "buffer \<Rightarrow> char list" where
  "contents b = bytes_between b (peek b) (beginWrite b)"

definition toStringPiece :: "buffer \<Rightarrow> string res" where
  "toStringPiece b =
     (let n = sint (word_of_nat (readableBytes b) :: 32 word) in
      if n < 0 then Inl MemoryError
      else Inr (take (nat n) (drop (peek b) (bufferVec b))))"

section \<open>Searching\<close>

definition findCRLF :: "buffer \<Rightarrow> nat option" where
  "findCRLF b = map_option (\<lambda>i. peek b + i) (search_at kCRLF (bytes_between b (peek b) (beginWrite b)))"

definition findCRLF_from :: "buffer \<Rightarrow> nat \<Rightarrow> nat option res" where
  "findCRLF_from b start =
     cassert (peek b \<le> start) (cassert (start \<le> beginWrite b)
       (Inr (map_option (\<lambda>i. start + i) (search_at kCRLF (bytes_between b start (beginWrite b))))))"

definition memchr :: "char \<Rightarrow> char list \<Rightarrow> nat option" where
  "memchr c s = (let i = find_char c s in if i = length s then None else Some i)"

definition findEOL :: "buffer \<Rightarrow> nat option" where
  "findEOL b =
     map_option (\<lambda>i. peek b + i) (memchr (CHR 0x0A) (take (readableBytes b) (drop (peek b) (bufferVec b))))"

definition findEOL_from :: "buffer \<Rightarrow> nat \<Rightarrow> nat option res" where
  "findEOL_from b start =
     cassert (peek b \<le> start) (cassert (start \<le> beginWrite b)
       (Inr (map_option (\<lambda>i. start + i)
          (memchr (CHR 0x0A) (take (beginWrite b - start) (drop start (bufferVec b)))))))"

section \<open>Taking bytes out\<close>

definition retrieveAll :: "buffer \<Rightarrow> buffer" where
  "retrieveAll b = b\<lparr>readerIndex := kCheapPrepend, writerIndex := kCheapPrepend\<rparr>"

text \<open>
  \<open>retrieve_unchecked\<close> is the body of \<open>retrieve\<close> after its assertion: what a build with
  \<open>NDEBUG\<close> runs for every \<open>len\<close>.
\<close>

definition retrieve_unchecked :: "nat \<Rightarrow> buffer \<Rightarrow> buffer" where
  "retrieve_unchecked len b =
     (if len < readableBytes b then b\<lparr>readerIndex := readerIndex b + len\<rparr> else retrieveAll b)"

definition retrieve :: "nat \<Rightarrow> buffer \<Rightarrow> buffer res" where
  "retrieve len b = cassert (len \<le> readableBytes b) (Inr (retrieve_unchecked len b))"

definition retrieveUntil :: "nat \<Rightarrow> buffer \<Rightarrow> buffer res" where
  "retrieveUntil endp b =
     cassert (peek b \<le> endp) (cassert (endp \<le> beginWrite b) (retrieve (endp - peek b) b))"

definition retrieveInt64 :: "buffer \<Rightarrow> buffer res" where
  "retrieveInt64 b = retrieve 8 b"

definition retrieveInt32 :: "buffer \<Rightarrow> buffer res" where
  "retrieveInt32 b = retrieve 4 b"

definition retrieveInt16 :: "buffer \<Rightarrow> buffer res" where
  "retrieveInt16 b = retrieve 2 b"

definition retrieveInt8 :: "buffer \<Rightarrow> buffer res" where
  "retrieveInt8 b = retrieve 1 b"

definition retrieveAsString :: "nat \<Rightarrow> buffer \<Rightarrow> (string \<times> buffer) res" where
  "retrieveAsString len b =
     cassert (len \<le> readableBytes b)
       (let result = take len (drop (peek b) (bufferVec b)) in
        bindR (retrieve len b) (\<lambda>b'. Inr (result, b')))"

definition retrieveAllAsString :: "buffer \<Rightarrow> (string \<times> buffer) res" where
  "retrieveAllAsString b = retrieveAsString (readableBytes b) b"

section \<open>Putting bytes in\<close>

definition makeSpace :: "nat \<Rightarrow> buffer \<Rightarrow> buffer res" where
  "makeSpace len b =
     (if writableBytes b + prependableBytes b < len + kCheapPrepend
      then (let n = writerIndex b + len in
            Inr (b\<lparr>bufferVec := take n (bufferVec b) @ replicate (n - length (bufferVec b)) (CHR 0x00)\<rparr>))
      else cassert (kCheapPrepend < readerIndex b)
        (let readable = readableBytes b;
             b' = b\<lparr>bufferVec := std_copy (readerIndex b) (writerIndex b - readerIndex b)
                                  kCheapPrepend (bufferVec b),
                    readerIndex := kCheapPrepend,
                    writerIndex := kCheapPrepend + readable\<rparr> in
         cassert (readable = readableBytes b') (Inr b')))"

definition ensureWritableBytes :: "nat \<Rightarrow> buffer \<Rightarrow> buffer res" where
  "ensureWritableBytes len b =
     bindR (if writableBytes b < len then makeSpace len b else Inr b)
       (\<lambda>b'. cassert (len \<le> writableBytes b') (Inr b'))"

definition hasWritten :: "nat \<Rightarrow> buffer \<Rightarrow> buffer res" where
  "hasWritten len b =
     cassert (len \<le> writableBytes b) (Inr (b\<lparr>writerIndex := writerIndex b + len\<rparr>))"

definition unwrite :: "nat \<Rightarrow> buffer \<Rightarrow> buffer res" where
  "unwrite len b =
     cassert (len \<le> readableBytes b) (Inr (b\<lparr>writerIndex := writerIndex b - len\<rparr>))"

text \<open>Storing bytes through a pointer into the vector, outside which it is a fault.\<close>

definition store_bytes :: "nat \<Rightarrow> char list \<Rightarrow> buffer \<Rightarrow> buffer res" where
  "store_bytes at xs b =
     (if at + length xs \<le> length (bufferVec b)
      then Inr (b\<lparr>bufferVec := blit at xs (bufferVec b)\<rparr>) else Inl MemoryError)"

definition append_bytes :: "char list \<Rightarrow> buffer \<Rightarrow> buffer res" where
  "append_bytes data b =
     bindR (ensureWritableBytes (length data) b) (\<lambda>b1.
     bindR (store_bytes (beginWrite b1) data b1) (\<lambda>b2.
     hasWritten (length data) b2))"

definition prepend :: "char list \<Rightarrow> buffer \<Rightarrow> buffer res" where
  "prepend data b =
     cassert (length data \<le> prependableBytes b)
       (let b1 = b\<lparr>readerIndex := readerIndex b - length data\<rparr> in
        store_bytes (readerIndex b1) data b1)"

definition shrink :: "nat \<Rightarrow> buffer \<Rightarrow> buffer res" where
  "shrink reserve b =
     bindR (ensureWritableBytes (readableBytes b + reserve) (new_Buffer kInitialSize)) (\<lambda>other.
     bindR (toStringPiece b) (\<lambda>piece.
     bindR (append_bytes piece other) (\<lambda>other'.
     Inr (fst (swap_Buffer b other')))))"

section \<open>Integers in network byte order\<close>

definition appendInt64 :: "endian \<Rightarrow> 64 word \<Rightarrow> buffer \<Rightarrow> buffer res" where
  "appendInt64 e x b = append_bytes (mem_of e (hostToNetwork64 e x)) b"

definition appendInt32 :: "endian \<Rightarrow> 32 word \<Rightarrow> buffer \<Rightarrow> buffer res" where
  "appendInt32 e x b = append_bytes (mem_of e (hostToNetwork32 e x)) b"

definition appendInt16 :: "endian \<Rightarrow> 16 word \<Rightarrow> buffer \<Rightarrow> buffer res" where
  "appendInt16 e x b = append_bytes (mem_of e (hostToNetwork16 e x)) b"

definition appendInt8 :: "endian \<Rightarrow> 8 word \<Rightarrow> buffer \<Rightarrow> buffer res" where
  "appendInt8 e x b = append_bytes (mem_of e x) b"

definition peekInt64 :: "endian \<Rightarrow> buffer \<Rightarrow> 64 word res" where
  "peekInt64 e b = cassert (8 \<le> readableBytes b)
     (Inr (networkToHost64 e (of_mem e (take 8 (drop (peek b) (bufferVec b))))))"

definition peekInt32 :: "endian \<Rightarrow> buffer \<Rightarrow> 32 word res" where
  "peekInt32 e b = cassert (4 \<le> readableBytes b)
     (Inr (networkToHost32 e (of_mem e (take 4 (drop (peek b) (bufferVec b))))))"

definition peekInt16 :: "endian \<Rightarrow> buffer \<Rightarrow> 16 word res" where
  "peekInt16 e b = cassert (2 \<le> readableBytes b)
     (Inr (networkToHost16 e (of_mem e (take 2 (drop (peek b) (bufferVec b))))))"

definition peekInt8 :: "endian \<Rightarrow> buffer \<Rightarrow> 8 word res" where
  "peekInt8 e b = cassert (1 \<le> readableBytes b)
     (Inr (of_mem e (take 1 (drop (peek b) (bufferVec b)))))"

definition readInt64 :: "endian \<Rightarrow> buffer \<Rightarrow> (64 word \<times> buffer) res" where
  "readInt64 e b = bindR (peekInt64 e b) (\<lambda>r. bindR (retrieveInt64 b) (\<lambda>b'. Inr (r, b')))"

definition readInt32 :: "endian \<Rightarrow> buffer \<Rightarrow> (32 word \<times> buffer) res" where
  "readInt32 e b = bindR (peekInt32 e b) (\<lambda>r. bindR (retrieveInt32 b) (\<lambda>b'. Inr (r, b')))"

definition readInt16 :: "endian \<Rightarrow> buffer \<Rightarrow> (16 word \<times> buffer) res" where
  "readInt16 e b = bindR (peekInt16 e b) (\<lambda>r. bindR (retrieveInt16 b) (\<lambda>b'. Inr (r, b')))"

definition readInt8 :: "endian \<Rightarrow> buffer \<Rightarrow> (8 word \<times> buffer) res" where
  "readInt8 e b = bindR (peekInt8 e b) (\<lambda>r. bindR (retrieveInt8 b) (\<lambda>b'. Inr (r, b')))"

definition prependInt64 :: "endian \<Rightarrow> 64 word \<Rightarrow> buffer \<Rightarrow> buffer res" where
  "prependInt64 e x b = prepend (mem_of e (hostToNetwork64 e x)) b"

definition prependInt32 :: "endian \<Rightarrow> 32 word \<Rightarrow> buffer \<Rightarrow> buffer res" where
  "prependInt32 e x b = prepend (mem_of e (hostToNetwork32 e x)) b"

definition prependInt16 :: "endian \<Rightarrow> 16 word \<Rightarrow> buffer \<Rightarrow> buffer res" where
  "prependInt16 e x b = prepend (mem_of e (hostToNetwork16 e x)) b"

definition prependInt8 :: "endian \<Rightarrow> 8 word \<Rightarrow> buffer \<Rightarrow> buffer res" where
  "prependInt8 e x b = prepend (mem_of e x) b"

section \<open>Reading from a descriptor\<close>

text \<open>
  \<open>readv\<close> stands for the system call on the descriptor: given the lengths of the
  \<open>iovec\<close> entries it answers with an error number or with the bytes it stored, which
  fill the entries in order. \<open>readFd\<close> answers the bytes' number (or -1), the saved
  \<open>errno\<close> and the buffer.
\<close>

definition extrabuf_size :: nat where
  "extrabuf_size = 65536"

definition readFd_iov :: "buffer \<Rightarrow> nat list" where
  "readFd_iov b = (let writable = writableBytes b in
     if writable < extrabuf_size then [writable, extrabuf_size] else [writable])"

definition readFd :: "(nat list \<Rightarrow> nat + char list) \<Rightarrow> buffer \<Rightarrow> (int \<times> nat option \<times> buffer) res" where
  "readFd readv b =
     (let writable = writableBytes b in
      case readv (readFd_iov b) of
        Inl errno \<Rightarrow> Inr (- 1, Some errno, b)
      | Inr data \<Rightarrow>
          bindR (store_bytes (writerIndex b) (take writable data) b) (\<lambda>b1.
            if length data \<le> writable
            then Inr (int (length data), None, b1\<lparr>writerIndex := writerIndex b1 + length data\<rparr>)
            else bindR (append_bytes (drop writable data) (b1\<lparr>writerIndex := length (bufferVec b1)\<rparr>))
                   (\<lambda>b2. Inr (int (length data), None, b2))))"

section \<open>The invariant and the queue view\<close>

definition buffer_inv :: "buffer \<Rightarrow> bool" where
  "buffer_inv b \<longleftrightarrow> readerIndex b \<le> writerIndex b \<and> writerIndex b \<le> length (bufferVec b) \<and>
     kCheapPrepend \<le> length (bufferVec b)"

lemmas buffer_defs = buffer_inv_def contents_def bytes_between_def peek_def beginWrite_def
  readableBytes_def writableBytes_def prependableBytes_def kCheapPrepend_def

lemma length_contents [simp]: "buffer_inv b \<Longrightarrow> length (contents b) = readableBytes b"
  by (auto simp: buffer_defs min_def)

lemma contents_take_drop: "take (readableBytes b) (drop (peek b) (bufferVec b)) = contents b"
  by (simp add: buffer_defs)

lemma take_contents:
  "buffer_inv b \<Longrightarrow> n \<le> readableBytes b \<Longrightarrow>
     take n (drop (peek b) (bufferVec b)) = take n (contents b)"
  by (simp add: buffer_defs min_def)

lemma new_Buffer_inv [simp, inv_intros]: "buffer_inv (new_Buffer n)"
  by (simp add: new_Buffer_def buffer_defs)

lemma contents_new_Buffer [simp]: "contents (new_Buffer n) = []"
  by (simp add: new_Buffer_def buffer_defs)

lemma retrieveAll_inv [simp, inv_intros]: "buffer_inv b \<Longrightarrow> buffer_inv (retrieveAll b)"
  by (simp add: retrieveAll_def buffer_defs)

lemma contents_retrieveAll [simp]: "contents (retrieveAll b) = []"
  by (simp add: retrieveAll_def buffer_defs)

lemma retrieve_unchecked_inv [inv_intros]:
  "buffer_inv b \<Longrightarrow> buffer_inv (retrieve_unchecked len b)"
  by (auto simp: retrieve_unchecked_def retrieveAll_def buffer_defs)

lemma contents_retrieve_unchecked:
  "buffer_inv b \<Longrightarrow> contents (retrieve_unchecked len b) = drop len (contents b)"
  by (auto simp: retrieve_unchecked_def retrieveAll_def buffer_defs drop_take add.commute)

lemma retrieve_returns:
  assumes "buffer_inv b" and "len \<le> readableBytes b"
  shows "returns (retrieve len b) (\<lambda>b'. buffer_inv b' \<and> contents b' = drop len (contents b))"
  using assms by (simp add: retrieve_def retrieve_unchecked_inv contents_retrieve_unchecked)

lemma retrieveUntil_returns:
  assumes "buffer_inv b" and "peek b \<le> p" and "p \<le> beginWrite b"
  shows "returns (retrieveUntil p b) (\<lambda>b'. buffer_inv b' \<and> contents b' = drop (p - peek b) (contents b))"
proof -
  have "p - peek b \<le> readableBytes b" using assms by (simp add: buffer_defs)
  from retrieve_returns [OF assms(1) this] assms show ?thesis by (simp add: retrieveUntil_def)
qed

lemma retrieveAsString_returns:
  assumes "buffer_inv b" and "len \<le> readableBytes b"
  shows "returns (retrieveAsString len b)
    (\<lambda>(s, b'). s = take len (contents b) \<and> buffer_inv b' \<and> contents b' = drop len (contents b))"
  using retrieve_returns [OF assms] assms
  by (simp add: retrieveAsString_def take_contents Let_def)

subsection \<open>Making room\<close>

text \<open>
  \<open>makeSpace\<close> is only reached when the writable area is too small; its own assertion
  (the reader index is beyond the prependable area) then always holds in the branch that
  moves the data, so it cannot fire.
\<close>

lemma contents_resize:
  assumes "buffer_inv b" and "writerIndex b \<le> n"
  shows "contents (b\<lparr>bufferVec := take n (bufferVec b) @ replicate k c\<rparr>) = contents b"
  using assms by (simp add: buffer_defs drop_take min_def)

lemma makeSpace_returns:
  assumes inv: "buffer_inv b" and small: "writableBytes b < len"
  shows "returns (makeSpace len b)
    (\<lambda>b'. buffer_inv b' \<and> contents b' = contents b \<and> len \<le> writableBytes b')"
proof (cases "writableBytes b + prependableBytes b < len + kCheapPrepend")
  case True
  with assms show ?thesis
    by (simp add: makeSpace_def Let_def contents_resize) (auto simp: buffer_defs)
next
  case False
  let ?v = "std_copy (readerIndex b) (writerIndex b - readerIndex b) kCheapPrepend (bufferVec b)"
  from False small have r: "kCheapPrepend < readerIndex b" by (simp add: buffer_defs)
  with inv have "?v = blit kCheapPrepend (contents b) (bufferVec b)"
    by (simp add: std_copy_blit buffer_defs)
  moreover have "take (length (contents b)) (drop kCheapPrepend (blit kCheapPrepend (contents b) (bufferVec b)))
      = contents b"
    using inv by (intro take_drop_blit) (simp add: buffer_inv_def)
  ultimately have moved: "take (writerIndex b - readerIndex b) (drop kCheapPrepend ?v) = contents b"
    using inv by (simp add: readableBytes_def)
  define v where "v = ?v"
  have "length v = length (bufferVec b)" by (simp add: v_def)
  with moved False inv r show ?thesis
    unfolding makeSpace_def Let_def v_def [symmetric]
    by (auto simp: readableBytes_def writableBytes_def prependableBytes_def buffer_inv_def
        contents_def bytes_between_def peek_def beginWrite_def)
qed

lemma ensureWritableBytes_returns:
  assumes "buffer_inv b"
  shows "returns (ensureWritableBytes len b)
    (\<lambda>b'. buffer_inv b' \<and> contents b' = contents b \<and> len \<le> writableBytes b')"
proof (cases "writableBytes b < len")
  case True
  from makeSpace_returns [OF assms this] True show ?thesis
    by (auto simp: ensureWritableBytes_def elim!: returns_mono)
next
  case False
  with assms show ?thesis by (simp add: ensureWritableBytes_def)
qed

lemma contents_store_written:
  assumes "buffer_inv b" and "length data \<le> writableBytes b"
  shows "contents (b\<lparr>bufferVec := blit (writerIndex b) data (bufferVec b),
                     writerIndex := writerIndex b + length data\<rparr>) = contents b @ data"
    (is "contents ?b = _")
proof -
  let ?v = "blit (writerIndex b) data (bufferVec b)"
  have "contents ?b = drop (readerIndex b) (take (writerIndex b + length data) ?v)"
    using assms by (simp add: buffer_defs drop_take)
  also have "take (writerIndex b + length data) ?v = take (writerIndex b) (bufferVec b) @ data"
    using assms by (simp add: blit_def buffer_defs)
  finally show ?thesis using assms by (simp add: buffer_defs drop_take)
qed

lemma append_bytes_returns:
  assumes "buffer_inv b"
  shows "returns (append_bytes data b) (\<lambda>b'. buffer_inv b' \<and> contents b' = contents b @ data)"
proof -
  have "returns (bindR (store_bytes (beginWrite b1) data b1) (hasWritten (length data)))
      (\<lambda>b'. buffer_inv b' \<and> contents b' = contents b @ data)"
    if "buffer_inv b1 \<and> contents b1 = contents b \<and> length data \<le> writableBytes b1" for b1
  proof -
    from that have fits: "writerIndex b1 + length data \<le> length (bufferVec b1)"
      by (auto simp: buffer_inv_def writableBytes_def)
    then show ?thesis
      using that contents_store_written [of b1 data]
      by (auto simp: store_bytes_def hasWritten_def beginWrite_def writableBytes_def buffer_inv_def)
  qed
  with ensureWritableBytes_returns [OF assms, of "length data"] show ?thesis
    unfolding append_bytes_def by (auto elim!: returns_mono)
qed

subsection \<open>Prepending, unwriting, shrinking\<close>

lemma prepend_returns:
  assumes "buffer_inv b" and "length data \<le> prependableBytes b"
  shows "returns (prepend data b) (\<lambda>b'. buffer_inv b' \<and> contents b' = data @ contents b \<and>
    prependableBytes b' = prependableBytes b - length data)"
proof -
  let ?r = "readerIndex b - length data"
  let ?v = "blit ?r data (bufferVec b)"
  from assms have fits: "?r + length data \<le> length (bufferVec b)"
    and sum: "?r + length data = readerIndex b" by (auto simp: buffer_defs)
  have "drop ?r ?v = data @ drop (readerIndex b) (bufferVec b)"
    using fits sum by (simp add: blit_def)
  then have "contents (b\<lparr>readerIndex := ?r, bufferVec := ?v\<rparr>) = data @ contents b"
    using assms sum by (auto simp: buffer_defs)
  with assms fits show ?thesis
    by (auto simp: prepend_def store_bytes_def buffer_inv_def prependableBytes_def)
qed

lemma unwrite_returns:
  assumes "buffer_inv b" and "len \<le> readableBytes b"
  shows "returns (unwrite len b)
    (\<lambda>b'. buffer_inv b' \<and> contents b' = take (readableBytes b - len) (contents b))"
  using assms by (auto simp: unwrite_def buffer_defs add.commute)

lemma buffer_eta [simp]:
  "\<lparr>bufferVec = bufferVec b, readerIndex = readerIndex b, writerIndex = writerIndex b\<rparr> = (b :: buffer)"
  by simp

lemma toStringPiece_small:
  assumes "buffer_inv b" and "readableBytes b < 2 ^ 31"
  shows "toStringPiece b = Inr (contents b)"
proof -
  have "sint (word_of_nat (readableBytes b) :: 32 word) = int (readableBytes b)"
    using assms(2) by (simp add: sint_uint unsigned_of_nat take_bit_nat_eq_self signed_take_bit_int_eq_self)
  then show ?thesis using contents_take_drop [of b] by (simp add: toStringPiece_def)
qed

lemma shrink_returns:
  assumes "buffer_inv b" and "readableBytes b < 2 ^ 31"
  shows "returns (shrink reserve b) (\<lambda>b'. buffer_inv b' \<and> contents b' = contents b)"
proof -
  have "returns (append_bytes (contents b) other) (\<lambda>o'. buffer_inv o' \<and> contents o' = contents b)"
    if "buffer_inv other \<and> contents other = []" for other
    using append_bytes_returns [of other "contents b"] that by auto
  with ensureWritableBytes_returns [of "new_Buffer kInitialSize" "readableBytes b + reserve"] show ?thesis
    unfolding shrink_def toStringPiece_small [OF assms]
    by (auto simp: swap_Buffer_def elim!: returns_mono)
qed

subsection \<open>Searching\<close>

lemma findCRLF_Some:
  assumes "buffer_inv b" and "findCRLF b = Some p"
  shows "peek b \<le> p \<and> p + 2 \<le> beginWrite b \<and>
    search_at kCRLF (contents b) = Some (p - peek b)"
proof -
  from assms(2) obtain i where i: "search_at kCRLF (contents b) = Some i" "p = peek b + i"
    by (auto simp: findCRLF_def contents_def)
  from search_at_Some [OF i(1)] have "i + 2 \<le> readableBytes b"
    using assms(1) by (simp add: kCRLF_def)
  with i assms(1) show ?thesis by (auto simp: buffer_defs)
qed

lemma findCRLF_search: "findCRLF b = map_option (\<lambda>i. peek b + i) (search_at kCRLF (contents b))"
  by (simp add: findCRLF_def contents_def)

subsection \<open>Integers\<close>

text \<open>What \<open>appendInt*\<close> leaves in front is read back by \<open>readInt*\<close>; the bytes are big-endian.\<close>

lemma take_prefix_contents:
  assumes "buffer_inv b" and "contents b = xs @ ys"
  shows "length xs \<le> readableBytes b \<and> take (length xs) (drop (peek b) (bufferVec b)) = xs"
proof -
  have "length xs \<le> readableBytes b" using assms length_contents [of b] by simp
  then show ?thesis using assms take_contents by simp
qed

lemma peekInt32_be:
  assumes "buffer_inv b" and "contents b = be_bytes 4 (unat x) @ ys"
  shows "peekInt32 e b = Inr x"
  using take_prefix_contents [OF assms] betoh_of_mem_be_bytes [of e x]
  by (simp add: peekInt32_def byte_order_defs)

lemma peekInt64_be:
  assumes "buffer_inv b" and "contents b = be_bytes 8 (unat x) @ ys"
  shows "peekInt64 e b = Inr x"
  using take_prefix_contents [OF assms] betoh_of_mem_be_bytes [of e x]
  by (simp add: peekInt64_def byte_order_defs)

lemma peekInt16_be:
  assumes "buffer_inv b" and "contents b = be_bytes 2 (unat x) @ ys"
  shows "peekInt16 e b = Inr x"
  using take_prefix_contents [OF assms] betoh_of_mem_be_bytes [of e x]
  by (simp add: peekInt16_def byte_order_defs)

lemma mem_hostToNetwork32: "mem_of e (hostToNetwork32 e x) = be_bytes 4 (unat x)"
  using mem_of_htobe [of e x] by (simp add: byte_order_defs)

lemma mem_hostToNetwork64: "mem_of e (hostToNetwork64 e x) = be_bytes 8 (unat x)"
  using mem_of_htobe [of e x] by (simp add: byte_order_defs)

lemma mem_hostToNetwork16: "mem_of e (hostToNetwork16 e x) = be_bytes 2 (unat x)"
  using mem_of_htobe [of e x] by (simp add: byte_order_defs)

lemma appendInt32_returns:
  "buffer_inv b \<Longrightarrow> returns (appendInt32 e x b)
     (\<lambda>b'. buffer_inv b' \<and> contents b' = contents b @ be_bytes 4 (unat x))"
  unfolding appendInt32_def mem_hostToNetwork32 by (rule append_bytes_returns)

lemma readInt32_returns:
  assumes "buffer_inv b" and "contents b = be_bytes 4 (unat x) @ ys"
  shows "returns (readInt32 e b) (\<lambda>(v, b'). v = x \<and> buffer_inv b' \<and> contents b' = ys)"
proof -
  have "4 \<le> readableBytes b" using take_prefix_contents [OF assms] by simp
  from retrieve_returns [OF assms(1) this] show ?thesis
    by (auto simp: readInt32_def retrieveInt32_def peekInt32_be [OF assms] assms(2) elim!: returns_mono)
qed

lemma readInt64_returns:
  assumes "buffer_inv b" and "contents b = be_bytes 8 (unat x) @ ys"
  shows "returns (readInt64 e b) (\<lambda>(v, b'). v = x \<and> buffer_inv b' \<and> contents b' = ys)"
proof -
  have "8 \<le> readableBytes b" using take_prefix_contents [OF assms] by simp
  from retrieve_returns [OF assms(1) this] show ?thesis
    by (auto simp: readInt64_def retrieveInt64_def peekInt64_be [OF assms] assms(2) elim!: returns_mono)
qed

lemma readInt16_returns:
  assumes "buffer_inv b" and "contents b = be_bytes 2 (unat x) @ ys"
  shows "returns (readInt16 e b) (\<lambda>(v, b'). v = x \<and> buffer_inv b' \<and> contents b' = ys)"
proof -
  have "2 \<le> readableBytes b" using take_prefix_contents [OF assms] by simp
  from retrieve_returns [OF assms(1) this] show ?thesis
    by (auto simp: readInt16_def retrieveInt16_def peekInt16_be [OF assms] assms(2) elim!: returns_mono)
qed

subsection \<open>Reading from a descriptor\<close>

lemma readFd_returns:
  assumes inv: "buffer_inv b"
  shows "returns (readFd readv b) (\<lambda>(n, err, b'). buffer_inv b' \<and>
    (case readv (readFd_iov b) of
       Inl e \<Rightarrow> n = - 1 \<and> err = Some e \<and> contents b' = contents b
     | Inr data \<Rightarrow> n = int (length data) \<and> err = None \<and> contents b' = contents b @ data))"
proof (cases "readv (readFd_iov b)")
  case (Inl errno)
  with inv show ?thesis by (simp add: readFd_def)
next
  case (Inr data)
  let ?w = "writableBytes b"
  have w: "writerIndex b + ?w = length (bufferVec b)" using inv by (simp add: buffer_defs)
  have store: "contents (b\<lparr>bufferVec := blit (writerIndex b) d (bufferVec b),
      writerIndex := writerIndex b + length d\<rparr>) = contents b @ d" if "length d \<le> ?w" for d
    by (rule contents_store_written [OF inv that])
  show ?thesis
  proof (cases "length data \<le> ?w")
    case True
    with Inr inv w store [OF True] show ?thesis
      by (auto simp: readFd_def Let_def store_bytes_def buffer_inv_def)
  next
    case False
    let ?b1 = "b\<lparr>bufferVec := blit (writerIndex b) (take ?w data) (bufferVec b),
                   writerIndex := length (bufferVec b)\<rparr>"
    from False have len: "length (take ?w data) = ?w" by simp
    have c: "contents ?b1 = contents b @ take ?w data"
      using store [of "take ?w data"] len w by simp
    have i: "buffer_inv ?b1" using inv len w by (simp add: buffer_inv_def)
    from append_bytes_returns [OF i, of "drop ?w data"] show ?thesis
      using Inr False len w c
      by (auto simp: readFd_def Let_def store_bytes_def elim!: returns_mono)
  qed
qed

lemma sum_readFd_iov: "sum_list (readFd_iov b) \<le> max (writableBytes b) 131071"
  by (simp add: readFd_iov_def Let_def extrabuf_size_def)

section \<open>The buffer as a byte queue\<close>

lemma retrieve_beyond: "readableBytes b < len \<Longrightarrow> retrieve len b = Inl AssertFailed"
  by (simp add: retrieve_def cassert_def)

lemma unwrite_beyond: "readableBytes b < len \<Longrightarrow> unwrite len b = Inl AssertFailed"
  by (simp add: unwrite_def cassert_def)

interpretation buf: byte_queue buffer_inv contents append_bytes retrieve retrieveAll unwrite ensureWritableBytes
proof unfold_locales
  fix b :: buffer and n :: nat
  assume inv: "buffer_inv b"
  show "returns (append_bytes data b) (\<lambda>b'. buffer_inv b' \<and> contents b' = contents b @ data)" for data
    by (rule append_bytes_returns [OF inv])
  show "n \<le> length (contents b) \<Longrightarrow>
      returns (retrieve n b) (\<lambda>b'. buffer_inv b' \<and> contents b' = drop n (contents b))"
    using retrieve_returns [OF inv] inv by simp
  show "length (contents b) < n \<Longrightarrow> retrieve n b = Inl AssertFailed"
    using inv by (simp add: retrieve_beyond)
  show "buffer_inv (retrieveAll b) \<and> contents (retrieveAll b) = []"
    using inv by simp
  show "n \<le> length (contents b) \<Longrightarrow> returns (unwrite n b)
      (\<lambda>b'. buffer_inv b' \<and> contents b' = take (length (contents b) - n) (contents b))"
    using unwrite_returns [OF inv] inv by simp
  show "length (contents b) < n \<Longrightarrow> unwrite n b = Inl AssertFailed"
    using inv by (simp add: unwrite_beyond)
  show "returns (ensureWritableBytes n b) (\<lambda>b'. buffer_inv b' \<and> contents b' = contents b)"
    using ensureWritableBytes_returns [OF inv] by (rule returns_mono) simp
qed

text \<open>
  C2. A fresh \<open>Buffer\<close> of any initial size, driven by any sequence of \<open>append\<close>,
  \<open>retrieve\<close>, \<open>retrieveAll\<close>, \<open>unwrite\<close> and \<open>ensureWritableBytes\<close>, behaves as a plain byte
  queue: when the queue accepts the sequence the buffer ends with exactly the queue's
  bytes readable and its index invariant intact (so growing and moving the vector never
  lose, duplicate or reorder a byte and no internal assertion fires), and when the queue
  refuses an operation (taking back more than is there) the buffer's assertion fails.
\<close>

theorem buffer_refines_queue:
  "case spec_queue ops [] of
     None \<Rightarrow> run_queue append_bytes retrieve retrieveAll unwrite ensureWritableBytes ops (new_Buffer n)
               = Inl AssertFailed
   | Some xs \<Rightarrow> returns (run_queue append_bytes retrieve retrieveAll unwrite ensureWritableBytes ops (new_Buffer n))
                 (\<lambda>b. buffer_inv b \<and> contents b = xs)"
  using buf.run_refines [of "new_Buffer n" ops] by simp

text \<open>
  C27. \<open>readFd\<close> never loses or reorders what the kernel delivered, however the bytes fall on
  the writable tail of the vector and on the 64 KiB stack buffer behind it: for every
  answer of \<open>readv\<close> the call returns, an error leaves the readable bytes alone and saves
  \<open>errno\<close> with the result -1, and otherwise the bytes are appended in order.
\<close>

theorem readFd_keeps_bytes:
  assumes "buffer_inv b"
  shows "returns (readFd readv b) (\<lambda>(n, err, b'). buffer_inv b' \<and>
    (case readv (readFd_iov b) of
       Inl e \<Rightarrow> n = - 1 \<and> err = Some e \<and> contents b' = contents b
     | Inr data \<Rightarrow> n = int (length data) \<and> err = None \<and> contents b' = contents b @ data))"
  by (rule readFd_returns [OF assms])

theorem readFd_keeps_bytes_witness:
  "returns (readFd (\<lambda>iov. Inr ''abc'') \<lparr>bufferVec = replicate 10 CHR ''x'', readerIndex = 8, writerIndex = 9\<rparr>)
     (\<lambda>(n, err, b'). n = 3 \<and> contents b' = ''xabc'')"
  using readFd_keeps_bytes [of "\<lparr>bufferVec = replicate 10 CHR ''x'', readerIndex = 8, writerIndex = 9\<rparr>"
      "\<lambda>iov. Inr ''abc''"]
  by (auto simp: buffer_defs elim!: returns_mono)

lemma appendInt64_returns:
  "buffer_inv b \<Longrightarrow> returns (appendInt64 e x b)
     (\<lambda>b'. buffer_inv b' \<and> contents b' = contents b @ be_bytes 8 (unat x))"
  unfolding appendInt64_def mem_hostToNetwork64 by (rule append_bytes_returns)

lemma appendInt16_returns:
  "buffer_inv b \<Longrightarrow> returns (appendInt16 e x b)
     (\<lambda>b'. buffer_inv b' \<and> contents b' = contents b @ be_bytes 2 (unat x))"
  unfolding appendInt16_def mem_hostToNetwork16 by (rule append_bytes_returns)

text \<open>
  C28. Integers cross the network: what \<open>appendInt64\<close>, \<open>appendInt32\<close> and \<open>appendInt16\<close> write on
  a host of either byte order is, once its bytes are in the receiver's buffer, read back by
  \<open>readInt64\<close>, \<open>readInt32\<close> and \<open>readInt16\<close> on a host of either byte order as the same three
  values, and nothing is left over.
\<close>

theorem integers_roundtrip:
  "returns
     (bindR (appendInt64 e x (new_Buffer n)) (\<lambda>b.
      bindR (appendInt32 e y b) (\<lambda>b.
      bindR (appendInt16 e z b) (\<lambda>b.
      bindR (append_bytes (contents b) (new_Buffer m)) (\<lambda>r.
      bindR (readInt64 e' r) (\<lambda>(x', r).
      bindR (readInt32 e' r) (\<lambda>(y', r).
      bindR (readInt16 e' r) (\<lambda>(z', r). Inr (x', y', z', contents r)))))))))
     (\<lambda>out. out = (x, y, z, []))"
proof -
  let ?X = "be_bytes 8 (unat x)" and ?Y = "be_bytes 4 (unat y)" and ?Z = "be_bytes 2 (unat z)"
  have r16: "returns (readInt16 e' r) (\<lambda>(v, r'). v = z \<and> contents r' = [])"
    if "buffer_inv r" "contents r = ?Z" for r
    using readInt16_returns [of r z "[]" e'] that by (auto elim!: returns_mono)
  have r32: "returns (readInt32 e' r) (\<lambda>(v, r'). v = y \<and> buffer_inv r' \<and> contents r' = ?Z)"
    if "buffer_inv r" "contents r = ?Y @ ?Z" for r
    using readInt32_returns [of r y ?Z e'] that by blast
  have r64: "returns (readInt64 e' r) (\<lambda>(v, r'). v = x \<and> buffer_inv r' \<and> contents r' = ?Y @ ?Z)"
    if "buffer_inv r" "contents r = ?X @ ?Y @ ?Z" for r
    using readInt64_returns [of r x "?Y @ ?Z" e'] that by blast
  show ?thesis
    unfolding returns_bindR
    apply (rule returns_mono [OF appendInt64_returns [OF new_Buffer_inv]])
    apply (elim conjE)
    apply (rule returns_mono [OF appendInt32_returns], assumption, elim conjE)
    apply (rule returns_mono [OF appendInt16_returns], assumption, elim conjE)
    apply (rule returns_mono [OF append_bytes_returns [OF new_Buffer_inv]], elim conjE)
    apply (rule returns_mono [OF r64], assumption, simp, clarsimp)
    apply (rule returns_mono [OF r32], assumption, simp, clarsimp)
    apply (rule returns_mono [OF r16], assumption, simp, clarsimp)
    done
qed

end
