(* ===== verification/Http_Request.thy ===== *)
theory Http_Request
  imports Core_DateTime Net_Buffer Net_Channel Errno
begin

text \<open>
  \<open>net/http/HttpRequest\<close> and \<open>net/http/HttpContext\<close>: the request being received and the
  parser's state machine over the input buffer. A pointer range of the source is the
  string it covers. \<open>std::stoll\<close> throws on malformed and on out-of-range text; nothing
  catches it. The parser's loop is a partial function: \<open>None\<close> is a call that never returns.
\<close>

section \<open>Requests\<close>

datatype http_method = Invalid | Get | Post | Head | Put | Delete

datatype http_version = Unknown | Http10 | Http11

record http_request =
  hr_method :: http_method
  hr_version :: http_version
  hr_path :: string
  hr_query :: string
  hr_receiveTime :: datetime
  hr_headers :: "string \<rightharpoonup> string"
  hr_body :: buffer
  hr_content_length :: nat
  hr_readSize :: nat

definition new_HttpRequest :: http_request where
  "new_HttpRequest = \<lparr>hr_method = Invalid, hr_version = Unknown, hr_path = [], hr_query = [],
     hr_receiveTime = DateTime 0, hr_headers = Map.empty, hr_body = new_Buffer kInitialSize,
     hr_content_length = 0, hr_readSize = 0\<rparr>"

text \<open>\<open>swap\<close> exchanges seven of the nine members.\<close>

definition swap_HttpRequest :: "http_request \<Rightarrow> http_request \<Rightarrow> http_request \<times> http_request" where
  "swap_HttpRequest a b =
     (a\<lparr>hr_method := hr_method b, hr_version := hr_version b, hr_path := hr_path b, hr_query := hr_query b,
        hr_receiveTime := hr_receiveTime b, hr_headers := hr_headers b, hr_body := hr_body b\<rparr>,
      b\<lparr>hr_method := hr_method a, hr_version := hr_version a, hr_path := hr_path a, hr_query := hr_query a,
        hr_receiveTime := hr_receiveTime a, hr_headers := hr_headers a, hr_body := hr_body a\<rparr>)"

definition method_of :: "string \<Rightarrow> http_method" where
  "method_of m =
     (if m = ''GET'' then Get else if m = ''POST'' then Post else if m = ''HEAD'' then Head
      else if m = ''PUT'' then Put else if m = ''DELETE'' then Delete else Invalid)"

definition setMethod :: "string \<Rightarrow> http_request \<Rightarrow> (bool \<times> http_request) res" where
  "setMethod m r = cassert (hr_method r = Invalid)
     (let r1 = r\<lparr>hr_method := method_of m\<rparr> in Inr (hr_method r1 \<noteq> Invalid, r1))"

fun methodString :: "http_method \<Rightarrow> string" where
  "methodString Get = ''GET''"
| "methodString Post = ''POST''"
| "methodString Head = ''HEAD''"
| "methodString Put = ''PUT''"
| "methodString Delete = ''DELETE''"
| "methodString Invalid = ''UNKNOWN''"

text \<open>The loop that shortens \<open>value\<close> while its last character is a space.\<close>

definition trim_end :: "string \<Rightarrow> string" where
  "trim_end v = rev (dropWhile isspace (rev v))"

definition addHeader :: "string \<Rightarrow> string \<Rightarrow> http_request \<Rightarrow> http_request" where
  "addHeader field after_colon r =
     r\<lparr>hr_headers := (hr_headers r)(field \<mapsto> trim_end (dropWhile isspace after_colon))\<rparr>"

definition getHeader :: "string \<Rightarrow> http_request \<Rightarrow> string" where
  "getHeader field r = (case hr_headers r field of None \<Rightarrow> [] | Some v \<Rightarrow> v)"

definition initContentLength :: "http_request \<Rightarrow> http_request res" where
  "initContentLength r =
     (if 0 < hr_content_length r then Inr r
      else let contentLength = getHeader ''Content-Length'' r in
        if contentLength = [] then Inr r
        else bindR (stoll contentLength) (\<lambda>v. Inr (r\<lparr>hr_content_length := ssize_to_size v\<rparr>)))"

definition contentLength :: "http_request \<Rightarrow> (nat \<times> http_request) res" where
  "contentLength r = bindR (initContentLength r) (\<lambda>r1. Inr (hr_content_length r1, r1))"

definition appendBody :: "string \<Rightarrow> http_request \<Rightarrow> http_request res" where
  "appendBody data r = bindR (append_bytes data (hr_body r)) (\<lambda>b. Inr (r\<lparr>hr_body := b\<rparr>))"

definition gotAllBody :: "http_request \<Rightarrow> (bool \<times> http_request) res" where
  "gotAllBody r = bindR (initContentLength r) (\<lambda>r1.
     Inr (readableBytes (hr_body r1) + hr_readSize r1 = hr_content_length r1, r1))"

definition readAll :: "http_request \<Rightarrow> buffer \<times> http_request" where
  "readAll r =
     (let (buf, body) = swap_Buffer (new_Buffer kInitialSize) (hr_body r) in
      (buf, r\<lparr>hr_readSize := hr_readSize r + readableBytes (hr_body r), hr_body := body\<rparr>))"

section \<open>The parser\<close>

datatype parse_state = ExpectRequestLine | ExpectHeaders | ExpectBody | GotAll

record 'a http_context =
  hc_state :: parse_state
  hc_request :: http_request
  hc_context :: "'a option"

definition new_HttpContext :: "'a http_context" where
  "new_HttpContext = \<lparr>hc_state = ExpectRequestLine, hc_request = new_HttpRequest, hc_context = None\<rparr>"

definition reset_HttpContext :: "'a http_context \<Rightarrow> 'a http_context" where
  "reset_HttpContext c =
     c\<lparr>hc_state := ExpectRequestLine, hc_request := fst (swap_HttpRequest (hc_request c) new_HttpRequest)\<rparr>"

definition setVersion :: "string \<Rightarrow> http_request \<Rightarrow> bool \<times> http_request" where
  "setVersion ver r =
     (if length ver = 8 \<and> take 7 ver = ''HTTP/1.'' then
        (if last ver = CHR ''1'' then (True, r\<lparr>hr_version := Http11\<rparr>)
         else if last ver = CHR ''0'' then (True, r\<lparr>hr_version := Http10\<rparr>)
         else (False, r))
      else (False, r))"

definition setTarget :: "string \<Rightarrow> http_request \<Rightarrow> http_request" where
  "setTarget target r =
     (let question = find_char (CHR ''?'') target in
      if question \<noteq> length target
      then r\<lparr>hr_path := take question target, hr_query := drop question target\<rparr>
      else r\<lparr>hr_path := target\<rparr>)"

definition processRequestLine :: "string \<Rightarrow> http_request \<Rightarrow> (bool \<times> http_request) res" where
  "processRequestLine line r =
     (let space = find_char (CHR '' '') line in
      if space = length line then Inr (False, r)
      else bindR (setMethod (take space line) r) (\<lambda>(known, r1).
        if \<not> known then Inr (False, r1)
        else let rest = drop (space + 1) line; space2 = find_char (CHR '' '') rest in
          if space2 = length rest then Inr (False, r1)
          else Inr (setVersion (drop (space2 + 1) rest) (setTarget (take space2 rest) r1))))"

text \<open>One turn of the loop: whether it goes on, the result so far, the context and the buffer.\<close>

definition parse_step :: "datetime \<Rightarrow> 'a http_context \<Rightarrow> buffer \<Rightarrow> (bool \<times> bool \<times> 'a http_context \<times> buffer) res" where
  "parse_step time c b =
     (case hc_state c of
        ExpectRequestLine \<Rightarrow>
          (case findCRLF b of
             None \<Rightarrow> Inr (False, True, c, b)
           | Some crlf \<Rightarrow> bindR (processRequestLine (bytes_between b (peek b) crlf) (hc_request c)) (\<lambda>(ok, r).
               if ok then bindR (retrieveUntil (crlf + 2) b) (\<lambda>b1.
                 Inr (True, True, c\<lparr>hc_request := r\<lparr>hr_receiveTime := time\<rparr>, hc_state := ExpectHeaders\<rparr>, b1))
               else Inr (False, False, c\<lparr>hc_request := r\<rparr>, b)))
      | ExpectHeaders \<Rightarrow>
          (case findCRLF b of
             None \<Rightarrow> Inr (False, True, c, b)
           | Some crlf \<Rightarrow>
               let line = bytes_between b (peek b) crlf; colon = find_char (CHR '':'') line in
               if colon \<noteq> length line
               then bindR (retrieveUntil (crlf + 2) b) (\<lambda>b1.
                 Inr (True, True, c\<lparr>hc_request := addHeader (take colon line) (drop (colon + 1) line) (hc_request c)\<rparr>, b1))
               else bindR (contentLength (hc_request c)) (\<lambda>(n, r).
                 bindR (retrieveUntil (crlf + 2) b) (\<lambda>b1.
                   Inr (False, True, c\<lparr>hc_request := r, hc_state := if n = 0 then GotAll else ExpectBody\<rparr>, b1))))
      | ExpectBody \<Rightarrow>
          bindR (contentLength (hc_request c)) (\<lambda>(n, r).
            if n = 0 then Inr (False, True, c\<lparr>hc_request := r, hc_state := GotAll\<rparr>, b)
            else bindR (appendBody (contents b) r) (\<lambda>r1.
              bindR (gotAllBody r1) (\<lambda>(all, r2).
                Inr (False, True, c\<lparr>hc_request := r2, hc_state := if all then GotAll else ExpectBody\<rparr>, retrieveAll b))))
      | GotAll \<Rightarrow> Inr (True, True, c, b))"

partial_function (option) parseRequest :: "datetime \<Rightarrow> 'a http_context \<Rightarrow> buffer \<Rightarrow>
    (bool \<times> 'a http_context \<times> buffer) res option" where
  "parseRequest time c b =
     (case parse_step time c b of
        Inl f \<Rightarrow> Some (Inl f)
      | Inr (go, ok, c1, b1) \<Rightarrow> if go then parseRequest time c1 b1 else Some (Inr (ok, c1, b1)))"

section \<open>The parser on the bytes alone\<close>

text \<open>
  The same machine over a string: what is left of the input instead of a buffer. It is a
  total function once the state that never leaves the loop is set apart.
\<close>

definition spec_step :: "datetime \<Rightarrow> 'a http_context \<Rightarrow> string \<Rightarrow> (bool \<times> bool \<times> 'a http_context \<times> string) res" where
  "spec_step time c s =
     (case hc_state c of
        ExpectRequestLine \<Rightarrow>
          (case search_at kCRLF s of
             None \<Rightarrow> Inr (False, True, c, s)
           | Some i \<Rightarrow> bindR (processRequestLine (take i s) (hc_request c)) (\<lambda>(ok, r).
               if ok then Inr (True, True, c\<lparr>hc_request := r\<lparr>hr_receiveTime := time\<rparr>, hc_state := ExpectHeaders\<rparr>, drop (i + 2) s)
               else Inr (False, False, c\<lparr>hc_request := r\<rparr>, s)))
      | ExpectHeaders \<Rightarrow>
          (case search_at kCRLF s of
             None \<Rightarrow> Inr (False, True, c, s)
           | Some i \<Rightarrow>
               let line = take i s; colon = find_char (CHR '':'') line in
               if colon \<noteq> length line
               then Inr (True, True, c\<lparr>hc_request := addHeader (take colon line) (drop (colon + 1) line) (hc_request c)\<rparr>, drop (i + 2) s)
               else bindR (contentLength (hc_request c)) (\<lambda>(n, r).
                 Inr (False, True, c\<lparr>hc_request := r, hc_state := if n = 0 then GotAll else ExpectBody\<rparr>, drop (i + 2) s)))
      | ExpectBody \<Rightarrow>
          bindR (contentLength (hc_request c)) (\<lambda>(n, r).
            if n = 0 then Inr (False, True, c\<lparr>hc_request := r, hc_state := GotAll\<rparr>, s)
            else bindR (appendBody s r) (\<lambda>r1.
              bindR (gotAllBody r1) (\<lambda>(all, r2).
                Inr (False, True, c\<lparr>hc_request := r2, hc_state := if all then GotAll else ExpectBody\<rparr>, []))))
      | GotAll \<Rightarrow> Inr (True, True, c, s))"

lemma spec_step_shrinks:
  assumes "spec_step time c s = Inr (True, ok, c1, s1)" and "hc_state c \<noteq> GotAll"
  shows "length s1 < length s \<and> hc_state c1 \<noteq> GotAll"
proof -
  have "i + 2 \<le> length s" if "search_at kCRLF s = Some i" for i
    using search_at_Some [OF that] by (simp add: kCRLF_def)
  then show ?thesis
    using assms by (auto simp: spec_step_def Let_def res_simps split: parse_state.splits option.splits if_splits)
qed

function spec_parse :: "datetime \<Rightarrow> 'a http_context \<Rightarrow> string \<Rightarrow> (bool \<times> 'a http_context \<times> string) res option" where
  "spec_parse time c s =
     (if hc_state c = GotAll then None
      else case spec_step time c s of
        Inl f \<Rightarrow> Some (Inl f)
      | Inr (go, ok, c1, s1) \<Rightarrow> if go then spec_parse time c1 s1 else Some (Inr (ok, c1, s1)))"
  by pat_completeness auto
termination
  by (relation "measure (\<lambda>(time, c, s). length s)") (auto dest!: spec_step_shrinks)

declare spec_parse.simps [simp del]

lemma bytes_before:
  assumes "buffer_inv b" and "i \<le> length (contents b)"
  shows "bytes_between b (peek b) (peek b + i) = take i (contents b)"
  using assms by (simp add: bytes_between_def take_contents)

lemma retrieve_line:
  assumes "buffer_inv b" and "i + 2 \<le> length (contents b)"
  shows "\<exists>b1. retrieveUntil (peek b + i + 2) b = Inr b1 \<and> buffer_inv b1 \<and> contents b1 = drop (i + 2) (contents b)"
proof -
  have "peek b \<le> peek b + i + 2" "peek b + i + 2 \<le> beginWrite b"
    using assms by (auto simp: buffer_defs)
  from retrieveUntil_returns [OF assms(1) this] show ?thesis by (auto elim!: returnsE)
qed

lemma parse_step_spec:
  assumes inv: "buffer_inv b"
  shows "case spec_step time c (contents b) of
      Inl f \<Rightarrow> parse_step time c b = Inl f
    | Inr (go, ok, c1, s1) \<Rightarrow> \<exists>b1. parse_step time c b = Inr (go, ok, c1, b1) \<and> buffer_inv b1 \<and> contents b1 = s1"
proof -
  have line: "findCRLF b = Some (peek b + i) \<and> bytes_between b (peek b) (peek b + i) = take i (contents b) \<and>
      (\<exists>b1. retrieveUntil (peek b + i + 2) b = Inr b1 \<and> buffer_inv b1 \<and> contents b1 = drop (i + 2) (contents b))"
    if "search_at kCRLF (contents b) = Some i" for i
  proof -
    have "i + 2 \<le> length (contents b)" using search_at_Some [OF that] by (simp add: kCRLF_def)
    with retrieve_line [OF inv this] bytes_before [OF inv, of i] that show ?thesis
      by (simp add: findCRLF_search)
  qed
  have none: "findCRLF b = None" if "search_at kCRLF (contents b) = None"
    using that by (simp add: findCRLF_search)
  show ?thesis
  proof (cases "hc_state c")
    case ExpectRequestLine
    show ?thesis
    proof (cases "search_at kCRLF (contents b)")
      case None
      with none inv ExpectRequestLine show ?thesis by (simp add: spec_step_def parse_step_def)
    next
      case (Some i)
      from line [OF Some] obtain b1 where b1: "findCRLF b = Some (peek b + i)"
        "bytes_between b (peek b) (peek b + i) = take i (contents b)"
        "retrieveUntil (peek b + i + 2) b = Inr b1" "buffer_inv b1" "contents b1 = drop (i + 2) (contents b)" by auto
      show ?thesis
        using Some b1 inv ExpectRequestLine
        by (cases "processRequestLine (take i (contents b)) (hc_request c)")
          (auto simp: spec_step_def parse_step_def add.assoc)
    qed
  next
    case ExpectHeaders
    show ?thesis
    proof (cases "search_at kCRLF (contents b)")
      case None
      with none inv ExpectHeaders show ?thesis by (simp add: spec_step_def parse_step_def)
    next
      case (Some i)
      from line [OF Some] obtain b1 where b1: "findCRLF b = Some (peek b + i)"
        "bytes_between b (peek b) (peek b + i) = take i (contents b)"
        "retrieveUntil (peek b + i + 2) b = Inr b1" "buffer_inv b1" "contents b1 = drop (i + 2) (contents b)" by auto
      show ?thesis
        using Some b1 inv ExpectHeaders
        by (cases "contentLength (hc_request c)") (auto simp: spec_step_def parse_step_def Let_def add.assoc)
    qed
  next
    case ExpectBody
    show ?thesis
    proof (cases "contentLength (hc_request c)")
      case (Inl f)
      with ExpectBody show ?thesis by (simp add: spec_step_def parse_step_def)
    next
      case (Inr p)
      obtain n r where p: "p = (n, r)" by (cases p)
      show ?thesis
      proof (cases "n = 0")
        case True
        with Inr p inv ExpectBody show ?thesis by (simp add: spec_step_def parse_step_def)
      next
        case False
        with Inr p inv ExpectBody show ?thesis
          by (cases "appendBody (contents b) r"; cases "bindR (appendBody (contents b) r) gotAllBody")
            (auto simp: spec_step_def parse_step_def split: prod.splits)
      qed
    qed
  next
    case GotAll
    with inv show ?thesis by (auto simp: spec_step_def parse_step_def)
  qed
qed

lemma parse_GotAll_diverges: "hc_state c = GotAll \<Longrightarrow> parseRequest time c b = None"
proof (rule ccontr)
  assume "parseRequest time c b \<noteq> None" and got: "hc_state c = GotAll"
  then obtain y where y: "parseRequest time c b = Some y" by auto
  have "hc_state c \<noteq> GotAll"
    by (rule parseRequest.raw_induct [OF _ y]) (auto simp: parse_step_def split: sum.splits prod.splits if_splits)
  with got show False by simp
qed

lemma spec_parse_None: "spec_parse time c s = None \<longleftrightarrow> hc_state c = GotAll"
proof (induction time c s rule: spec_parse.induct)
  case (1 time c s)
  show ?case
  proof (cases "hc_state c = GotAll \<or> (\<exists>f. spec_step time c s = Inl f)")
    case True
    then show ?thesis by (subst spec_parse.simps) auto
  next
    case False
    then obtain p where "spec_step time c s = Inr p" by (cases "spec_step time c s") auto
    moreover obtain go ok c1 s1 where "p = (go, ok, c1, s1)" by (cases p) auto
    ultimately have st: "spec_step time c s = Inr (go, ok, c1, s1)" by simp
    with False 1 [OF _ st refl refl refl] spec_step_shrinks [of time c s ok c1 s1] show ?thesis
      by (subst spec_parse.simps) (cases go; auto)
  qed
qed

lemma parse_refines:
  assumes "buffer_inv b"
  shows "case spec_parse time c (contents b) of
      None \<Rightarrow> parseRequest time c b = None
    | Some (Inl f) \<Rightarrow> parseRequest time c b = Some (Inl f)
    | Some (Inr (ok, c1, s1)) \<Rightarrow>
        \<exists>b1. parseRequest time c b = Some (Inr (ok, c1, b1)) \<and> buffer_inv b1 \<and> contents b1 = s1"
  using assms
proof (induction time c "contents b" arbitrary: b rule: spec_parse.induct)
  case (1 time c b)
  show ?case
  proof (cases "hc_state c = GotAll")
    case True
    then show ?thesis by (simp add: parse_GotAll_diverges spec_parse_None [THEN iffD2])
  next
    case opn: False
    note sim = parse_step_spec [OF 1(2), of time c]
    show ?thesis
    proof (cases "spec_step time c (contents b)")
      case (Inl f)
      with sim have "parse_step time c b = Inl f" by simp
      with Inl opn show ?thesis by (simp add: spec_parse.simps [of time c] parseRequest.simps [of time c])
    next
      case (Inr p)
      obtain go ok c1 s1 where p: "p = (go, ok, c1, s1)" by (cases p) auto
      with sim Inr obtain b1 where b1: "parse_step time c b = Inr (go, ok, c1, b1)" "buffer_inv b1" "contents b1 = s1"
        by auto
      show ?thesis
      proof (cases go)
        case False
        with Inr p b1 opn show ?thesis by (simp add: spec_parse.simps [of time c] parseRequest.simps [of time c])
      next
        case True
        have e1: "spec_parse time c (contents b) = spec_parse time c1 (contents b1)"
          using True Inr p b1(3) opn by (subst spec_parse.simps) simp
        have e2: "parseRequest time c b = parseRequest time c1 b1"
          using True b1(1) by (subst parseRequest.simps) simp
        have st: "spec_step time c (contents b) = Inr (go, ok, c1, contents b1)" using Inr p b1(3) by simp
        show ?thesis unfolding e1 e2 by (rule 1(1) [OF opn st refl refl refl True b1(2)])
      qed
    qed
  qed
qed

text \<open>
  C23. The parser over the connection's buffer implements the machine over the plain bytes,
  and it always ends: unless the request was already complete (the one state in which the
  loop does not return), for every input and every earlier state the call returns, or
  fails with the exception or assertion of the specification, and leaves exactly the bytes
  the specification leaves, in a well-formed buffer.
\<close>

theorem parser_refines_spec:
  assumes "buffer_inv b"
  shows "(parseRequest time c b = None \<longleftrightarrow> hc_state c = GotAll) \<and>
    (\<forall>f. parseRequest time c b = Some (Inl f) \<longleftrightarrow> spec_parse time c (contents b) = Some (Inl f)) \<and>
    (\<forall>ok c1 s1. spec_parse time c (contents b) = Some (Inr (ok, c1, s1)) \<longrightarrow>
       (\<exists>b1. parseRequest time c b = Some (Inr (ok, c1, b1)) \<and> buffer_inv b1 \<and> contents b1 = s1))"
  using parse_refines [OF assms, of time c] spec_parse_None [of time c "contents b"]
  by (auto split: option.splits sum.splits prod.splits)

theorem parser_refines_spec_witness:
  "parseRequest (DateTime 0) (new_HttpContext :: nat http_context) (new_Buffer 16) \<noteq> None"
  using parser_refines_spec [of "new_Buffer 16" "DateTime 0" "new_HttpContext :: nat http_context"]
  by (simp add: new_HttpContext_def)

section \<open>Arrival in pieces\<close>

lemma spec_parse_append:
  assumes "spec_parse time c xs = Some (Inr (True, c1, rest))"
    and "hc_state c1 = ExpectRequestLine \<or> hc_state c1 = ExpectHeaders"
  shows "spec_parse time c (xs @ ys) = spec_parse time c1 (rest @ ys)"
  using assms
proof (induction time c xs rule: spec_parse.induct)
  case (1 time c xs)
  have opn: "hc_state c \<noteq> GotAll" using "1.prems"(1) spec_parse_None [of time c xs] by auto
  obtain p where "spec_step time c xs = Inr p"
    using "1.prems"(1) opn by (cases "spec_step time c xs") (auto simp: spec_parse.simps [of time c])
  moreover obtain go ok d s where "p = (go, ok, d, s)" by (cases p) auto
  ultimately have st: "spec_step time c xs = Inr (go, ok, d, s)" by simp
  show ?case
  proof (cases go)
    case True
    have step: "spec_step time c (xs @ ys) = Inr (True, ok, d, s @ ys)"
      using st True opn search_at_append [of kCRLF xs _ ys] search_at_Some [of kCRLF xs]
      by (auto simp: spec_step_def Let_def res_simps kCRLF_def split: parse_state.splits option.splits if_splits)
    have "spec_parse time d s = Some (Inr (True, c1, rest))"
      using "1.prems"(1) opn st True by (simp add: spec_parse.simps [of time c])
    from "1.IH" [OF opn st refl refl refl True this "1.prems"(2)] show ?thesis
      using step opn by (simp add: spec_parse.simps [of time c])
  next
    case False
    then have r: "ok" "d = c1" "s = rest"
      using "1.prems"(1) opn st by (auto simp: spec_parse.simps [of time c])
    have "c1 = c \<and> rest = xs"
      using st False r opn "1.prems"(2)
      by (auto simp: spec_step_def Let_def res_simps split: parse_state.splits option.splits if_splits)
    then show ?thesis by simp
  qed
qed

text \<open>
  A piece that does not complete the request leaves the parser waiting: if the whole text is
  parsed to its last byte, every proper prefix of it is parsed without an error into a state
  that waits for more of the request line or the headers.
\<close>

lemma spec_parse_prefix:
  assumes "spec_parse time c (xs @ ys) = Some (Inr (True, c2, []))" and "ys \<noteq> []"
    and "hc_state c = ExpectRequestLine \<or> hc_state c = ExpectHeaders"
  shows "\<exists>c1 rest. spec_parse time c xs = Some (Inr (True, c1, rest)) \<and>
    (hc_state c1 = ExpectRequestLine \<or> hc_state c1 = ExpectHeaders)"
  using assms
proof (induction time c xs rule: spec_parse.induct)
  case (1 time c xs)
  have opn: "hc_state c \<noteq> GotAll" using "1.prems"(3) by auto
  show ?case
  proof (cases "search_at kCRLF xs")
    case None
    then have "spec_step time c xs = Inr (False, True, c, xs)" using "1.prems"(3) by (auto simp: spec_step_def)
    then show ?thesis using opn "1.prems"(3) by (simp add: spec_parse.simps [of time c])
  next
    case (Some i)
    then have i: "search_at kCRLF (xs @ ys) = Some i" "i + 2 \<le> length xs"
      using search_at_append [of kCRLF xs i ys] search_at_Some [of kCRLF xs i] by (auto simp: kCRLF_def)
    obtain p where "spec_step time c (xs @ ys) = Inr p"
      using "1.prems"(1) opn by (cases "spec_step time c (xs @ ys)") (auto simp: spec_parse.simps [of time c])
    moreover obtain go ok d s where "p = (go, ok, d, s)" by (cases p) auto
    ultimately have st: "spec_step time c (xs @ ys) = Inr (go, ok, d, s)" by simp
    have go: go
      using "1.prems" opn st i Some
      by (auto simp: spec_parse.simps [of time c "xs @ ys"] spec_step_def Let_def res_simps split: if_splits)
    have step: "spec_step time c xs = Inr (True, ok, d, drop (i + 2) xs)" and s: "s = drop (i + 2) xs @ ys"
      and d: "hc_state d = ExpectRequestLine \<or> hc_state d = ExpectHeaders"
      using st go "1.prems"(3) i Some by (auto simp: spec_step_def Let_def res_simps split: if_splits)
    have "spec_parse time d (drop (i + 2) xs @ ys) = Some (Inr (True, c2, []))"
      using "1.prems"(1) opn st go s by (simp add: spec_parse.simps [of time c])
    from "1.IH" [OF opn step HOL.refl HOL.refl HOL.refl TrueI this "1.prems"(2) d] show ?thesis
      using step opn by (simp add: spec_parse.simps [of time c])
  qed
qed



section \<open>Well-formed requests\<close>

definition header_text :: "(string \<times> string) list \<Rightarrow> string" where
  "header_text hs = concat (map (\<lambda>(f, v). f @ '': '' @ v @ kCRLF) hs)"

fun version_text :: "http_version \<Rightarrow> string" where
  "version_text Http10 = ''HTTP/1.0''"
| "version_text Http11 = ''HTTP/1.1''"
| "version_text Unknown = []"

definition request_text :: "http_method \<Rightarrow> string \<Rightarrow> http_version \<Rightarrow> (string \<times> string) list \<Rightarrow> string" where
  "request_text m target ver hs =
     methodString m @ '' '' @ target @ '' '' @ version_text ver @ kCRLF @ header_text hs @ kCRLF"

definition header_ok :: "string \<times> string \<Rightarrow> bool" where
  "header_ok h \<longleftrightarrow> CHR '':'' \<notin> set (fst h) \<and> CHR 0x0D \<notin> set (fst h) \<and> CHR 0x0D \<notin> set (snd h) \<and>
     trim_end (dropWhile isspace (snd h)) = snd h"

definition add_headers :: "(string \<times> string) list \<Rightarrow> http_request \<Rightarrow> http_request" where
  "add_headers hs r = r\<lparr>hr_headers := foldl (\<lambda>m (f, v). m(f \<mapsto> v)) (hr_headers r) hs\<rparr>"

lemma search_line: "CHR 0x0D \<notin> set xs \<Longrightarrow> search_at kCRLF (xs @ kCRLF @ ys) = Some (length xs)"
  by (induction xs) (auto simp: kCRLF_def)

lemma search_line': "CHR 0x0D \<notin> set xs \<Longrightarrow> search_at kCRLF (xs @ CHR 0x0D # CHR 0x0A # ys) = Some (length xs)"
  using search_line [of xs ys] by (simp add: kCRLF_def)

lemma find_char_stop: "c \<notin> set xs \<Longrightarrow> find_char c (xs @ c # ys) = length xs"
  by (induction xs) auto

lemma find_char_absent: "c \<notin> set xs \<Longrightarrow> find_char c xs = length xs"
  by (induction xs) auto

lemma split_line: "take (length l) (l @ kCRLF @ t) = l" "drop (length l + 2) (l @ kCRLF @ t) = t"
  by (simp_all add: kCRLF_def)

lemma spec_step_header_line:
  assumes "hc_state c = ExpectHeaders" and "CHR 0x0D \<notin> set l" and "find_char (CHR '':'') l \<noteq> length l"
  shows "spec_step time c (l @ kCRLF @ t) = Inr (True, True,
    c\<lparr>hc_request := addHeader (take (find_char (CHR '':'') l) l) (drop (find_char (CHR '':'') l + 1) l) (hc_request c)\<rparr>, t)"
  using assms(1,3) unfolding spec_step_def search_line [OF assms(2)] by (simp add: kCRLF_def Let_def)

lemma spec_step_request_line:
  assumes "hc_state c = ExpectRequestLine" and "CHR 0x0D \<notin> set l" and "processRequestLine l (hc_request c) = Inr (True, r)"
  shows "spec_step time c (l @ kCRLF @ t) = Inr (True, True,
    c\<lparr>hc_request := r\<lparr>hr_receiveTime := time\<rparr>, hc_state := ExpectHeaders\<rparr>, t)"
  using assms(1,3) unfolding spec_step_def search_line [OF assms(2)] by (simp add: kCRLF_def Let_def)

lemma spec_parse_headers:
  assumes "hc_state c = ExpectHeaders" and "list_all header_ok hs"
  shows "spec_parse time c (header_text hs @ kCRLF @ rest) =
    (case contentLength (add_headers hs (hc_request c)) of
       Inl f \<Rightarrow> Some (Inl f)
     | Inr (n, r) \<Rightarrow> Some (Inr (True, c\<lparr>hc_request := r, hc_state := if n = 0 then GotAll else ExpectBody\<rparr>, rest)))"
  using assms
proof (induction hs arbitrary: c)
  case Nil
  have "search_at kCRLF (kCRLF @ rest) = Some 0" using search_line [of "[]" rest] by simp
  then show ?case using Nil.prems(1)
    by (cases "contentLength (hc_request c)")
      (auto simp: spec_parse.simps [of time c] spec_step_def header_text_def add_headers_def kCRLF_def)
next
  case (Cons h hs)
  obtain f v where h: "h = (f, v)" by (cases h)
  let ?line = "f @ '': '' @ v" and ?s = "header_text (h # hs) @ kCRLF @ rest"
  have ok: "CHR '':'' \<notin> set f" "CHR 0x0D \<notin> set f" "CHR 0x0D \<notin> set v" "trim_end (dropWhile isspace v) = v"
    using Cons.prems(2) h by (auto simp: header_ok_def)
  have s: "?s = ?line @ kCRLF @ header_text hs @ kCRLF @ rest" by (simp add: header_text_def h)
  have cr: "CHR 0x0D \<notin> set ?line" using ok by auto
  have colon: "find_char (CHR '':'') ?line = length f" using find_char_stop [OF ok(1), of "'' '' @ v"] by simp
  have add: "addHeader f (CHR '' '' # v) r = r\<lparr>hr_headers := (hr_headers r)(f \<mapsto> v)\<rparr>" for r
    using ok(4) by (simp add: addHeader_def isspace_def)
  let ?c = "c\<lparr>hc_request := (hc_request c)\<lparr>hr_headers := (hr_headers (hc_request c))(f \<mapsto> v)\<rparr>\<rparr>"
  have step: "spec_step time c ?s = Inr (True, True, ?c, header_text hs @ kCRLF @ rest)"
    using spec_step_header_line [OF Cons.prems(1) cr, of time "header_text hs @ kCRLF @ rest"] colon add
    unfolding s by simp
  have "add_headers (h # hs) (hc_request c) = add_headers hs (hc_request ?c)" by (simp add: add_headers_def h)
  moreover have "spec_parse time c ?s = spec_parse time ?c (header_text hs @ kCRLF @ rest)"
    using step Cons.prems(1) by (subst spec_parse.simps) simp
  ultimately show ?case using Cons.IH [of ?c] Cons.prems by (auto split: sum.splits)
qed

lemma processRequestLine_text:
  assumes "m \<noteq> Invalid" and "CHR '' '' \<notin> set target" and "ver \<noteq> Unknown" and "hr_method r = Invalid"
  shows "processRequestLine (methodString m @ '' '' @ target @ '' '' @ version_text ver) r =
    Inr (True, (setTarget target (r\<lparr>hr_method := m\<rparr>))\<lparr>hr_version := ver\<rparr>)"
proof -
  have sp: "CHR '' '' \<notin> set (methodString m)" by (cases m) auto
  have mo: "method_of (methodString m) = m" using assms(1) by (cases m) (auto simp: method_of_def)
  have f1: "find_char (CHR '' '') (methodString m @ CHR '' '' # target @ CHR '' '' # version_text ver) = length (methodString m)"
    by (rule find_char_stop [OF sp])
  have f2: "find_char (CHR '' '') (target @ CHR '' '' # version_text ver) = length target"
    by (rule find_char_stop [OF assms(2)])
  have v: "setVersion (version_text ver) q = (True, q\<lparr>hr_version := ver\<rparr>)" for q
    using assms(3) by (cases ver) (auto simp: setVersion_def)
  show ?thesis
    using assms(1,4) by (simp add: processRequestLine_def f1 f2 setMethod_def mo v Let_def)
qed

lemma request_parsed:
  assumes "m \<noteq> Invalid" and "CHR '' '' \<notin> set target" and "CHR 0x0D \<notin> set target" and "ver \<noteq> Unknown"
    and "list_all header_ok hs" and "hc_state c = ExpectRequestLine" and "hr_method (hc_request c) = Invalid"
  shows "spec_parse time c (request_text m target ver hs @ rest) =
    (let r = add_headers hs ((setTarget target ((hc_request c)\<lparr>hr_method := m\<rparr>))\<lparr>hr_version := ver, hr_receiveTime := time\<rparr>) in
     case contentLength r of
       Inl f \<Rightarrow> Some (Inl f)
     | Inr (n, r1) \<Rightarrow> Some (Inr (True, c\<lparr>hc_request := r1, hc_state := if n = 0 then GotAll else ExpectBody\<rparr>, rest)))"
proof -
  let ?line = "methodString m @ '' '' @ target @ '' '' @ version_text ver"
  let ?s = "request_text m target ver hs @ rest"
  let ?r = "(setTarget target ((hc_request c)\<lparr>hr_method := m\<rparr>))\<lparr>hr_version := ver\<rparr>"
  let ?c = "c\<lparr>hc_request := ?r\<lparr>hr_receiveTime := time\<rparr>, hc_state := ExpectHeaders\<rparr>"
  have s: "?s = ?line @ kCRLF @ header_text hs @ kCRLF @ rest" by (simp add: request_text_def)
  have cr: "CHR 0x0D \<notin> set ?line" using assms(3) by (cases m; cases ver) auto
  have p: "processRequestLine ?line (hc_request c) = Inr (True, ?r)"
    by (rule processRequestLine_text [OF assms(1,2,4,7)])
  have step: "spec_step time c ?s = Inr (True, True, ?c, header_text hs @ kCRLF @ rest)"
    unfolding s by (rule spec_step_request_line [OF assms(6) cr p])
  have "spec_parse time c ?s = spec_parse time ?c (header_text hs @ kCRLF @ rest)"
    using step assms(6) by (subst spec_parse.simps) simp
  with spec_parse_headers [OF _ assms(5), of ?c time rest] show ?thesis
    by (simp add: Let_def split: sum.splits)
qed



section \<open>Where the parser falls short\<close>

lemma digit_not_special: "is_digit c \<Longrightarrow> \<not> isspace c \<and> c \<noteq> CHR ''-'' \<and> c \<noteq> CHR ''+'' \<and> c \<noteq> CHR 0x0D"
  by (auto simp: is_digit_def isspace_def)

text \<open>\<open>stoll\<close> reads back what the decimal printer wrote.\<close>

lemma stoll_dec_digits: "n < 2 ^ 63 \<Longrightarrow> stoll (dec_digits n) = Inr (int n)"
proof -
  assume n: "n < 2 ^ 63"
  note d = dec_digits_value [of n]
  then obtain c cs where cs: "dec_digits n = c # cs" by (cases "dec_digits n") auto
  with d have c: "is_digit c" by simp
  have "takeWhile is_digit (c # cs) = c # cs" using d cs takeWhile_digits [of "c # cs"] by metis
  moreover have "int n < 2 ^ 63" using n by (metis of_nat_less_iff of_nat_numeral of_nat_power)
  ultimately show ?thesis
    using digit_not_special [OF c] d c unfolding cs by (simp add: stoll_def strto_def Let_def takeWhile_digits)
qed

lemma digits_header_ok: "header_ok (''Content-Length'', dec_digits n)"
proof -
  note d = dec_digits_value [of n]
  then have "\<not> isspace c" "c \<noteq> CHR 0x0D" if "c \<in> set (dec_digits n)" for c
    using that digit_not_special [of c] by (auto simp: list_all_iff)
  then have "dropWhile isspace xs = xs" if "set xs \<subseteq> set (dec_digits n)" for xs
    using that by (cases xs) auto
  from this [of "dec_digits n"] this [of "rev (dec_digits n)"] show ?thesis
    using \<open>\<And>c. c \<in> set (dec_digits n) \<Longrightarrow> c \<noteq> CHR 0x0D\<close> by (auto simp: header_ok_def trim_end_def)
qed

text \<open>
  A body that arrives together with its headers is not read: when a request with a
  content length and its whole body are in the buffer, the call stops after the headers
  with the body unread and the request incomplete. Only further input from the peer makes
  the server look at it again.
\<close>

theorem body_in_same_segment_waits:
  assumes "0 < length body" and "length body < 2 ^ 63" and "CHR '' '' \<notin> set target" and "CHR 0x0D \<notin> set target"
  shows "\<exists>c. spec_parse time (new_HttpContext :: 'a http_context)
      (request_text Post target Http11 [(''Content-Length'', dec_digits (length body))] @ body) = Some (Inr (True, c, body)) \<and>
    hc_state c = ExpectBody \<and> contents (hr_body (hc_request c)) = [] \<and> hr_content_length (hc_request c) = length body"
proof -
  note d = dec_digits_value [of "length body"]
  have pos: "ssize_to_size (int (length body)) = length body" by simp
  show ?thesis
    using request_parsed [of Post target Http11 "[(''Content-Length'', dec_digits (length body))]"
        "new_HttpContext :: 'a http_context" time body] assms d
    by (simp add: digits_header_ok new_HttpContext_def new_HttpRequest_def Let_def add_headers_def setTarget_def
        contentLength_def initContentLength_def getHeader_def stoll_dec_digits)
qed

theorem body_in_same_segment_waits_witness:
  "\<exists>c. spec_parse (DateTime 0) (new_HttpContext :: nat http_context)
      (request_text Post ''/f'' Http11 [(''Content-Length'', dec_digits 1)] @ ''x'') = Some (Inr (True, c, ''x'')) \<and>
    hc_state c = ExpectBody"
  using body_in_same_segment_waits [of "''x''" "''/f''" "DateTime 0", where 'a = nat] by auto

text \<open>
  The content length of a request survives \<open>reset()\<close>, because \<open>HttpRequest::swap\<close> leaves it out:
  on a connection that is kept alive, the request after one with a body is taken to have
  a body too, and a plain \<open>GET\<close> is not answered.
\<close>

theorem reset_keeps_content_length:
  assumes "0 < hr_content_length (hc_request c)" and "CHR '' '' \<notin> set target" and "CHR 0x0D \<notin> set target"
  shows "\<exists>c1. spec_parse time (reset_HttpContext c) (request_text Get target Http11 [] @ rest) = Some (Inr (True, c1, rest)) \<and>
    hc_state c1 = ExpectBody"
  using request_parsed [of Get target Http11 "[]" "reset_HttpContext c" time rest] assms
  by (auto simp: reset_HttpContext_def swap_HttpRequest_def new_HttpRequest_def Let_def add_headers_def setTarget_def
      contentLength_def initContentLength_def)

theorem reset_keeps_content_length_witness:
  "\<exists>c1. spec_parse (DateTime 0) (reset_HttpContext ((new_HttpContext :: nat http_context)
        \<lparr>hc_request := new_HttpRequest\<lparr>hr_content_length := 5\<rparr>\<rparr>))
      (request_text Get ''/'' Http11 [] @ []) = Some (Inr (True, c1, [])) \<and> hc_state c1 = ExpectBody"
  by (rule reset_keeps_content_length) simp_all

end
