(* ===== verification/Net_TcpConnection.thy ===== *)
theory Net_TcpConnection
  imports Net_Buffer Net_EventLoop Errno
begin

text \<open>
  \<open>net/TcpConnection.h\<close> and \<open>net/TcpConnection.cpp\<close>: one connection with its channel, the
  poller and the loop it is registered with, its two buffers, and the functors it queues.
  \<open>kw\<close> is the kernel's answer to the n-th \<open>write\<close> on the socket; \<open>u\<close> says which operations of the
  connection a user callback calls (none of them calls back synchronously). The fields
  from \<open>c_writes\<close> on record what happened: the number of writes, the bytes the kernel
  accepted, the bytes the connection took charge of, and the callbacks called.
\<close>

unbundle bit_operations_syntax

section \<open>State\<close>

datatype conn_state = kDisconnected | kConnecting | kConnected | kDisconnecting

fun stateToString :: "conn_state \<Rightarrow> string" where
  "stateToString kDisconnected = ''kDisconnected''"
| "stateToString kConnecting = ''kConnecting''"
| "stateToString kConnected = ''kConnected''"
| "stateToString kDisconnecting = ''kDisconnecting''"

datatype conn_functor =
    FSend string | FShutdown | FForceClose | FStartRead | FWriteComplete | FHighWater nat | FConnectDestroyed

datatype conn_event =
    ConnectionCb bool | MessageCb string | CloseCallback | WriteCompleteCb | HighWaterMarkCb nat
  | ShutdownWrite string

record conn =
  c_state :: conn_state
  c_reading :: bool
  c_channel :: channel
  c_epoll :: epoll
  c_loop :: "conn_functor event_loop"
  c_inputBuffer :: buffer
  c_outputBuffer :: buffer
  c_highWaterMark :: nat
  c_writeCompleteCallback :: bool
  c_highWaterMarkCallback :: bool
  c_delayed :: nat
  c_writes :: nat
  c_wire :: string
  c_sent :: string
  c_trace :: "conn_event list"

datatype conn_call =
    CallSend string | CallShutdown | CallForceClose | CallForceCloseWithDelay | CallStartRead
  | CallTake nat | CallRetrieveAll

type_synonym kernel_write = "nat \<Rightarrow> string \<Rightarrow> write_answer"
type_synonym user_code = "conn_event \<Rightarrow> conn_call list"

definition new_TcpConnection :: "nat \<Rightarrow> int \<Rightarrow> conn_functor event_loop \<Rightarrow> epoll \<Rightarrow> conn" where
  "new_TcpConnection ptr sockfd l ep =
     \<lparr>c_state = kConnecting, c_reading = True,
      c_channel = setErrorCallback (ch_setCloseCallback (setWriteCallback (setReadCallback (new_Channel ptr sockfd)))),
      c_epoll = ep, c_loop = l,
      c_inputBuffer = new_Buffer kInitialSize, c_outputBuffer = new_Buffer kInitialSize,
      c_highWaterMark = 64 * 1024 * 1024, c_writeCompleteCallback = False, c_highWaterMarkCallback = False,
      c_delayed = 0, c_writes = 0, c_wire = [], c_sent = [], c_trace = []\<rparr>"

definition connected :: "conn \<Rightarrow> bool" where
  "connected c \<longleftrightarrow> c_state c = kConnected"

definition disconnected :: "conn \<Rightarrow> bool" where
  "disconnected c \<longleftrightarrow> c_state c = kDisconnected"

definition setWriteCompleteCallback :: "conn \<Rightarrow> conn" where
  "setWriteCompleteCallback c = c\<lparr>c_writeCompleteCallback := True\<rparr>"

definition setHighWaterMarkCallback :: "nat \<Rightarrow> conn \<Rightarrow> conn" where
  "setHighWaterMarkCallback mark c = c\<lparr>c_highWaterMarkCallback := True, c_highWaterMark := mark\<rparr>"

definition inLoop :: "nat \<Rightarrow> conn \<Rightarrow> bool" where
  "inLoop tid c = isInLoopThread tid (c_loop c)"

definition queue_functor :: "nat \<Rightarrow> conn_functor \<Rightarrow> conn \<Rightarrow> conn" where
  "queue_functor tid f c = c\<lparr>c_loop := queueInLoop tid f (c_loop c)\<rparr>"

definition on_channel :: "(channel \<Rightarrow> epoll \<Rightarrow> (channel \<times> epoll) res) \<Rightarrow> conn \<Rightarrow> conn res" where
  "on_channel f c = bindR (f (c_channel c) (c_epoll c)) (\<lambda>(ch, ep). Inr (c\<lparr>c_channel := ch, c_epoll := ep\<rparr>))"

definition log_event :: "conn_event \<Rightarrow> conn \<Rightarrow> conn" where
  "log_event e c = c\<lparr>c_trace := c_trace c @ [e]\<rparr>"

section \<open>Sending\<close>

text \<open>The first part of \<open>sendInLoop\<close>: nwrote, remaining, faultError and the connection.\<close>

definition try_write :: "kernel_write \<Rightarrow> nat \<Rightarrow> string \<Rightarrow> conn \<Rightarrow> nat \<times> nat \<times> bool \<times> conn" where
  "try_write kw tid data c =
     (if \<not> isWriting (c_channel c) \<and> readableBytes (c_outputBuffer c) = 0 then
        (case kw (c_writes c) data of
           Wrote n \<Rightarrow>
             let c1 = c\<lparr>c_writes := c_writes c + 1, c_wire := c_wire c @ take n data\<rparr> in
             (n, length data - n, False,
              if length data - n = 0 \<and> c_writeCompleteCallback c then queue_functor tid FWriteComplete c1 else c1)
         | WriteFailed e \<Rightarrow>
             (0, length data, e \<noteq> EWOULDBLOCK \<and> (e = EPIPE \<or> e = ECONNRESET), c\<lparr>c_writes := c_writes c + 1\<rparr>))
      else (0, length data, False, c))"

text \<open>Its second part: what was not written goes to the output buffer.\<close>

definition buffer_output :: "nat \<Rightarrow> string \<Rightarrow> conn \<Rightarrow> conn res" where
  "buffer_output tid rest c =
     (let oldLen = readableBytes (c_outputBuffer c); remaining = length rest;
          c1 = (if c_highWaterMark c \<le> oldLen + remaining \<and> oldLen < c_highWaterMark c \<and>
                   c_highWaterMarkCallback c
                then queue_functor tid (FHighWater (oldLen + remaining)) c else c) in
      bindR (append_bytes rest (c_outputBuffer c1)) (\<lambda>out.
        let c2 = c1\<lparr>c_outputBuffer := out\<rparr> in
        if \<not> isWriting (c_channel c2) then on_channel (enableWriting (inLoop tid c)) c2 else Inr c2))"

definition sendInLoop :: "kernel_write \<Rightarrow> nat \<Rightarrow> string \<Rightarrow> conn \<Rightarrow> conn res" where
  "sendInLoop kw tid data c = assertInLoopThread (inLoop tid c)
     (if c_state c = kDisconnected then Inr c
      else let (nwrote, remaining, faultError, c1) = try_write kw tid data c in
        cassert (remaining \<le> length data)
          (if faultError then Inr c1
           else let c2 = c1\<lparr>c_sent := c_sent c1 @ data\<rparr> in
             if 0 < remaining then buffer_output tid (take remaining (drop nwrote data)) c2 else Inr c2))"

definition send :: "kernel_write \<Rightarrow> nat \<Rightarrow> string \<Rightarrow> conn \<Rightarrow> conn res" where
  "send kw tid message c =
     (if c_state c = kConnected then
        (if inLoop tid c then sendInLoop kw tid message c else Inr (queue_functor tid (FSend message) c))
      else Inr c)"

text \<open>\<open>send(Buffer*)\<close>: the buffer is drained, whether it is sent at once or queued.\<close>

definition send_buffer :: "kernel_write \<Rightarrow> nat \<Rightarrow> buffer \<Rightarrow> conn \<Rightarrow> (buffer \<times> conn) res" where
  "send_buffer kw tid buf c =
     (if c_state c = kConnected then
        (if inLoop tid c then bindR (sendInLoop kw tid (contents buf) c) (\<lambda>c1. Inr (retrieveAll buf, c1))
         else bindR (retrieveAllAsString buf) (\<lambda>(s, buf1). Inr (buf1, queue_functor tid (FSend s) c)))
      else Inr (buf, c))"

section \<open>Closing\<close>

definition shutdownInLoop :: "nat \<Rightarrow> conn \<Rightarrow> conn res" where
  "shutdownInLoop tid c = assertInLoopThread (inLoop tid c)
     (Inr (if \<not> isWriting (c_channel c) then log_event (ShutdownWrite (contents (c_outputBuffer c))) c else c))"

definition shutdown :: "nat \<Rightarrow> conn \<Rightarrow> conn res" where
  "shutdown tid c =
     (if c_state c = kConnected then
        let c1 = c\<lparr>c_state := kDisconnecting\<rparr> in
        if inLoop tid c1 then shutdownInLoop tid c1 else Inr (queue_functor tid FShutdown c1)
      else Inr c)"

definition forceClose :: "nat \<Rightarrow> conn \<Rightarrow> conn" where
  "forceClose tid c =
     (if c_state c = kConnected \<or> c_state c = kDisconnecting
      then queue_functor tid FForceClose (c\<lparr>c_state := kDisconnecting\<rparr>) else c)"

text \<open>\<open>c_delayed\<close> counts the timers that will call \<open>forceClose\<close> through a weak pointer.\<close>

definition forceCloseWithDelay :: "conn \<Rightarrow> conn" where
  "forceCloseWithDelay c =
     (if c_state c = kConnected \<or> c_state c = kDisconnecting
      then c\<lparr>c_state := kDisconnecting, c_delayed := c_delayed c + 1\<rparr> else c)"

definition startReadInLoop :: "nat \<Rightarrow> conn \<Rightarrow> conn res" where
  "startReadInLoop tid c = assertInLoopThread (inLoop tid c)
     (if \<not> c_reading c \<or> \<not> isReading (c_channel c)
      then bindR (on_channel (enableReading (inLoop tid c)) c) (\<lambda>c1. Inr (c1\<lparr>c_reading := True\<rparr>))
      else Inr c)"

definition startRead :: "nat \<Rightarrow> conn \<Rightarrow> conn res" where
  "startRead tid c = (if inLoop tid c then startReadInLoop tid c else Inr (queue_functor tid FStartRead c))"

text \<open>
  \<open>stopReadInLoop\<close> asks the loop to run \<open>stopReadInLoop\<close>; in the loop thread that is a call of
  itself. The value \<open>None\<close> is a call that does not return.
\<close>

partial_function (option) stopReadInLoop :: "(conn \<Rightarrow> conn) \<Rightarrow> nat \<Rightarrow> conn \<Rightarrow> conn option" where
  "stopReadInLoop queue tid c =
     (if inLoop tid c then stopReadInLoop queue tid c else Some (queue c))"

section \<open>User callbacks\<close>

text \<open>A callback takes at most what is readable from the input buffer, as \<open>retrieve\<close> requires.\<close>

fun run_call :: "kernel_write \<Rightarrow> nat \<Rightarrow> conn_call \<Rightarrow> conn \<Rightarrow> conn res" where
  "run_call kw tid (CallSend m) c = send kw tid m c"
| "run_call kw tid CallShutdown c = shutdown tid c"
| "run_call kw tid CallForceClose c = Inr (forceClose tid c)"
| "run_call kw tid CallForceCloseWithDelay c = Inr (forceCloseWithDelay c)"
| "run_call kw tid CallStartRead c = startRead tid c"
| "run_call kw tid (CallTake n) c =
     bindR (retrieve (min n (readableBytes (c_inputBuffer c))) (c_inputBuffer c)) (\<lambda>b. Inr (c\<lparr>c_inputBuffer := b\<rparr>))"
| "run_call kw tid CallRetrieveAll c = Inr (c\<lparr>c_inputBuffer := retrieveAll (c_inputBuffer c)\<rparr>)"

fun run_calls :: "kernel_write \<Rightarrow> nat \<Rightarrow> conn_call list \<Rightarrow> conn \<Rightarrow> conn res" where
  "run_calls kw tid [] c = Inr c"
| "run_calls kw tid (k # ks) c = bindR (run_call kw tid k c) (run_calls kw tid ks)"

definition callback :: "kernel_write \<Rightarrow> user_code \<Rightarrow> nat \<Rightarrow> conn_event \<Rightarrow> conn \<Rightarrow> conn res" where
  "callback kw u tid e c = run_calls kw tid (u e) (log_event e c)"

text \<open>The callback a connection has when the user sets none: read and forget.\<close>

definition defaultMessageCallback :: user_code where
  "defaultMessageCallback e = (case e of MessageCb s \<Rightarrow> [CallRetrieveAll] | _ \<Rightarrow> [])"

section \<open>Events of the channel\<close>

definition connectEstablished :: "kernel_write \<Rightarrow> user_code \<Rightarrow> nat \<Rightarrow> conn \<Rightarrow> conn res" where
  "connectEstablished kw u tid c = assertInLoopThread (inLoop tid c)
     (cassert (c_state c = kConnecting)
       (bindR (on_channel (enableReading (inLoop tid c))
                (c\<lparr>c_state := kConnected, c_channel := tie (c_channel c)\<rparr>)) (\<lambda>c1.
        callback kw u tid (ConnectionCb (connected c1)) c1)))"

definition connectDestroyed :: "kernel_write \<Rightarrow> user_code \<Rightarrow> nat \<Rightarrow> conn \<Rightarrow> conn res" where
  "connectDestroyed kw u tid c = assertInLoopThread (inLoop tid c)
     (bindR (if c_state c = kConnected
             then bindR (on_channel (disableAll (inLoop tid c)) (c\<lparr>c_state := kDisconnected\<rparr>)) (\<lambda>c1.
                  callback kw u tid (ConnectionCb (connected c1)) c1)
             else Inr c)
       (on_channel (channel_remove (inLoop tid c))))"

definition destroy_TcpConnection :: "conn \<Rightarrow> unit res" where
  "destroy_TcpConnection c = cassert (c_state c = kDisconnected) (Inr ())"

definition conn_handleClose :: "kernel_write \<Rightarrow> user_code \<Rightarrow> nat \<Rightarrow> conn \<Rightarrow> conn res" where
  "conn_handleClose kw u tid c = assertInLoopThread (inLoop tid c)
     (cassert (c_state c = kConnected \<or> c_state c = kDisconnecting)
       (bindR (on_channel (disableAll (inLoop tid c)) (c\<lparr>c_state := kDisconnected\<rparr>)) (\<lambda>c1.
        bindR (callback kw u tid (ConnectionCb (connected c1)) c1) (\<lambda>c2.
        callback kw u tid CloseCallback c2))))"

text \<open>\<open>handleError\<close> only logs.\<close>

definition conn_handleRead :: "kernel_write \<Rightarrow> user_code \<Rightarrow> (nat list \<Rightarrow> nat + string) \<Rightarrow> nat \<Rightarrow> conn \<Rightarrow> conn res" where
  "conn_handleRead kw u readv tid c = assertInLoopThread (inLoop tid c)
     (bindR (readFd readv (c_inputBuffer c)) (\<lambda>(n, err, buf).
        let c1 = c\<lparr>c_inputBuffer := buf\<rparr> in
        if 0 < n then callback kw u tid (MessageCb (contents buf)) c1
        else if n = 0 then conn_handleClose kw u tid c1
        else Inr c1))"

text \<open>
  \<open>handleWrite\<close> with the \<open>retrieve\<close> it calls as an argument: the checked one, and below the
  one of a build without assertions. The result of \<open>write\<close> is passed on whatever its sign.
\<close>

definition handleWrite_with :: "(nat \<Rightarrow> buffer \<Rightarrow> buffer res) \<Rightarrow> kernel_write \<Rightarrow> nat \<Rightarrow> conn \<Rightarrow> conn res" where
  "handleWrite_with retr kw tid c = assertInLoopThread (inLoop tid c)
     (if \<not> isWriting (c_channel c) then Inr c
      else let data = contents (c_outputBuffer c);
               (n, c1) = (case kw (c_writes c) data of
                   Wrote k \<Rightarrow> (int k, c\<lparr>c_writes := c_writes c + 1, c_wire := c_wire c @ take k data\<rparr>)
                 | WriteFailed e \<Rightarrow> (- 1, c\<lparr>c_writes := c_writes c + 1\<rparr>)) in
        bindR (retr (ssize_to_size n) (c_outputBuffer c1)) (\<lambda>out.
          let c2 = c1\<lparr>c_outputBuffer := out\<rparr> in
          if readableBytes out \<noteq> 0 then Inr c2
          else bindR (on_channel (disableWriting (inLoop tid c)) c2) (\<lambda>c3.
            let c4 = (if c_writeCompleteCallback c3 then queue_functor tid FWriteComplete c3 else c3) in
            if c_state c4 = kDisconnecting then shutdownInLoop tid c4 else Inr c4)))"

definition handleWrite :: "kernel_write \<Rightarrow> nat \<Rightarrow> conn \<Rightarrow> conn res" where
  "handleWrite = handleWrite_with retrieve"

definition handleWrite_release :: "kernel_write \<Rightarrow> nat \<Rightarrow> conn \<Rightarrow> conn res" where
  "handleWrite_release = handleWrite_with (\<lambda>n b. Inr (retrieve_unchecked n b))"

definition forceCloseInLoop :: "kernel_write \<Rightarrow> user_code \<Rightarrow> nat \<Rightarrow> conn \<Rightarrow> conn res" where
  "forceCloseInLoop kw u tid c = assertInLoopThread (inLoop tid c)
     (if c_state c = kConnected \<or> c_state c = kDisconnecting then conn_handleClose kw u tid c else Inr c)"

section \<open>The loop's view\<close>

text \<open>What \<open>Channel::handleEvent\<close> does with the four callbacks bound to a connection.\<close>

fun conn_callback :: "kernel_write \<Rightarrow> user_code \<Rightarrow> (nat list \<Rightarrow> nat + string) \<Rightarrow> nat \<Rightarrow> channel_cb \<Rightarrow> conn \<Rightarrow> conn res" where
  "conn_callback kw u readv tid CloseCb c = conn_handleClose kw u tid c"
| "conn_callback kw u readv tid ErrorCb c = Inr c"
| "conn_callback kw u readv tid ReadCb c = conn_handleRead kw u readv tid c"
| "conn_callback kw u readv tid WriteCb c = handleWrite kw tid c"

fun conn_callbacks :: "kernel_write \<Rightarrow> user_code \<Rightarrow> (nat list \<Rightarrow> nat + string) \<Rightarrow> nat \<Rightarrow> channel_cb list \<Rightarrow> conn \<Rightarrow> conn res" where
  "conn_callbacks kw u readv tid [] c = Inr c"
| "conn_callbacks kw u readv tid (k # ks) c = bindR (conn_callback kw u readv tid k c) (conn_callbacks kw u readv tid ks)"

definition conn_handleEvent :: "kernel_write \<Rightarrow> user_code \<Rightarrow> (nat list \<Rightarrow> nat + string) \<Rightarrow> nat \<Rightarrow> event_mask \<Rightarrow> conn \<Rightarrow> conn res" where
  "conn_handleEvent kw u readv tid r c =
     (let c1 = c\<lparr>c_channel := setRevents r (c_channel c)\<rparr> in
      conn_callbacks kw u readv tid (handleEvent True (c_channel c1)) c1)"

fun run_functor :: "kernel_write \<Rightarrow> user_code \<Rightarrow> nat \<Rightarrow> conn_functor \<Rightarrow> conn \<Rightarrow> conn res" where
  "run_functor kw u tid (FSend m) c = sendInLoop kw tid m c"
| "run_functor kw u tid FShutdown c = shutdownInLoop tid c"
| "run_functor kw u tid FForceClose c = forceCloseInLoop kw u tid c"
| "run_functor kw u tid FStartRead c = startReadInLoop tid c"
| "run_functor kw u tid FWriteComplete c = callback kw u tid WriteCompleteCb c"
| "run_functor kw u tid (FHighWater n) c = callback kw u tid (HighWaterMarkCb n) c"
| "run_functor kw u tid FConnectDestroyed c = connectDestroyed kw u tid c"

text \<open>The loop takes the functor at the head of its queue.\<close>

definition run_next :: "kernel_write \<Rightarrow> user_code \<Rightarrow> nat \<Rightarrow> conn \<Rightarrow> conn res" where
  "run_next kw u tid c = (case pendingFunctors (c_loop c) of
       [] \<Rightarrow> Inr c
     | f # fs \<Rightarrow> run_functor kw u tid f (c\<lparr>c_loop := (c_loop c)\<lparr>pendingFunctors := fs\<rparr>\<rparr>))"

section \<open>Invariant\<close>

definition chan_inv :: "channel \<Rightarrow> epoll \<Rightarrow> bool" where
  "chan_inv ch ep \<longleftrightarrow> channel_ok ep (ch_ptr ch) ch \<and>
     (channelMap ep (ch_fd ch) = None \<longrightarrow> interest ep (ch_fd ch) = None) \<and>
     (ch_index ch = kNew \<longrightarrow> channelMap ep (ch_fd ch) = None)"

text \<open>
  The order in which callbacks may be called: up, then messages, then down, then close.
  While the connection is up the write side is shut down only when all output is written.
\<close>

fun life_step :: "nat \<Rightarrow> conn_event \<Rightarrow> nat option" where
  "life_step ph (ConnectionCb True) = (if ph = 0 then Some 1 else None)"
| "life_step ph (ConnectionCb False) = (if ph = 1 then Some 2 else None)"
| "life_step ph CloseCallback = (if ph = 2 then Some 3 else None)"
| "life_step ph (MessageCb m) = (if ph = 1 then Some 1 else None)"
| "life_step ph (ShutdownWrite out) = (if ph = 0 \<or> (ph = 1 \<and> out \<noteq> []) then None else Some ph)"
| "life_step ph WriteCompleteCb = (if ph = 0 then None else Some ph)"
| "life_step ph (HighWaterMarkCb n) = (if ph = 0 then None else Some ph)"

definition life :: "conn_event list \<Rightarrow> nat option" where
  "life es = foldl (\<lambda>ph e. case ph of None \<Rightarrow> None | Some k \<Rightarrow> life_step k e) (Some 0) es"

definition out_mask :: "string \<Rightarrow> event_mask" where
  "out_mask out = (if out = [] then kReadEvent else kReadEvent OR kWriteEvent)"

definition conn_inv :: "conn \<Rightarrow> bool" where
  "conn_inv c \<longleftrightarrow> buffer_inv (c_inputBuffer c) \<and> buffer_inv (c_outputBuffer c) \<and>
     chan_inv (c_channel c) (c_epoll c) \<and> c_wire c @ contents (c_outputBuffer c) = c_sent c \<and>
     (case c_state c of
        kConnecting \<Rightarrow> ch_index (c_channel c) = kNew \<and> isNoneEvent (c_channel c) \<and> c_sent c = [] \<and>
          pendingFunctors (c_loop c) = [] \<and> life (c_trace c) = Some 0
      | kDisconnected \<Rightarrow> isNoneEvent (c_channel c) \<and> ch_index (c_channel c) \<noteq> kAdded \<and>
          (life (c_trace c) = Some 2 \<or> life (c_trace c) = Some 3)
      | _ \<Rightarrow> ch_index (c_channel c) = kAdded \<and> life (c_trace c) = Some 1 \<and>
          ch_events (c_channel c) = out_mask (contents (c_outputBuffer c)))"

definition is_open :: "conn \<Rightarrow> bool" where
  "is_open c \<longleftrightarrow> c_state c = kConnected \<or> c_state c = kDisconnecting"

lemma life_append: "life (es @ [e]) = (case life es of None \<Rightarrow> None | Some k \<Rightarrow> life_step k e)"
  by (simp add: life_def)

lemma out_mask_writing: "bit (out_mask out) 2 \<longleftrightarrow> out \<noteq> []"
  by (simp add: out_mask_def bit_or_iff bit_kReadEvent bit_kWriteEvent)

lemma out_mask_ops:
  "out_mask out OR kWriteEvent = kReadEvent OR kWriteEvent" "out_mask out OR kReadEvent = out_mask out"
  "out_mask out AND NOT kWriteEvent = kReadEvent"
  by (rule bit_eqI; auto simp: out_mask_def bit_simps bit_kReadEvent bit_kWriteEvent)+

lemma kRead_neq: "kReadEvent \<noteq> kNoneEvent" "kReadEvent OR kWriteEvent \<noteq> kNoneEvent"
proof -
  have "bit kReadEvent 0" "bit (kReadEvent OR kWriteEvent) 0" by (simp_all add: bit_kReadEvent bit_or_iff)
  then show "kReadEvent \<noteq> kNoneEvent" "kReadEvent OR kWriteEvent \<noteq> kNoneEvent"
    by (auto simp: kNoneEvent_def)
qed

text \<open>With its invariant, a mask update of the connection's channel always succeeds.\<close>

lemma chan_update_returns:
  assumes "chan_inv ch ep"
  shows "returns (channel_update True (ch\<lparr>ch_events := m\<rparr>) ep) (\<lambda>(ch', ep'). chan_inv ch' ep' \<and>
    ch' = ch\<lparr>ch_events := m, ch_addedToLoop := True,
             ch_index := if ch_index ch = kAdded \<and> m = kNoneEvent then kDeleted else kAdded\<rparr>)"
  using assms channel_update_outcome [of ep "ch_ptr ch" ch m]
  by (auto simp: chan_inv_def channel_ok_def index_defs isNoneEvent_def)

definition remask :: "event_mask \<Rightarrow> channel \<Rightarrow> channel" where
  "remask m ch = ch\<lparr>ch_events := m, ch_addedToLoop := True,
     ch_index := if ch_index ch = kAdded \<and> m = kNoneEvent then kDeleted else kAdded\<rparr>"

lemma on_channel_returns:
  assumes "chan_inv (c_channel c) (c_epoll c)"
    and "f (c_channel c) (c_epoll c) = channel_update True ((c_channel c)\<lparr>ch_events := m\<rparr>) (c_epoll c)"
  shows "\<exists>ep'. on_channel f c = Inr (c\<lparr>c_channel := remask m (c_channel c), c_epoll := ep'\<rparr>) \<and>
    chan_inv (remask m (c_channel c)) ep'"
  using chan_update_returns [OF assms(1), of m] assms(2) by (auto simp: on_channel_def remask_def elim!: returnsE)

lemma on_channel_masks:
  assumes "chan_inv (c_channel c) (c_epoll c)"
  shows "\<exists>ep'. on_channel (enableWriting True) c =
      Inr (c\<lparr>c_channel := remask (ch_events (c_channel c) OR kWriteEvent) (c_channel c), c_epoll := ep'\<rparr>) \<and>
      chan_inv (remask (ch_events (c_channel c) OR kWriteEvent) (c_channel c)) ep'"
    and "\<exists>ep'. on_channel (disableWriting True) c =
      Inr (c\<lparr>c_channel := remask (ch_events (c_channel c) AND NOT kWriteEvent) (c_channel c), c_epoll := ep'\<rparr>) \<and>
      chan_inv (remask (ch_events (c_channel c) AND NOT kWriteEvent) (c_channel c)) ep'"
    and "\<exists>ep'. on_channel (enableReading True) c =
      Inr (c\<lparr>c_channel := remask (ch_events (c_channel c) OR kReadEvent) (c_channel c), c_epoll := ep'\<rparr>) \<and>
      chan_inv (remask (ch_events (c_channel c) OR kReadEvent) (c_channel c)) ep'"
    and "\<exists>ep'. on_channel (disableAll True) c =
      Inr (c\<lparr>c_channel := remask kNoneEvent (c_channel c), c_epoll := ep'\<rparr>) \<and>
      chan_inv (remask kNoneEvent (c_channel c)) ep'"
  by (rule on_channel_returns [OF assms];
      simp add: enableWriting_def disableWriting_def enableReading_def disableAll_def)+

lemma remask_simps [simp]:
  "ch_events (remask m ch) = m" "ch_fd (remask m ch) = ch_fd ch"
  "ch_index (remask m ch) = (if ch_index ch = kAdded \<and> m = kNoneEvent then kDeleted else kAdded)"
  by (simp_all add: remask_def)

lemma queue_functor_simps [simp]:
  "c_state (queue_functor tid f c) = c_state c" "c_channel (queue_functor tid f c) = c_channel c"
  "c_epoll (queue_functor tid f c) = c_epoll c" "c_inputBuffer (queue_functor tid f c) = c_inputBuffer c"
  "c_outputBuffer (queue_functor tid f c) = c_outputBuffer c" "c_wire (queue_functor tid f c) = c_wire c"
  "c_sent (queue_functor tid f c) = c_sent c" "c_trace (queue_functor tid f c) = c_trace c"
  "c_reading (queue_functor tid f c) = c_reading c" "c_writes (queue_functor tid f c) = c_writes c"
  "c_highWaterMark (queue_functor tid f c) = c_highWaterMark c"
  "c_highWaterMarkCallback (queue_functor tid f c) = c_highWaterMarkCallback c"
  "c_writeCompleteCallback (queue_functor tid f c) = c_writeCompleteCallback c"
  "inLoop tid' (queue_functor tid f c) = inLoop tid' c"
  "threadID (queueInLoop tid f l) = threadID l"
  by (simp_all add: queue_functor_def queueInLoop_def queue_wakeup_def queue_push_def inLoop_def
      isInLoopThread_def wakeup_def)

lemma queue_functor_inv [inv_intros]: "conn_inv c \<Longrightarrow> c_state c \<noteq> kConnecting \<Longrightarrow> conn_inv (queue_functor tid f c)"
  by (simp add: conn_inv_def split: conn_state.splits)

lemma conn_inv_open:
  "is_open c \<Longrightarrow> conn_inv c \<longleftrightarrow> buffer_inv (c_inputBuffer c) \<and> buffer_inv (c_outputBuffer c) \<and>
     chan_inv (c_channel c) (c_epoll c) \<and> c_wire c @ contents (c_outputBuffer c) = c_sent c \<and>
     ch_index (c_channel c) = kAdded \<and> life (c_trace c) = Some 1 \<and>
     ch_events (c_channel c) = out_mask (contents (c_outputBuffer c))"
  by (auto simp: is_open_def conn_inv_def split: conn_state.splits)

lemma inLoop_simps [simp]:
  "inLoop tid (c\<lparr>c_channel := a\<rparr>) = inLoop tid c" "inLoop tid (c\<lparr>c_epoll := b\<rparr>) = inLoop tid c"
  "inLoop tid (c\<lparr>c_state := d\<rparr>) = inLoop tid c" "inLoop tid (c\<lparr>c_outputBuffer := o1\<rparr>) = inLoop tid c"
  "inLoop tid (c\<lparr>c_inputBuffer := o1\<rparr>) = inLoop tid c" "inLoop tid (c\<lparr>c_sent := s\<rparr>) = inLoop tid c"
  "inLoop tid (c\<lparr>c_wire := s\<rparr>) = inLoop tid c" "inLoop tid (c\<lparr>c_writes := n\<rparr>) = inLoop tid c"
  "inLoop tid (c\<lparr>c_trace := t\<rparr>) = inLoop tid c" "inLoop tid (c\<lparr>c_reading := r\<rparr>) = inLoop tid c"
  "inLoop tid (c\<lparr>c_delayed := n\<rparr>) = inLoop tid c"
  by (simp_all add: inLoop_def)

definition kernel_law :: "kernel_write \<Rightarrow> bool" where
  "kernel_law kw \<longleftrightarrow> (\<forall>i d n. kw i d = Wrote n \<longrightarrow> n \<le> length d)"

text \<open>What an operation keeps when it runs no callback.\<close>

definition keeps :: "conn \<Rightarrow> nat \<Rightarrow> conn \<Rightarrow> bool" where
  "keeps c tid c' \<longleftrightarrow> conn_inv c' \<and> inLoop tid c' = inLoop tid c \<and> c_state c' = c_state c \<and> c_trace c' = c_trace c \<and>
     (is_open c \<or> c_channel c' = c_channel c)"

lemma is_open_simps [simp]:
  "is_open (c\<lparr>c_channel := a\<rparr>) = is_open c" "is_open (c\<lparr>c_epoll := b\<rparr>) = is_open c"
  "is_open (c\<lparr>c_outputBuffer := o1\<rparr>) = is_open c" "is_open (c\<lparr>c_inputBuffer := o1\<rparr>) = is_open c"
  "is_open (c\<lparr>c_sent := s\<rparr>) = is_open c" "is_open (c\<lparr>c_wire := s\<rparr>) = is_open c"
  "is_open (c\<lparr>c_writes := n\<rparr>) = is_open c" "is_open (c\<lparr>c_trace := t\<rparr>) = is_open c"
  "is_open (c\<lparr>c_reading := r\<rparr>) = is_open c" "is_open (c\<lparr>c_delayed := n\<rparr>) = is_open c"
  "is_open (queue_functor tid f c) = is_open c"
  by (simp_all add: is_open_def)

lemma open_isWriting:
  "conn_inv c \<Longrightarrow> is_open c \<Longrightarrow> isWriting (c_channel c) \<longleftrightarrow> contents (c_outputBuffer c) \<noteq> []"
  by (simp add: conn_inv_open isWriting_bit out_mask_writing)

lemma readable_contents: "buffer_inv b \<Longrightarrow> readableBytes b = 0 \<longleftrightarrow> contents b = []"
  by (metis length_contents length_0_conv)

lemma buffer_output_returns:
  assumes "is_open c" and "inLoop tid c" and "rest \<noteq> []"
    and inv: "buffer_inv (c_inputBuffer c)" "buffer_inv (c_outputBuffer c)" "chan_inv (c_channel c) (c_epoll c)"
      "ch_index (c_channel c) = kAdded" "life (c_trace c) = Some 1"
      "ch_events (c_channel c) = out_mask (contents (c_outputBuffer c))"
    and stream: "c_wire c @ contents (c_outputBuffer c) @ rest = c_sent c"
  shows "returns (buffer_output tid rest c) (keeps c tid)"
proof -
  let ?hw = "c_highWaterMark c \<le> readableBytes (c_outputBuffer c) + length rest \<and>
    readableBytes (c_outputBuffer c) < c_highWaterMark c \<and> c_highWaterMarkCallback c"
  let ?c1 = "if ?hw then queue_functor tid (FHighWater (readableBytes (c_outputBuffer c) + length rest)) c else c"
  have f: "c_channel ?c1 = c_channel c" "c_epoll ?c1 = c_epoll c" "c_outputBuffer ?c1 = c_outputBuffer c"
    "c_inputBuffer ?c1 = c_inputBuffer c" "c_wire ?c1 = c_wire c" "c_sent ?c1 = c_sent c" "c_state ?c1 = c_state c"
    "c_trace ?c1 = c_trace c" "inLoop tid ?c1 = inLoop tid c" "is_open ?c1 = is_open c"
    by simp_all
  from append_bytes_returns [OF inv(2), of rest] obtain out where
    out: "append_bytes rest (c_outputBuffer c) = Inr out" "buffer_inv out" "contents out = contents (c_outputBuffer c) @ rest"
    by (auto elim!: returnsE)
  let ?c2 = "?c1\<lparr>c_outputBuffer := out\<rparr>"
  have w: "isWriting (c_channel ?c2) \<longleftrightarrow> contents (c_outputBuffer c) \<noteq> []"
    using inv(6) f by (simp add: isWriting_bit out_mask_writing)
  have mask: "out_mask (contents out) = kReadEvent OR kWriteEvent" using out(3) assms(3) by (simp add: out_mask_def)
  have step: "buffer_output tid rest c =
      (if isWriting (c_channel ?c2) then Inr ?c2 else on_channel (enableWriting True) ?c2)"
    using out(1) assms(2) by (simp add: buffer_output_def Let_def)
  show ?thesis
  proof (cases "isWriting (c_channel ?c2)")
    case True
    then have "ch_events (c_channel c) = out_mask (contents out)"
      using w inv(6) mask by (simp add: out_mask_def)
    then show ?thesis
      using True step assms(1) inv out f stream by (simp add: keeps_def conn_inv_open)
  next
    case False
    have m: "ch_events (c_channel c) OR kWriteEvent = out_mask (contents out)"
      unfolding inv(6) mask by (rule out_mask_ops)
    from on_channel_masks(1) [of ?c2] inv(3) f obtain ep' where
      "on_channel (enableWriting True) ?c2 = Inr (?c2\<lparr>c_channel := remask (out_mask (contents out)) (c_channel c), c_epoll := ep'\<rparr>)"
      "chan_inv (remask (out_mask (contents out)) (c_channel c)) ep'"
      by (auto simp: m)
    then show ?thesis
      using False step assms(1) inv out f stream mask kRead_neq(2) by (simp add: keeps_def conn_inv_open)
  qed
qed

text \<open>The direct write touches only the wire, the queue of functors and the write counter.\<close>

lemma try_write_cases:
  assumes "kernel_law kw" and "conn_inv c" and "is_open c" and "try_write kw tid data c = (n, r, ff, c1)"
  shows "n + r = length data \<and> (ff \<longrightarrow> n = 0) \<and> c_wire c1 = c_wire c @ take n data \<and>
    (contents (c_outputBuffer c) \<noteq> [] \<longrightarrow> n = 0 \<and> \<not> ff \<and> c1 = c) \<and>
    c_channel c1 = c_channel c \<and> c_epoll c1 = c_epoll c \<and> c_outputBuffer c1 = c_outputBuffer c \<and>
    c_inputBuffer c1 = c_inputBuffer c \<and> c_sent c1 = c_sent c \<and> c_state c1 = c_state c \<and>
    c_trace c1 = c_trace c \<and> inLoop tid c1 = inLoop tid c \<and> is_open c1"
proof (cases "contents (c_outputBuffer c) = []")
  case True
  then have "\<not> isWriting (c_channel c)" "readableBytes (c_outputBuffer c) = 0"
    using open_isWriting [OF assms(2,3)] readable_contents [of "c_outputBuffer c"] assms(2)
    by (auto simp: conn_inv_def)
  moreover have "m \<le> length data" if "kw (c_writes c) data = Wrote m" for m
    using that assms(1) by (simp add: kernel_law_def)
  ultimately show ?thesis using True assms(3,4)
    by (cases "kw (c_writes c) data") (auto simp: try_write_def Let_def split: if_splits)
next
  case False
  then have "isWriting (c_channel c)" using open_isWriting [OF assms(2,3)] by simp
  with False assms(3,4) show ?thesis by (auto simp: try_write_def)
qed

lemma sendInLoop_returns:
  assumes "kernel_law kw" and "conn_inv c" and "inLoop tid c" and "c_state c \<noteq> kConnecting"
  shows "returns (sendInLoop kw tid data c) (keeps c tid)"
proof (cases "is_open c")
  case False
  then have "c_state c = kDisconnected" using assms(4) by (cases "c_state c") (auto simp: is_open_def)
  then show ?thesis using assms by (simp add: sendInLoop_def assertInLoopThread_def keeps_def)
next
  case opn: True
  note True = opn
  obtain n r ff c1 where t: "try_write kw tid data c = (n, r, ff, c1)" by (cases "try_write kw tid data c") auto
  note w = try_write_cases [OF assms(1,2) True t]
  have open_state: "c_state c \<noteq> kDisconnected" using True by (auto simp: is_open_def)
  note inv = assms(2) [unfolded conn_inv_open [OF True]]
  let ?c2 = "c1\<lparr>c_sent := c_sent c1 @ data\<rparr>"
  have step: "sendInLoop kw tid data c = (if ff then Inr c1
      else if 0 < r then buffer_output tid (take r (drop n data)) ?c2 else Inr ?c2)"
    using assms(3) open_state t w by (simp add: sendInLoop_def assertInLoopThread_def)
  show ?thesis
  proof (cases "ff \<or> r = 0")
    case True
    have "ff \<longrightarrow> contents (c_outputBuffer c) = []" using w by blast
    then show ?thesis using step True w inv by (auto simp: keeps_def conn_inv_open)
  next
    case False
    have rest: "take r (drop n data) = drop n data" "drop n data \<noteq> []" using w False by auto
    have o2: "is_open ?c2" "inLoop tid ?c2" using w assms(3) by auto
    have st: "c_wire ?c2 @ contents (c_outputBuffer ?c2) @ drop n data = c_sent ?c2"
    proof (cases "contents (c_outputBuffer c) = []")
      case True
      have "c_wire c1 = c_wire c @ take n data" "c_outputBuffer c1 = c_outputBuffer c" "c_sent c1 = c_sent c" using w by auto
      moreover have "take n data @ drop n data = data" by simp
      ultimately show ?thesis using True inv by simp
    next
      case False
      then have "n = 0" "c1 = c" using w by auto
      then show ?thesis using inv by (simp flip: append_assoc)
    qed
    have "returns (buffer_output tid (drop n data) ?c2) (keeps ?c2 tid)"
      by (rule buffer_output_returns [OF o2 rest(2) _ _ _ _ _ _ st]) (use w inv in auto)
    then show ?thesis using step False w rest(1) opn by (auto simp: keeps_def elim!: returns_mono)
  qed
qed

lemma log_event_simps [simp]:
  "c_state (log_event e c) = c_state c" "c_channel (log_event e c) = c_channel c" "c_epoll (log_event e c) = c_epoll c"
  "c_inputBuffer (log_event e c) = c_inputBuffer c" "c_outputBuffer (log_event e c) = c_outputBuffer c"
  "c_wire (log_event e c) = c_wire c" "c_sent (log_event e c) = c_sent c" "c_loop (log_event e c) = c_loop c"
  "c_trace (log_event e c) = c_trace c @ [e]" "inLoop tid (log_event e c) = inLoop tid c"
  "is_open (log_event e c) = is_open c" "c_writes (log_event e c) = c_writes c"
  by (simp_all add: log_event_def is_open_def)

text \<open>The states an operation may pass through: a connection only ever moves towards closed.\<close>

fun moves :: "conn_state \<Rightarrow> conn_state \<Rightarrow> bool" where
  "moves kConnecting t = True"
| "moves kConnected t = (t \<noteq> kConnecting)"
| "moves kDisconnecting t = (t = kDisconnecting \<or> t = kDisconnected)"
| "moves kDisconnected t = (t = kDisconnected)"

lemma moves_refl [simp]: "moves s s"
  by (cases s) auto

lemma moves_trans: "moves s t \<Longrightarrow> moves t u \<Longrightarrow> moves s u"
  by (cases s; cases t; cases u) auto

definition advances :: "conn \<Rightarrow> nat \<Rightarrow> conn \<Rightarrow> bool" where
  "advances c tid c' \<longleftrightarrow> conn_inv c' \<and> inLoop tid c' = inLoop tid c \<and> moves (c_state c) (c_state c') \<and>
     c_state c' \<noteq> kConnecting \<and>
     (c_state c = kDisconnected \<longrightarrow> c_trace c' = c_trace c \<and> c_channel c' = c_channel c) \<and>
     (is_open c \<longrightarrow> is_open c')"

lemma keeps_advances: "keeps c tid c' \<Longrightarrow> c_state c \<noteq> kConnecting \<Longrightarrow> advances c tid c'"
  by (auto simp: keeps_def advances_def is_open_def)

lemma advances_trans: "advances a tid b \<Longrightarrow> advances b tid c \<Longrightarrow> advances a tid c"
  by (auto simp: advances_def intro: moves_trans)

lemma shutdownInLoop_returns:
  assumes "conn_inv c" and "inLoop tid c" and "c_state c \<noteq> kConnecting"
  shows "returns (shutdownInLoop tid c) (\<lambda>c'. conn_inv c' \<and> inLoop tid c' \<and> c_state c' = c_state c \<and>
    c_writes c' = c_writes c)"
proof (cases "is_open c")
  case True
  show ?thesis
  proof (cases "isWriting (c_channel c)")
    case False
    then have "contents (c_outputBuffer c) = []" using open_isWriting [OF assms(1) True] by simp
    with False True assms(1,2) show ?thesis
      by (simp add: shutdownInLoop_def assertInLoopThread_def conn_inv_open life_append)
  qed (use assms in \<open>simp add: shutdownInLoop_def assertInLoopThread_def\<close>)
next
  case False
  then have s: "c_state c = kDisconnected" using assms(3) by (cases "c_state c") (auto simp: is_open_def)
  then have "conn_inv (log_event (ShutdownWrite out) c)" for out
    using assms(1) by (auto simp: conn_inv_def life_append)
  with assms(1,2) show ?thesis by (simp add: shutdownInLoop_def assertInLoopThread_def)
qed

lemma conn_inv_disconnecting:
  "conn_inv c \<Longrightarrow> is_open c \<Longrightarrow> conn_inv (c\<lparr>c_state := kDisconnecting\<rparr>) \<and> is_open (c\<lparr>c_state := kDisconnecting\<rparr>)"
  by (auto simp: conn_inv_def is_open_def)

lemma shutdown_returns:
  assumes "conn_inv c" and "c_state c \<noteq> kConnecting"
  shows "returns (shutdown tid c) (advances c tid')"
proof (cases "c_state c = kConnected")
  case False
  then show ?thesis using assms by (auto simp: shutdown_def advances_def)
next
  case True
  then have o: "is_open c" by (simp add: is_open_def)
  let ?c1 = "c\<lparr>c_state := kDisconnecting\<rparr>"
  have c1: "conn_inv ?c1" "is_open ?c1" using conn_inv_disconnecting [OF assms(1) o] by auto
  show ?thesis
  proof (cases "inLoop tid c")
    case In: True
    have "returns (shutdownInLoop tid ?c1) (\<lambda>c'. conn_inv c' \<and> c_state c' = kDisconnecting \<and> inLoop tid' c' = inLoop tid' c)"
      using shutdownInLoop_returns [OF c1(1), of tid] In
      by (auto simp: shutdownInLoop_def assertInLoopThread_def)
    then show ?thesis
      using True In by (auto simp: shutdown_def advances_def is_open_def elim!: returns_mono)
  next
    case False
    with True c1 queue_functor_inv [OF c1(1), of tid FShutdown] show ?thesis
      by (auto simp: shutdown_def advances_def is_open_def)
  qed
qed

lemma inLoop_any: "inLoop tid c \<Longrightarrow> inLoop tid c' \<Longrightarrow> inLoop tid' c' = inLoop tid' c"
  by (simp add: inLoop_def isInLoopThread_def)

lemma send_returns:
  assumes "kernel_law kw" and "conn_inv c" and "c_state c \<noteq> kConnecting"
  shows "returns (send kw tid m c) (advances c tid')"
proof -
  have "returns (sendInLoop kw tid m c) (advances c tid')" if "inLoop tid c"
  proof (rule returns_mono [OF sendInLoop_returns [OF assms(1,2) that assms(3)]])
    fix c' assume k: "keeps c tid c'"
    have "inLoop tid c'" using k that by (simp add: keeps_def)
    from inLoop_any [OF that this] have "keeps c tid' c'" using k by (simp add: keeps_def)
    then show "advances c tid' c'" by (rule keeps_advances [OF _ assms(3)])
  qed
  moreover have "advances c tid' c" using assms(2,3) by (simp add: advances_def)
  moreover have "advances c tid' (queue_functor tid f c)" for f
    using assms(2,3) queue_functor_inv [OF assms(2,3), of tid f] by (simp add: advances_def)
  ultimately show ?thesis by (simp add: send_def)
qed

lemma forceClose_advances:
  "conn_inv c \<Longrightarrow> c_state c \<noteq> kConnecting \<Longrightarrow> advances c tid' (forceClose tid c)"
  using conn_inv_disconnecting [of c] queue_functor_inv [of "c\<lparr>c_state := kDisconnecting\<rparr>" tid FForceClose]
  by (auto simp: forceClose_def advances_def is_open_def)

lemma forceCloseWithDelay_advances:
  "conn_inv c \<Longrightarrow> c_state c \<noteq> kConnecting \<Longrightarrow> advances c tid' (forceCloseWithDelay c)"
  using conn_inv_disconnecting [of c]
  by (auto simp: forceCloseWithDelay_def advances_def is_open_def conn_inv_def)

lemma input_advances:
  "conn_inv c \<Longrightarrow> c_state c \<noteq> kConnecting \<Longrightarrow> buffer_inv b \<Longrightarrow> advances c tid' (c\<lparr>c_inputBuffer := b\<rparr>)"
  by (auto simp: advances_def conn_inv_def split: conn_state.splits)

definition safe_call :: "conn_call \<Rightarrow> bool" where
  "safe_call k \<longleftrightarrow> k \<noteq> CallStartRead"

lemma run_call_returns:
  assumes "kernel_law kw" and "conn_inv c" and "c_state c \<noteq> kConnecting" and "safe_call k"
  shows "returns (run_call kw tid k c) (advances c tid')"
proof (cases k)
  case (CallTake n)
  have b: "buffer_inv (c_inputBuffer c)" using assms(2) by (simp add: conn_inv_def)
  from retrieve_returns [OF b, of "min n (readableBytes (c_inputBuffer c))"] CallTake show ?thesis
    using input_advances [OF assms(2,3)] by (auto elim!: returns_mono)
next
  case CallRetrieveAll
  have b: "buffer_inv (c_inputBuffer c)" using assms(2) by (simp add: conn_inv_def)
  with CallRetrieveAll show ?thesis using input_advances [OF assms(2,3)] by simp
next
  case (CallSend m)
  show ?thesis unfolding CallSend run_call.simps by (rule send_returns [OF assms(1-3)])
next
  case CallShutdown
  show ?thesis unfolding CallShutdown run_call.simps by (rule shutdown_returns [OF assms(2,3)])
next
  case CallForceClose
  then show ?thesis using forceClose_advances [OF assms(2,3)] by simp
next
  case CallForceCloseWithDelay
  then show ?thesis using forceCloseWithDelay_advances [OF assms(2,3)] by simp
next
  case CallStartRead
  then show ?thesis using assms(4) by (simp add: safe_call_def)
qed

lemma run_calls_returns:
  assumes "kernel_law kw" and "conn_inv c" and "c_state c \<noteq> kConnecting" and "list_all safe_call ks"
  shows "returns (run_calls kw tid ks c) (advances c tid')"
  using assms
proof (induction ks arbitrary: c)
  case Nil
  then show ?case by (simp add: advances_def)
next
  case (Cons k ks)
  have "returns (run_call kw tid k c) (advances c tid')" by (rule run_call_returns) (use Cons.prems in auto)
  then show ?case
  proof (simp, elim returns_mono)
    fix c1 assume c1: "advances c tid' c1"
    have "returns (run_calls kw tid ks c1) (advances c1 tid')"
      by (rule Cons.IH) (use c1 Cons.prems in \<open>auto simp: advances_def\<close>)
    then show "returns (run_calls kw tid ks c1) (advances c tid')"
      using advances_trans [OF c1] by (auto elim: returns_mono)
  qed
qed

definition user_ok :: "user_code \<Rightarrow> bool" where
  "user_ok u \<longleftrightarrow> (\<forall>e. list_all safe_call (u e))"

text \<open>A callback of an open connection, and the two of a connection that has just closed.\<close>

lemma callback_returns:
  assumes "kernel_law kw" and "user_ok u" and "conn_inv (log_event e c)" and "c_state c \<noteq> kConnecting"
  shows "returns (callback kw u tid e c) (advances (log_event e c) tid')"
  unfolding callback_def
  by (rule run_calls_returns) (use assms in \<open>auto simp: user_ok_def\<close>)

lemma conn_handleClose_returns:
  assumes "kernel_law kw" and "user_ok u" and "conn_inv c" and "is_open c" and "inLoop tid c"
  shows "returns (conn_handleClose kw u tid c) (\<lambda>c'. conn_inv c' \<and> inLoop tid c' \<and> c_state c' = kDisconnected)"
proof -
  note inv = assms(3) [unfolded conn_inv_open [OF assms(4)]]
  let ?c0 = "c\<lparr>c_state := kDisconnected\<rparr>"
  from on_channel_masks(4) [of ?c0] inv obtain ep' where
    d: "on_channel (disableAll True) ?c0 = Inr (?c0\<lparr>c_channel := remask kNoneEvent (c_channel c), c_epoll := ep'\<rparr>)"
      "chan_inv (remask kNoneEvent (c_channel c)) ep'" by auto
  let ?c1 = "?c0\<lparr>c_channel := remask kNoneEvent (c_channel c), c_epoll := ep'\<rparr>"
  have l1: "conn_inv (log_event (ConnectionCb False) ?c1)"
    using inv d(2) by (simp add: conn_inv_def life_append isNoneEvent_def index_defs)
  have life2: "life (c_trace (log_event (ConnectionCb False) ?c1)) = Some 2" using inv by (simp add: life_append)
  have "returns (callback kw u tid (ConnectionCb False) ?c1) (advances (log_event (ConnectionCb False) ?c1) tid)"
    by (rule callback_returns [OF assms(1,2) l1]) simp
  then obtain c2 where c2: "callback kw u tid (ConnectionCb False) ?c1 = Inr c2"
    "advances (log_event (ConnectionCb False) ?c1) tid c2" by (auto elim!: returnsE)
  then have c2': "conn_inv c2" "c_state c2 = kDisconnected" "life (c_trace c2) = Some 2" "inLoop tid c2"
    using life2 assms(5) by (auto simp: advances_def)
  have "conn_inv (log_event CloseCallback c2)" using c2' by (simp add: conn_inv_def life_append)
  then have "returns (callback kw u tid CloseCallback c2) (advances (log_event CloseCallback c2) tid)"
    by (rule callback_returns [OF assms(1,2)]) (use c2' in simp)
  then have fin: "returns (callback kw u tid CloseCallback c2) (\<lambda>c'. conn_inv c' \<and> inLoop tid c' \<and> c_state c' = kDisconnected)"
    using c2' by (auto simp: advances_def elim!: returns_mono)
  have "c_state c = kConnected \<or> c_state c = kDisconnecting" using assms(4) by (simp add: is_open_def)
  then show ?thesis
    using fin d(1) c2(1) assms(5) by (simp add: conn_handleClose_def assertInLoopThread_def connected_def)
qed

definition settled :: "nat \<Rightarrow> conn \<Rightarrow> bool" where
  "settled tid c \<longleftrightarrow> conn_inv c \<and> inLoop tid c \<and> c_state c \<noteq> kConnecting"

lemma advances_settled: "advances c tid c' \<Longrightarrow> inLoop tid c \<Longrightarrow> settled tid c'"
  by (simp add: advances_def settled_def)

lemma conn_handleRead_returns:
  assumes "kernel_law kw" and "user_ok u" and "conn_inv c" and "is_open c" and "inLoop tid c"
  shows "returns (conn_handleRead kw u readv tid c) (settled tid)"
proof -
  note inv = assms(3) [unfolded conn_inv_open [OF assms(4)]]
  have st: "c_state c \<noteq> kConnecting" using assms(4) by (auto simp: is_open_def)
  from readFd_returns [of "c_inputBuffer c" readv] inv obtain n err b where
    b: "readFd readv (c_inputBuffer c) = Inr (n, err, b)" "buffer_inv b" by (auto elim!: returnsE)
  let ?c1 = "c\<lparr>c_inputBuffer := b\<rparr>"
  have c1: "conn_inv ?c1" "is_open ?c1" "inLoop tid ?c1"
    using input_advances [OF assms(3) st b(2), of tid] assms(4,5) by (auto simp: advances_def)
  have "conn_inv (log_event (MessageCb m) ?c1)" for m
    using c1 by (simp add: conn_inv_open life_append)
  then have "returns (callback kw u tid (MessageCb m) ?c1) (settled tid)" for m
    using callback_returns [OF assms(1,2), of "MessageCb m" ?c1 tid tid] st c1(3)
    by (auto elim!: returns_mono intro: advances_settled)
  moreover have "returns (conn_handleClose kw u tid ?c1) (settled tid)"
    using conn_handleClose_returns [OF assms(1,2) c1] by (rule returns_mono) (simp add: settled_def)
  moreover have "settled tid ?c1" using c1 st by (simp add: settled_def)
  ultimately show ?thesis
    using assms(5) b(1) by (simp add: conn_handleRead_def assertInLoopThread_def Let_def)
qed

lemma handleWrite_returns:
  assumes "kernel_law kw" and "settled tid c"
    and "isWriting (c_channel c) \<Longrightarrow> kw (c_writes c) (contents (c_outputBuffer c)) = Wrote n"
  shows "returns (handleWrite kw tid c) (settled tid)"
proof (cases "isWriting (c_channel c)")
  case False
  then show ?thesis using assms(2) by (simp add: handleWrite_def handleWrite_with_def assertInLoopThread_def settled_def)
next
  case True
  have o: "is_open c"
    using assms(2) True by (cases "c_state c") (auto simp: settled_def is_open_def conn_inv_def isNoneEvent_def isWriting_def has_def kNoneEvent_def)
  have i: "conn_inv c" "inLoop tid c" using assms(2) by (auto simp: settled_def)
  note inv = i(1) [unfolded conn_inv_open [OF o]]
  let ?out = "c_outputBuffer c" and ?d = "contents (c_outputBuffer c)"
  have "n \<le> length ?d" using assms(1) assms(3) [OF True] unfolding kernel_law_def by blast
  then have n: "n \<le> readableBytes ?out" using inv by simp
  let ?c1 = "c\<lparr>c_writes := c_writes c + 1, c_wire := c_wire c @ take n ?d\<rparr>"
  from retrieve_returns [of ?out n] inv n obtain out where
    out: "retrieve n ?out = Inr out" "buffer_inv out" "contents out = drop n ?d" by (auto elim!: returnsE)
  let ?c2 = "?c1\<lparr>c_outputBuffer := out\<rparr>"
  have stream: "c_wire ?c2 @ contents out = c_sent c" using inv out(3) by simp
  have st: "c_state c \<noteq> kConnecting" using o by (auto simp: is_open_def)
  show ?thesis
  proof (cases "readableBytes out = 0")
    case False
    then have ne: "contents out \<noteq> []" using readable_contents [OF out(2)] by simp
    then have "?d \<noteq> []" using out(3) by auto
    then have "settled tid ?c2" using o i st inv out stream ne by (simp add: settled_def conn_inv_open out_mask_def)
    then show ?thesis using False True i out(1) assms(3)
      by (simp add: handleWrite_def handleWrite_with_def assertInLoopThread_def)
  next
    case emp: True
    then have e: "contents out = []" using readable_contents [OF out(2)] by simp
    have m: "ch_events (c_channel c) AND NOT kWriteEvent = kReadEvent" using inv out_mask_ops(3) by simp
    from on_channel_masks(2) [of ?c2] inv obtain ep' where
      d: "on_channel (disableWriting True) ?c2 = Inr (?c2\<lparr>c_channel := remask kReadEvent (c_channel c), c_epoll := ep'\<rparr>)"
        "chan_inv (remask kReadEvent (c_channel c)) ep'"
      by (auto simp: m out_mask_ops)
    let ?c3 = "?c2\<lparr>c_channel := remask kReadEvent (c_channel c), c_epoll := ep'\<rparr>"
    have c3: "conn_inv ?c3" "is_open ?c3" "inLoop tid ?c3"
      using o i inv out e stream d(2) kRead_neq(1) by (simp_all add: conn_inv_open out_mask_def)
    let ?c4 = "if c_writeCompleteCallback ?c3 then queue_functor tid FWriteComplete ?c3 else ?c3"
    have c4: "conn_inv ?c4" "inLoop tid ?c4" "c_state ?c4 = c_state c"
      using c3 st queue_functor_inv [OF c3(1)] by auto
    have "returns (shutdownInLoop tid ?c4) (settled tid)"
      using shutdownInLoop_returns [OF c4(1,2)] c4(3) st by (auto simp: settled_def elim!: returns_mono)
    moreover have "settled tid ?c4" using c4 st by (simp add: settled_def)
    ultimately show ?thesis using emp True i out(1) assms(3) d(1)
      by (cases "c_writeCompleteCallback c") (simp_all add: handleWrite_def handleWrite_with_def assertInLoopThread_def Let_def)
  qed
qed

lemma startReadInLoop_returns:
  assumes "conn_inv c" and "is_open c" and "inLoop tid c"
  shows "returns (startReadInLoop tid c) (settled tid)"
proof -
  note inv = assms(1) [unfolded conn_inv_open [OF assms(2)]]
  have st: "c_state c \<noteq> kConnecting" using assms(2) by (auto simp: is_open_def)
  from on_channel_masks(3) [of c] inv obtain ep' where
    d: "on_channel (enableReading True) c = Inr (c\<lparr>c_channel := remask (ch_events (c_channel c)) (c_channel c), c_epoll := ep'\<rparr>)"
      "chan_inv (remask (ch_events (c_channel c)) (c_channel c)) ep'"
    by (auto simp: out_mask_ops)
  have "out_mask x \<noteq> kNoneEvent" for x using kRead_neq by (simp add: out_mask_def)
  then have "settled tid (c\<lparr>c_channel := remask (ch_events (c_channel c)) (c_channel c), c_epoll := ep', c_reading := True\<rparr>)"
    using assms st inv d(2) by (simp add: settled_def conn_inv_open)
  moreover have "settled tid c" using assms st by (simp add: settled_def)
  ultimately show ?thesis using assms(3) d(1) by (simp add: startReadInLoop_def assertInLoopThread_def)
qed

lemma forceCloseInLoop_returns:
  assumes "kernel_law kw" and "user_ok u" and "settled tid c"
  shows "returns (forceCloseInLoop kw u tid c) (settled tid)"
proof (cases "is_open c")
  case True
  then have "returns (conn_handleClose kw u tid c) (settled tid)"
    using conn_handleClose_returns [OF assms(1,2) _ True, of tid] assms(3)
    by (auto simp: settled_def elim!: returns_mono)
  then show ?thesis using True assms(3) by (auto simp: forceCloseInLoop_def assertInLoopThread_def is_open_def settled_def)
qed (use assms in \<open>auto simp: forceCloseInLoop_def assertInLoopThread_def is_open_def settled_def\<close>)

lemma connectEstablished_returns:
  assumes "kernel_law kw" and "user_ok u" and "conn_inv c" and "c_state c = kConnecting" and "inLoop tid c"
  shows "returns (connectEstablished kw u tid c) (settled tid)"
proof -
  let ?c0 = "c\<lparr>c_state := kConnected, c_channel := tie (c_channel c)\<rparr>"
  have inv: "chan_inv (c_channel c) (c_epoll c)" "ch_index (c_channel c) = kNew" "ch_events (c_channel c) = 0"
    "c_wire c = []" "contents (c_outputBuffer c) = []" "c_sent c = []" "life (c_trace c) = Some 0"
    "buffer_inv (c_inputBuffer c)" "buffer_inv (c_outputBuffer c)"
    using assms(3,4) by (auto simp: conn_inv_def isNoneEvent_def kNoneEvent_def)
  have "chan_inv (tie (c_channel c)) (c_epoll c)" using inv(1) by (simp add: chan_inv_def channel_ok_def tie_def isNoneEvent_def)
  then obtain ep' where
    d: "on_channel (enableReading True) ?c0 = Inr (?c0\<lparr>c_channel := remask kReadEvent (tie (c_channel c)), c_epoll := ep'\<rparr>)"
      "chan_inv (remask kReadEvent (tie (c_channel c))) ep'"
    using on_channel_masks(3) [of ?c0] inv(3) by (auto simp: tie_def)
  let ?c1 = "?c0\<lparr>c_channel := remask kReadEvent (tie (c_channel c)), c_epoll := ep'\<rparr>"
  have "conn_inv (log_event (ConnectionCb True) ?c1)"
    using inv d(2) kRead_neq(1) by (simp add: conn_inv_def life_append out_mask_def)
  then have "returns (callback kw u tid (ConnectionCb True) ?c1) (settled tid)"
    using callback_returns [OF assms(1,2), of "ConnectionCb True" ?c1 tid tid] assms(5)
    by (auto elim!: returns_mono intro: advances_settled)
  then show ?thesis
    using assms(4,5) d(1) by (simp add: connectEstablished_def assertInLoopThread_def connected_def)
qed

lemma chan_remove_conn:
  assumes "conn_inv c" and "c_state c = kDisconnected" and "ch_index (c_channel c) \<noteq> kNew" and "inLoop tid c"
  shows "returns (on_channel (channel_remove True) c) (\<lambda>c'. settled tid c' \<and> c_state c' = kDisconnected)"
proof -
  have ok: "channel_ok (c_epoll c) (ch_ptr (c_channel c)) (c_channel c)" "isNoneEvent (c_channel c)"
    using assms(1,2) by (auto simp: conn_inv_def chan_inv_def)
  let ?ch = "(c_channel c)\<lparr>ch_addedToLoop := False, ch_index := kNew\<rparr>"
  let ?ep = "(c_epoll c)\<lparr>channelMap := (channelMap (c_epoll c))(ch_fd (c_channel c) := None),
    interest := (interest (c_epoll c))(ch_fd (c_channel c) := None)\<rparr>"
  have "on_channel (channel_remove True) c = Inr (c\<lparr>c_channel := ?ch, c_epoll := ?ep\<rparr>)"
    using channel_remove_outcome [OF ok(1)] ok(2) assms(3) by (simp add: on_channel_def)
  moreover have "chan_inv ?ch ?ep" using ok by (simp add: chan_inv_def channel_ok_def index_defs isNoneEvent_def)
  then have "settled tid (c\<lparr>c_channel := ?ch, c_epoll := ?ep\<rparr>)"
    using assms(1,2,4) by (auto simp: settled_def conn_inv_def isNoneEvent_def index_defs)
  ultimately show ?thesis using assms(2) by simp
qed

lemma connectDestroyed_disconnects:
  assumes "kernel_law kw" and "user_ok u" and "conn_inv c" and "inLoop tid c"
    and "c_state c = kConnected \<or> c_state c = kDisconnected \<and> ch_index (c_channel c) \<noteq> kNew"
  shows "returns (connectDestroyed kw u tid c) (\<lambda>c'. settled tid c' \<and> c_state c' = kDisconnected)"
proof (cases "c_state c = kConnected")
  case False
  with assms chan_remove_conn [OF assms(3), of tid] show ?thesis
    by (simp add: connectDestroyed_def assertInLoopThread_def)
next
  case True
  then have o: "is_open c" by (simp add: is_open_def)
  note inv = assms(3) [unfolded conn_inv_open [OF o]]
  let ?c0 = "c\<lparr>c_state := kDisconnected\<rparr>"
  from on_channel_masks(4) [of ?c0] inv obtain ep' where
    d: "on_channel (disableAll True) ?c0 = Inr (?c0\<lparr>c_channel := remask kNoneEvent (c_channel c), c_epoll := ep'\<rparr>)"
      "chan_inv (remask kNoneEvent (c_channel c)) ep'" by auto
  let ?c1 = "?c0\<lparr>c_channel := remask kNoneEvent (c_channel c), c_epoll := ep'\<rparr>"
  have l1: "conn_inv (log_event (ConnectionCb False) ?c1)"
    using inv d(2) by (simp add: conn_inv_def life_append isNoneEvent_def index_defs)
  have "returns (callback kw u tid (ConnectionCb False) ?c1) (advances (log_event (ConnectionCb False) ?c1) tid)"
    by (rule callback_returns [OF assms(1,2) l1]) simp
  then obtain c2 where c2: "callback kw u tid (ConnectionCb False) ?c1 = Inr c2"
    "advances (log_event (ConnectionCb False) ?c1) tid c2" by (auto elim!: returnsE)
  have "returns (on_channel (channel_remove True) c2) (\<lambda>c'. settled tid c' \<and> c_state c' = kDisconnected)"
    by (rule chan_remove_conn) (use c2(2) assms(4) inv in \<open>auto simp: advances_def index_defs\<close>)
  then show ?thesis using True d(1) c2(1) assms(4)
    by (simp add: connectDestroyed_def assertInLoopThread_def connected_def)
qed

lemma connectDestroyed_returns:
  assumes "kernel_law kw" and "user_ok u" and "conn_inv c" and "inLoop tid c"
    and "c_state c = kConnected \<or> c_state c = kDisconnected \<and> ch_index (c_channel c) \<noteq> kNew"
  shows "returns (connectDestroyed kw u tid c) (settled tid)"
  using connectDestroyed_disconnects [OF assms] by (rule returns_mono) simp

text \<open>The destructor's assertion holds once \<open>connectDestroyed\<close> has run.\<close>

lemma destructor_assertion:
  assumes "kernel_law kw" and "user_ok u" and "conn_inv c" and "inLoop tid c"
    and "c_state c = kConnected \<or> c_state c = kDisconnected \<and> ch_index (c_channel c) \<noteq> kNew"
  shows "returns (bindR (connectDestroyed kw u tid c) destroy_TcpConnection) (\<lambda>x. True)"
  using connectDestroyed_disconnects [OF assms] by (auto simp: destroy_TcpConnection_def elim!: returns_mono)

section \<open>A connection in its loop\<close>

text \<open>
  The steps of a connection whose loop runs in the thread \<open>tid\<close>: it is established; its
  channel reports input, output space or a hang-up; the loop runs the next functor; any
  thread calls an operation; a delayed \<open>forceClose\<close> is due; the server queues its
  destruction.
\<close>

datatype conn_cmd =
    Establish
  | EvRead "nat list \<Rightarrow> nat + string"
  | EvWrite
  | EvHup
  | RunNext
  | Call nat conn_call
  | DelayDue
  | QueueDestroy nat

fun cexec :: "kernel_write \<Rightarrow> user_code \<Rightarrow> nat \<Rightarrow> conn_cmd \<Rightarrow> conn \<Rightarrow> conn res" where
  "cexec kw u tid Establish c = connectEstablished kw u tid c"
| "cexec kw u tid (EvRead readv) c = conn_callback kw u readv tid ReadCb c"
| "cexec kw u tid EvWrite c = handleWrite kw tid c"
| "cexec kw u tid EvHup c = conn_handleClose kw u tid c"
| "cexec kw u tid RunNext c = run_next kw u tid c"
| "cexec kw u tid (Call t k) c = run_call kw t k c"
| "cexec kw u tid DelayDue c = Inr (forceClose tid (c\<lparr>c_delayed := c_delayed c - 1\<rparr>))"
| "cexec kw u tid (QueueDestroy t) c = Inr (queue_functor t FConnectDestroyed c)"

text \<open>
  When a step can happen: channel events only while the channel is registered; the kernel
  reports output space only when a write will not fail (see below for what happens
  otherwise); \<open>startRead\<close> and \<open>connectDestroyed\<close> under the conditions the code
  leaves to its callers.
\<close>

fun cenabled :: "kernel_write \<Rightarrow> nat \<Rightarrow> conn_cmd \<Rightarrow> conn \<Rightarrow> bool" where
  "cenabled kw tid Establish c = (c_state c = kConnecting)"
| "cenabled kw tid (EvRead readv) c = is_open c"
| "cenabled kw tid EvWrite c = (c_state c \<noteq> kConnecting \<and>
     (isWriting (c_channel c) \<longrightarrow> (case kw (c_writes c) (contents (c_outputBuffer c)) of Wrote n \<Rightarrow> True | _ \<Rightarrow> False)))"
| "cenabled kw tid EvHup c = is_open c"
| "cenabled kw tid RunNext c = (case pendingFunctors (c_loop c) of
       [] \<Rightarrow> False
     | FStartRead # fs \<Rightarrow> is_open c
     | FConnectDestroyed # fs \<Rightarrow>
         c_state c = kConnected \<or> c_state c = kDisconnected \<and> ch_index (c_channel c) \<noteq> kNew
     | _ \<Rightarrow> True)"
| "cenabled kw tid (Call t k) c = (c_state c \<noteq> kConnecting \<and> (k = CallStartRead \<longrightarrow> is_open c))"
| "cenabled kw tid DelayDue c = (0 < c_delayed c \<and> c_state c \<noteq> kConnecting)"
| "cenabled kw tid (QueueDestroy t) c = (c_state c \<noteq> kConnecting)"

definition conn_step :: "kernel_write \<Rightarrow> user_code \<Rightarrow> nat \<Rightarrow> conn \<Rightarrow> conn \<Rightarrow> bool" where
  "conn_step kw u tid c c' \<longleftrightarrow> (\<exists>k. cenabled kw tid k c \<and> cexec kw u tid k c = Inr c')"

definition conn_start :: "kernel_write \<Rightarrow> user_code \<Rightarrow> nat \<Rightarrow> conn \<Rightarrow> bool" where
  "conn_start kw u tid c \<longleftrightarrow> kernel_law kw \<and> user_ok u \<and>
     (\<exists>p fd ep b h mark. c = (new_TcpConnection p fd (new_EventLoop tid) ep)
          \<lparr>c_writeCompleteCallback := b, c_highWaterMarkCallback := h, c_highWaterMark := mark\<rparr> \<and>
        channelMap ep fd = None \<and> interest ep fd = None)"

definition sys_inv :: "kernel_write \<Rightarrow> user_code \<Rightarrow> nat \<Rightarrow> conn \<Rightarrow> bool" where
  "sys_inv kw u tid c \<longleftrightarrow> kernel_law kw \<and> user_ok u \<and> conn_inv c \<and> inLoop tid c"

lemma settled_inv: "kernel_law kw \<Longrightarrow> user_ok u \<Longrightarrow> settled tid c \<Longrightarrow> sys_inv kw u tid c"
  by (simp add: settled_def sys_inv_def)

lemma run_functor_returns:
  assumes "sys_inv kw u tid c" and "c_state c \<noteq> kConnecting"
    and "f = FStartRead \<Longrightarrow> is_open c"
    and "f = FConnectDestroyed \<Longrightarrow> c_state c = kConnected \<or> c_state c = kDisconnected \<and> ch_index (c_channel c) \<noteq> kNew"
  shows "returns (run_functor kw u tid f c) (settled tid)"
proof -
  have i: "kernel_law kw" "user_ok u" "conn_inv c" "inLoop tid c" using assms(1) by (auto simp: sys_inv_def)
  have late: "conn_inv (log_event e c)" if "e = WriteCompleteCb \<or> (\<exists>n. e = HighWaterMarkCb n)" for e
    using that i(3) assms(2) by (auto simp: conn_inv_def life_append split: conn_state.splits)
  have cb: "returns (callback kw u tid e c) (settled tid)" if "e = WriteCompleteCb \<or> (\<exists>n. e = HighWaterMarkCb n)" for e
    using callback_returns [OF i(1,2) late [OF that] assms(2), of tid tid] i(4)
    by (auto elim!: returns_mono intro: advances_settled)
  show ?thesis
  proof (cases f)
    case (FSend m)
    with sendInLoop_returns [OF i(1,3,4) assms(2), of m] show ?thesis
      using i(4) assms(2) by (auto simp: keeps_def settled_def elim!: returns_mono)
  next
    case FShutdown
    with shutdownInLoop_returns [OF i(3,4) assms(2)] show ?thesis
      using assms(2) by (auto simp: settled_def elim!: returns_mono)
  next
    case FForceClose
    with forceCloseInLoop_returns [OF i(1,2), of tid c] i assms(2) show ?thesis by (simp add: settled_def)
  next
    case FStartRead
    with startReadInLoop_returns [OF i(3) _ i(4)] assms(3) show ?thesis by simp
  next
    case FConnectDestroyed
    with connectDestroyed_returns [OF i] assms(4) show ?thesis by simp
  qed (use cb in auto)
qed

lemma run_next_returns:
  assumes "sys_inv kw u tid c" and "cenabled kw tid RunNext c"
  shows "returns (run_next kw u tid c) (settled tid)"
proof -
  from assms(2) obtain f fs where f: "pendingFunctors (c_loop c) = f # fs"
    by (cases "pendingFunctors (c_loop c)") auto
  let ?c = "c\<lparr>c_loop := (c_loop c)\<lparr>pendingFunctors := fs\<rparr>\<rparr>"
  have st: "c_state c \<noteq> kConnecting" using assms(1) f by (auto simp: sys_inv_def conn_inv_def)
  then have i: "sys_inv kw u tid ?c"
    using assms(1) by (auto simp: sys_inv_def conn_inv_def inLoop_def isInLoopThread_def split: conn_state.splits)
  have "is_open ?c = is_open c" by (simp add: is_open_def)
  then have "returns (run_functor kw u tid f ?c) (settled tid)"
    using assms(2) f st by (intro run_functor_returns [OF i]) auto
  then show ?thesis using f by (simp add: run_next_def)
qed

lemma cexec_returns:
  assumes "sys_inv kw u tid c" and "cenabled kw tid k c"
  shows "returns (cexec kw u tid k c) (sys_inv kw u tid)"
proof -
  have i: "kernel_law kw" "user_ok u" "conn_inv c" "inLoop tid c" using assms(1) by (auto simp: sys_inv_def)
  have fin: "returns m (sys_inv kw u tid)" if "returns m (settled tid)" for m
    using that settled_inv [OF i(1,2)] by (auto elim: returns_mono)
  have adv: "returns m (sys_inv kw u tid)" if "returns m (advances c tid)" for m
    using that advances_settled [OF _ i(4)] settled_inv [OF i(1,2)] by (auto elim: returns_mono)
  show ?thesis
  proof (cases k)
    case Establish
    show ?thesis unfolding Establish cexec.simps
      by (rule fin, rule connectEstablished_returns [OF i(1-3) _ i(4)]) (use assms(2) Establish in simp)
  next
    case (EvRead readv)
    show ?thesis unfolding EvRead cexec.simps conn_callback.simps
      by (rule fin, rule conn_handleRead_returns [OF i(1-3) _ i(4)]) (use assms(2) EvRead in simp)
  next
    case EvWrite
    then obtain n where n: "isWriting (c_channel c) \<Longrightarrow> kw (c_writes c) (contents (c_outputBuffer c)) = Wrote n"
      using assms(2) by (cases "kw (c_writes c) (contents (c_outputBuffer c))") auto
    have "settled tid c" using i assms(2) EvWrite by (simp add: settled_def)
    from fin [OF handleWrite_returns [OF i(1) this n]] show ?thesis unfolding EvWrite by simp
  next
    case EvHup
    have "returns (conn_handleClose kw u tid c) (settled tid)"
      using conn_handleClose_returns [OF i(1-3) _ i(4)] assms(2) EvHup by (auto simp: settled_def elim!: returns_mono)
    with fin EvHup show ?thesis by simp
  next
    case RunNext
    from fin [OF run_next_returns [OF assms(1)]] RunNext assms(2) show ?thesis by simp
  next
    case (Call t k')
    show ?thesis
    proof (cases "k' = CallStartRead")
      case False
      with Call assms(2) adv [OF run_call_returns [OF i(1,3)]] show ?thesis by (simp add: safe_call_def)
    next
      case True
      have st: "c_state c \<noteq> kConnecting" "is_open c" using True Call assms(2) by auto
      have "returns (startRead t c) (sys_inv kw u tid)"
      proof (cases "inLoop t c")
        case inl: True
        then have "t = tid" using i(4) by (simp add: inLoop_def isInLoopThread_def)
        then show ?thesis using fin [OF startReadInLoop_returns [OF i(3) st(2) i(4)]] i(4) by (simp add: startRead_def)
      next
        case False
        then show ?thesis using queue_functor_inv [OF i(3) st(1)] i by (simp add: startRead_def sys_inv_def)
      qed
      with True Call show ?thesis by simp
    qed
  next
    case DelayDue
    have "conn_inv (c\<lparr>c_delayed := c_delayed c - 1\<rparr>)"
      using i(3) by (auto simp: conn_inv_def split: conn_state.splits)
    from forceClose_advances [OF this, of tid tid] DelayDue assms(2) i show ?thesis
      by (simp add: advances_def sys_inv_def)
  next
    case (QueueDestroy t)
    then show ?thesis using queue_functor_inv [OF i(3), of t] assms(2) i by (simp add: sys_inv_def)
  qed
qed

lemma conn_start_inv: "conn_start kw u tid c \<Longrightarrow> sys_inv kw u tid c"
  by (auto simp: conn_start_def sys_inv_def conn_inv_def new_TcpConnection_def inLoop_def isInLoopThread_def
      new_EventLoop_def chan_inv_def channel_ok_def new_Channel_def index_defs isNoneEvent_def kNoneEvent_def
      life_def setErrorCallback_def ch_setCloseCallback_def setWriteCallback_def setReadCallback_def)

interpretation conn: invariant_system "conn_start kw u tid" "conn_step kw u tid" "sys_inv kw u tid" for kw u tid
proof unfold_locales
  show "conn_start kw u tid s \<Longrightarrow> sys_inv kw u tid s" for s by (rule conn_start_inv)
  show "sys_inv kw u tid s \<Longrightarrow> conn_step kw u tid s t \<Longrightarrow> sys_inv kw u tid t" for s t
    unfolding conn_step_def using cexec_returns [of kw u tid s] by (metis returns_Inr)
qed

fun crun :: "kernel_write \<Rightarrow> user_code \<Rightarrow> nat \<Rightarrow> conn_cmd list \<Rightarrow> conn \<Rightarrow> conn option" where
  "crun kw u tid [] c = Some c"
| "crun kw u tid (k # ks) c =
     (if cenabled kw tid k c then case cexec kw u tid k c of Inl f \<Rightarrow> None | Inr d \<Rightarrow> crun kw u tid ks d else None)"

lemma crun_reaches: "crun kw u tid ks c = Some d \<Longrightarrow> reaches (conn_step kw u tid) c d"
proof (induction ks arbitrary: c)
  case Nil
  then show ?case by (simp add: reaches.refl)
next
  case (Cons k ks)
  then obtain e where e: "cenabled kw tid k c" "cexec kw u tid k c = Inr e" "crun kw u tid ks e = Some d"
    by (auto split: if_splits sum.splits)
  then have "conn_step kw u tid c e" by (auto simp: conn_step_def)
  from reaches_trans [OF Cons.IH [OF e(3)] reaches_one [of "conn_step kw u tid", OF this]] show ?case .
qed

text \<open>A kernel that accepts everything and a user that sends back what it received.\<close>

definition all_written :: kernel_write where
  "all_written i d = Wrote (length d)"

definition echo :: user_code where
  "echo e = (case e of MessageCb s \<Rightarrow> [CallSend s, CallRetrieveAll] | _ \<Rightarrow> [])"

definition sample :: conn where
  "sample = new_TcpConnection 1 5 (new_EventLoop 7) new_Epoll"

lemma sample_start: "conn_start all_written echo 7 sample"
proof -
  have "sample = (new_TcpConnection 1 5 (new_EventLoop 7) new_Epoll)
    \<lparr>c_writeCompleteCallback := False, c_highWaterMarkCallback := False, c_highWaterMark := 64 * 1024 * 1024\<rparr>"
    by (simp add: sample_def new_TcpConnection_def)
  moreover have "channelMap new_Epoll 5 = None \<and> interest new_Epoll 5 = None" by (simp add: new_Epoll_def)
  moreover have "kernel_law all_written" by (simp add: kernel_law_def all_written_def)
  moreover have "user_ok echo" by (simp add: user_ok_def echo_def safe_call_def split: conn_event.splits)
  ultimately show ?thesis unfolding conn_start_def by blast
qed

lemmas conn_eval = sample_def new_TcpConnection_def new_EventLoop_def new_Epoll_def new_Channel_def
  connectEstablished_def assertInLoopThread_def inLoop_def isInLoopThread_def on_channel_def enableReading_def
  channel_update_def updateChannel_def epoll_update_def setIndex_def index_defs tie_def callback_def echo_def
  log_event_def connected_def send_def sendInLoop_def try_write_def all_written_def setErrorCallback_def
  ch_setCloseCallback_def setWriteCallback_def setReadCallback_def Let_def

lemma sample_sends:
  "\<exists>c. crun all_written echo 7 [Establish, Call 7 (CallSend d)] sample = Some c \<and>
     c_state c = kConnected \<and> c_wire c = d \<and> c_sent c = d \<and> c_trace c = [ConnectionCb True]"
proof -
  have w: "\<not> isWriting (c\<lparr>ch_events := kReadEvent, ch_addedToLoop := True, ch_index := 1\<rparr>)" for c :: channel
    by (simp add: isWriting_bit bit_kReadEvent)
  have r: "readableBytes (new_Buffer kInitialSize) = 0" by (simp add: new_Buffer_def readableBytes_def)
  show ?thesis by (simp add: conn_eval w r isWriting_bit bit_kReadEvent)
qed

lemma sample_run:
  "\<exists>c. crun all_written echo 7 [Establish, Call 7 (CallSend ''hi'')] sample = Some c \<and>
     c_state c = kConnected \<and> c_wire c = ''hi'' \<and> c_trace c = [ConnectionCb True]"
  using sample_sends [of "''hi''"] by blast

lemma stream_inv: "sys_inv kw u tid c \<Longrightarrow> c_wire c @ contents (c_outputBuffer c) = c_sent c"
  by (simp add: sys_inv_def conn_inv_def)

section \<open>Properties\<close>

text \<open>
  C1. A connection never loses, duplicates or reorders a byte: in every reachable state the
  bytes the kernel has accepted followed by those in the output buffer are exactly the
  bytes of the messages the connection took charge of, in order, however \<open>write\<close> splits
  them, from whichever threads they are sent, and whatever the callbacks do.
\<close>

theorem connection_stream:
  assumes "conn_start kw u tid c0" and "reaches (conn_step kw u tid) c0 c"
  shows "c_wire c @ contents (c_outputBuffer c) = c_sent c"
  by (rule stream_inv [OF conn.reachable_inv [OF assms]])

theorem connection_stream_witness:
  "\<exists>c. reaches (conn_step all_written echo 7) sample c \<and> c_wire c = ''hi'' \<and>
     c_wire c @ contents (c_outputBuffer c) = c_sent c"
proof -
  from sample_run obtain c where c: "crun all_written echo 7 [Establish, Call 7 (CallSend ''hi'')] sample = Some c"
    "c_wire c = ''hi''" by blast
  from connection_stream [OF sample_start crun_reaches [OF c(1)]] crun_reaches [OF c(1)] c(2) show ?thesis by blast
qed



text \<open>
  C20. While a connection is open, the kernel is asked for writability exactly when there is
  output to write, and for input always: pending output is never left unwatched, and an
  idle connection never makes the loop spin.
\<close>

theorem writability_watched_iff_output:
  assumes "conn_start kw u tid c0" and "reaches (conn_step kw u tid) c0 c" and "is_open c"
  shows "\<exists>m p. interest (c_epoll c) (ch_fd (c_channel c)) = Some (m, p) \<and> has m kReadEvent \<and>
    (has m kWriteEvent \<longleftrightarrow> contents (c_outputBuffer c) \<noteq> [])"
proof -
  have "conn_inv c" using conn.reachable_inv [OF assms(1,2)] by (simp add: sys_inv_def)
  then have i: "chan_inv (c_channel c) (c_epoll c)" "ch_index (c_channel c) = kAdded"
    "ch_events (c_channel c) = out_mask (contents (c_outputBuffer c))"
    using conn_inv_open [OF assms(3)] by auto
  have "interest (c_epoll c) (ch_fd (c_channel c)) = Some (out_mask (contents (c_outputBuffer c)), ch_ptr (c_channel c))"
    using i by (auto simp: chan_inv_def channel_ok_def)
  moreover have "bit (out_mask d) 0" for d by (simp add: out_mask_def bit_or_iff bit_kReadEvent)
  ultimately show ?thesis
    by (simp add: kReadEvent_def kWriteEvent_def has_or out_mask_writing)
qed

theorem writability_watched_iff_output_witness:
  "\<exists>c. reaches (conn_step all_written echo 7) sample c \<and>
     (\<exists>m p. interest (c_epoll c) (ch_fd (c_channel c)) = Some (m, p) \<and> has m kReadEvent)"
proof -
  from sample_run obtain c where c: "crun all_written echo 7 [Establish, Call 7 (CallSend ''hi'')] sample = Some c"
    "c_state c = kConnected" by blast
  then have "is_open c" by (simp add: is_open_def)
  from writability_watched_iff_output [OF sample_start crun_reaches [OF c(1)] this] crun_reaches [OF c(1)]
  show ?thesis by blast
qed



section \<open>Where the code leaves the contract\<close>

text \<open>
  C32. When \<open>write\<close> fails in \<open>handleWrite\<close> (for any error, also \<open>EAGAIN\<close> or \<open>EINTR\<close>), its result
  -1 is passed to \<open>retrieve\<close> as a length: a checked build stops at the assertion, and a
  build without assertions drops all pending output although nothing was written.
\<close>

theorem handleWrite_error_drops_output:
  assumes "inLoop tid c" and "isWriting (c_channel c)" and "chan_inv (c_channel c) (c_epoll c)"
    and "kw (c_writes c) (contents (c_outputBuffer c)) = WriteFailed e"
    and "readableBytes (c_outputBuffer c) < 2 ^ 64 - 1"
  shows "handleWrite kw tid c = Inl AssertFailed \<and>
    returns (handleWrite_release kw tid c) (\<lambda>c'. contents (c_outputBuffer c') = [] \<and> c_wire c' = c_wire c)"
proof
  show "handleWrite kw tid c = Inl AssertFailed"
    using assms by (simp add: handleWrite_def handleWrite_with_def assertInLoopThread_def ssize_to_size_m1
        retrieve_beyond)
  let ?c = "c\<lparr>c_writes := c_writes c + 1, c_outputBuffer := retrieveAll (c_outputBuffer c)\<rparr>"
  have z: "readableBytes (retrieveAll b) = 0" for b by (simp add: retrieveAll_def readableBytes_def)
  have r: "retrieve_unchecked (2 ^ 64 - 1) (c_outputBuffer c) = retrieveAll (c_outputBuffer c)"
    using assms(5) by (simp add: retrieve_unchecked_def)
  from on_channel_masks(2) [of ?c] assms(3) obtain c3 where
    d: "on_channel (disableWriting True) ?c = Inr c3" "c_outputBuffer c3 = retrieveAll (c_outputBuffer c)"
      "c_wire c3 = c_wire c" "inLoop tid c3" using assms(1) by auto
  show "returns (handleWrite_release kw tid c) (\<lambda>c'. contents (c_outputBuffer c') = [] \<and> c_wire c' = c_wire c)"
    using assms(1,2,4) r z d
    by (auto simp: handleWrite_release_def handleWrite_with_def assertInLoopThread_def ssize_to_size_m1
        shutdownInLoop_def Let_def)
qed

text \<open>A connection with two bytes of pending output, watched for writability.\<close>

definition busy :: conn where
  "busy = sample\<lparr>c_state := kConnected,
     c_channel := (c_channel sample)\<lparr>ch_index := kAdded, ch_addedToLoop := True, ch_events := kReadEvent OR kWriteEvent\<rparr>,
     c_epoll := new_Epoll\<lparr>channelMap := [5 \<mapsto> 1], interest := [5 \<mapsto> (kReadEvent OR kWriteEvent, 1)]\<rparr>,
     c_outputBuffer := \<lparr>bufferVec = ''12345678ab'', readerIndex = 8, writerIndex = 10\<rparr>, c_sent := ''ab'',
     c_trace := [ConnectionCb True]\<rparr>"

lemma busy_simps:
  "inLoop 7 busy" "isWriting (c_channel busy)" "chan_inv (c_channel busy) (c_epoll busy)"
  "readableBytes (c_outputBuffer busy) = 2" "contents (c_outputBuffer busy) = ''ab''" "c_state busy = kConnected"
  by (simp_all add: busy_def sample_def new_TcpConnection_def inLoop_def isInLoopThread_def new_EventLoop_def
      isWriting_bit bit_or_iff bit_kWriteEvent readableBytes_def contents_def bytes_between_def peek_def beginWrite_def chan_inv_def
      channel_ok_def new_Channel_def index_defs setErrorCallback_def ch_setCloseCallback_def setWriteCallback_def
      setReadCallback_def)

theorem handleWrite_error_drops_output_witness:
  "handleWrite (\<lambda>i d. WriteFailed EAGAIN) 7 busy = Inl AssertFailed"
  using handleWrite_error_drops_output [of 7 busy "\<lambda>i d. WriteFailed EAGAIN" EAGAIN] busy_simps by simp

text \<open>
  \<open>stopRead()\<close> never stops reading: in the loop thread \<open>stopReadInLoop\<close> calls itself through
  \<open>runInLoop\<close> and does not return.
\<close>

theorem stopRead_never_returns:
  "inLoop tid c \<Longrightarrow> stopReadInLoop queue tid c = None"
proof (rule ccontr)
  assume "stopReadInLoop queue tid c \<noteq> None" and inl: "inLoop tid c"
  then obtain y where y: "stopReadInLoop queue tid c = Some y" by auto
  have "\<not> inLoop tid c" by (rule stopReadInLoop.raw_induct [OF _ y]) (auto split: if_splits)
  with inl show False by simp
qed

theorem stopRead_never_returns_witness: "stopReadInLoop id 7 busy = None"
  by (rule stopRead_never_returns) (rule busy_simps)

text \<open>
  \<open>startRead\<close> is not guarded by the state: called after the connection has closed it
  registers the channel again, and the end of file the loop then reads stops at the
  assertion of \<open>handleClose\<close> (a build without assertions would report the close twice).
\<close>

theorem startRead_after_close:
  assumes "conn_inv c" and "c_state c = kDisconnected" and "inLoop tid c"
  shows "returns (startReadInLoop tid c) (\<lambda>c'. isReading (c_channel c') \<and> ch_index (c_channel c') = kAdded \<and>
    conn_handleRead kw u (\<lambda>iov. Inr []) tid c' = Inl AssertFailed)"
proof -
  have i: "chan_inv (c_channel c) (c_epoll c)" "ch_events (c_channel c) = 0" "buffer_inv (c_inputBuffer c)"
    using assms(1,2) by (auto simp: conn_inv_def isNoneEvent_def kNoneEvent_def)
  from on_channel_masks(3) [of c] i obtain ep' where
    d: "on_channel (enableReading True) c = Inr (c\<lparr>c_channel := remask kReadEvent (c_channel c), c_epoll := ep'\<rparr>)" by auto
  let ?c = "c\<lparr>c_channel := remask kReadEvent (c_channel c), c_epoll := ep', c_reading := True\<rparr>"
  have "\<not> isReading (c_channel c)" using i(2) by (simp add: isReading_bit)
  then have step: "startReadInLoop tid c = Inr ?c"
    using d assms(3) by (simp add: startReadInLoop_def assertInLoopThread_def)
  from readFd_returns [OF i(3), of "\<lambda>iov. Inr []"] obtain err b where
    b: "readFd (\<lambda>iov. Inr []) (c_inputBuffer c) = Inr (0, err, b)" by (auto elim!: returnsE)
  have "conn_handleRead kw u (\<lambda>iov. Inr []) tid ?c = Inl AssertFailed"
    using b assms(2,3) by (simp add: conn_handleRead_def conn_handleClose_def assertInLoopThread_def cassert_def)
  moreover have "isReading (c_channel ?c)" by (simp add: isReading_bit bit_kReadEvent)
  moreover have "ch_index (c_channel ?c) = kAdded" using kRead_neq(1) by simp
  ultimately show ?thesis using step by simp
qed

theorem startRead_after_close_witness:
  "returns (startReadInLoop 7 (sample\<lparr>c_state := kDisconnected, c_trace := [ConnectionCb True, ConnectionCb False, CloseCallback]\<rparr>))
     (\<lambda>c'. conn_handleRead all_written echo (\<lambda>iov. Inr []) 7 c' = Inl AssertFailed)"
proof -
  let ?c = "sample\<lparr>c_state := kDisconnected, c_trace := [ConnectionCb True, ConnectionCb False, CloseCallback]\<rparr>"
  have "conn_inv sample" "inLoop 7 sample"
    using conn_start_inv [OF sample_start] by (auto simp: sys_inv_def)
  then have "conn_inv ?c" "inLoop 7 ?c"
    by (simp_all add: conn_inv_def life_def sample_def new_TcpConnection_def index_defs inLoop_def isInLoopThread_def new_EventLoop_def)
  from startRead_after_close [OF this(1) _ this(2), of all_written echo] show ?thesis
    by (auto elim!: returns_mono)
qed

text \<open>
  \<open>connectDestroyed\<close> handles the states connected and disconnected only: called on a
  connection that is shutting down (as the server's destructor does), it stops at the
  assertion that the channel has no events.
\<close>

theorem connectDestroyed_while_disconnecting:
  assumes "conn_inv c" and "c_state c = kDisconnecting" and "inLoop tid c"
  shows "connectDestroyed kw u tid c = Inl AssertFailed"
proof -
  have "ch_events (c_channel c) = out_mask (contents (c_outputBuffer c))" using assms(1,2) by (simp add: conn_inv_def)
  then have "\<not> isNoneEvent (c_channel c)" using kRead_neq by (simp add: isNoneEvent_def out_mask_def)
  then show ?thesis
    using assms(2,3) by (simp add: connectDestroyed_def assertInLoopThread_def on_channel_def channel_remove_def cassert_def)
qed

lemma busy_inv: "conn_inv busy" "conn_inv (busy\<lparr>c_state := kDisconnecting\<rparr>)"
  using busy_simps
  by (simp_all add: conn_inv_def life_def out_mask_def)
    (simp_all add: busy_def sample_def new_TcpConnection_def buffer_defs new_Buffer_def kInitialSize_def)

theorem connectDestroyed_while_disconnecting_witness:
  "connectDestroyed all_written echo 7 (busy\<lparr>c_state := kDisconnecting\<rparr>) = Inl AssertFailed"
  using connectDestroyed_while_disconnecting [OF busy_inv(2)] busy_simps(1) by simp

end
