(* ===== verification/Http_Server.thy ===== *)
theory Http_Server
  imports Http_Request Net_TcpConnection "HOL-Library.Char_ord" "HOL-Library.List_Lexorder"
begin

text \<open>
  \<open>net/http/HttpResponse\<close>, \<open>net/http/HttpMethod\<close> and \<open>net/http/HttpServer\<close>: building the response, choosing
  the handler of a request and answering it on the connection. What the server does to the
  connection is a list of calls (\<open>http_call\<close>). The file system (which paths
  open, how large a file is, what can be removed) and the code of registered handlers are
  arguments; writes to files are recorded.
\<close>

section \<open>Responses\<close>

record http_response =
  hs_headers :: "(string \<times> string) list"
  hs_statusCode :: int
  hs_statusMessage :: string
  hs_closeConnection :: bool
  hs_body :: string
  hs_contentLength :: int

text \<open>\<open>std::map::operator[]\<close> followed by an assignment, on the sorted list of entries.\<close>

fun map_put :: "string \<Rightarrow> string \<Rightarrow> (string \<times> string) list \<Rightarrow> (string \<times> string) list" where
  "map_put k v [] = [(k, v)]"
| "map_put k v ((k', v') # xs) =
     (if k = k' then (k, v) # xs else if k < k' then (k, v) # (k', v') # xs else (k', v') # map_put k v xs)"

definition new_HttpResponse :: "bool \<Rightarrow> http_response" where
  "new_HttpResponse close = \<lparr>hs_headers = [], hs_statusCode = 0, hs_statusMessage = [],
     hs_closeConnection = close, hs_body = [], hs_contentLength = - 1\<rparr>"

definition setStatus :: "int \<Rightarrow> string \<Rightarrow> http_response \<Rightarrow> http_response" where
  "setStatus code msg r = r\<lparr>hs_statusCode := code, hs_statusMessage := msg\<rparr>"

definition resp_addHeader :: "string \<Rightarrow> string \<Rightarrow> http_response \<Rightarrow> http_response" where
  "resp_addHeader k v r = r\<lparr>hs_headers := map_put k v (hs_headers r)\<rparr>"

definition setContentType :: "string \<Rightarrow> http_response \<Rightarrow> http_response" where
  "setContentType t r = resp_addHeader ''Content-Type'' t r"

definition response_pieces :: "http_response \<Rightarrow> string list" where
  "response_pieces r =
     [''HTTP/1.1 '' @ show_int (hs_statusCode r) @ '' '', hs_statusMessage r, kCRLF]
     @ (if hs_closeConnection r then [''Connection: close'' @ kCRLF]
        else if 0 < hs_contentLength r then [''Connection: Keep-Alive'' @ kCRLF]
        else [''Content-Length: '' @ dec_digits (length (hs_body r)) @ kCRLF, ''Connection: Keep-Alive'' @ kCRLF])
     @ concat (map (\<lambda>(k, v). [k, '': '', v, kCRLF]) (hs_headers r))
     @ [kCRLF, hs_body r]"

fun append_all :: "string list \<Rightarrow> buffer \<Rightarrow> buffer res" where
  "append_all [] b = Inr b"
| "append_all (s # ss) b = bindR (append_bytes s b) (append_all ss)"

definition appendToBuffer :: "http_response \<Rightarrow> buffer \<Rightarrow> buffer res" where
  "appendToBuffer r output = append_all (response_pieces r) output"

section \<open>Handlers\<close>

text \<open>
  A handler object lists the (method, path) pairs it serves; the builder holds, per
  method, entries (object, index) through weak pointers: \<open>impls\<close> is \<open>None\<close> for an object that
  is gone.
\<close>

type_synonym impl_table = "nat \<Rightarrow> (string \<times> string) list option"
type_synonym detail = "nat \<times> nat"
type_synonym method_map = "(string \<times> detail list) list"

fun get_details :: "string \<Rightarrow> method_map \<Rightarrow> detail list" where
  "get_details k [] = []"
| "get_details k ((k', ds) # m) = (if k = k' then ds else get_details k m)"

fun put_details :: "string \<Rightarrow> detail list \<Rightarrow> method_map \<Rightarrow> method_map" where
  "put_details k ds [] = [(k, ds)]"
| "put_details k ds ((k', es) # m) = (if k = k' then (k, ds) # m else (k', es) # put_details k ds m)"

text \<open>The loops over an entry list: expired entries are erased, the first with the path wins.\<close>

fun find_detail :: "impl_table \<Rightarrow> string \<Rightarrow> detail list \<Rightarrow> detail option \<times> detail list" where
  "find_detail impls path [] = (None, [])"
| "find_detail impls path (d # ds) =
     (case impls (fst d) of
        None \<Rightarrow> find_detail impls path ds
      | Some pairs \<Rightarrow>
          if snd (pairs ! snd d) = path then (Some d, d # ds)
          else let (r, es) = find_detail impls path ds in (r, d # es))"

text \<open>\<open>registerMethod\<close> compares the paths of the entries with the method of the new one.\<close>

fun register_from :: "impl_table \<Rightarrow> nat \<Rightarrow> nat \<Rightarrow> (string \<times> string) list \<Rightarrow> method_map \<Rightarrow> method_map" where
  "register_from impls p i [] m = m"
| "register_from impls p i ((meth, path) # rest) m =
     (let (found, ds) = find_detail impls meth (get_details meth m) in
      if found \<noteq> None then put_details meth ds m
      else register_from impls p (i + 1) rest (put_details meth (ds @ [(p, i)]) m))"

definition registerMethod :: "impl_table \<Rightarrow> nat \<Rightarrow> method_map \<Rightarrow> method_map" where
  "registerMethod impls p m = (case impls p of None \<Rightarrow> m | Some pairs \<Rightarrow> register_from impls p 0 pairs m)"

record file_system =
  fs_open_write :: "string \<Rightarrow> bool"
  fs_open_read :: "string \<Rightarrow> bool"
  fs_size :: "string \<Rightarrow> int"
  fs_remove :: "string \<Rightarrow> bool"

datatype http_call = HSend string | HShutdown | HSetWriteCompleteCallback

type_synonym writes = "(string \<times> string) list"
type_synonym hctx = "string http_context"

definition take_body :: "hctx \<Rightarrow> string \<times> hctx" where
  "take_body c = (let (buf, r) = readAll (hc_request c) in (contents buf, c\<lparr>hc_request := r\<rparr>))"

definition putReadyRead :: "file_system \<Rightarrow> hctx \<Rightarrow> hctx \<times> http_call list \<times> writes" where
  "putReadyRead fs c =
     (if hr_method (hc_request c) \<noteq> Put then (c, [], [])
      else let path = CHR ''.'' # hr_path (hc_request c) in
        case hc_context c of
          Some f \<Rightarrow> (let (data, c1) = take_body c in (c1, [], [(f, data)]))
        | None \<Rightarrow>
            if \<not> fs_open_write fs path then (c, [HShutdown], [])
            else let (data, c1) = take_body (c\<lparr>hc_context := Some path\<rparr>) in (c1, [], [(path, data)]))"

definition putFinish :: "hctx \<Rightarrow> http_response \<Rightarrow> (hctx \<times> http_response \<times> writes) option res" where
  "putFinish c resp =
     (if hr_method (hc_request c) \<noteq> Put then Inr None
      else case hc_context c of
        None \<Rightarrow> Inl UncaughtException
      | Some f \<Rightarrow>
          let (data, c1) = take_body c in
          Inr (Some (c1, (resp_addHeader ''Server'' ''youth'' (setContentType ''text/plain'' (setStatus 200 ''OK'' resp)))
                 \<lparr>hs_closeConnection := True\<rparr>, [(f, data)])))"

definition getFile :: "file_system \<Rightarrow> hctx \<Rightarrow> http_response \<Rightarrow> (hctx \<times> http_response \<times> http_call list) option" where
  "getFile fs c resp =
     (if hr_method (hc_request c) \<noteq> Get then None
      else let path = CHR ''.'' # hr_path (hc_request c) in
        if \<not> fs_open_read fs path
        then Some (c, (resp_addHeader ''Server'' ''youth'' (resp\<lparr>hs_statusCode := 400\<rparr>))\<lparr>hs_closeConnection := True\<rparr>, [])
        else Some (c\<lparr>hc_context := Some path\<rparr>,
          resp_addHeader ''Server'' ''youth'' (setContentType ''text/plain'' (setStatus 200 ''OK''
            (resp\<lparr>hs_contentLength := fs_size fs path\<rparr>))),
          [HSetWriteCompleteCallback]))"

definition deletePath :: "file_system \<Rightarrow> hctx \<Rightarrow> http_response \<Rightarrow> http_response option" where
  "deletePath fs c resp =
     (if hr_method (hc_request c) \<noteq> Delete then None
      else let r1 = (if fs_remove fs (CHR ''.'' # hr_path (hc_request c)) then setStatus 200 ''OK'' resp
                     else resp\<lparr>hs_statusCode := 400\<rparr>) in
        Some ((resp_addHeader ''Server'' ''youth'' (setContentType ''text/plain'' r1))\<lparr>hs_closeConnection := True\<rparr>))"

definition defaultCall :: "http_response \<Rightarrow> http_response" where
  "defaultCall resp = (setStatus 404 ''Not Found'' resp)\<lparr>hs_closeConnection := True\<rparr>"

text \<open>
  \<open>HttpMethodFactory::call\<close>, the handler a subclass may override, with the method and path of the object
  and the text of the current date.
\<close>

definition factory_call :: "string \<Rightarrow> string \<Rightarrow> string \<Rightarrow> http_request \<Rightarrow> http_response \<Rightarrow> http_response" where
  "factory_call meth path now req resp =
     (if methodString (hr_method req) = meth \<and> hr_path req = path
      then (resp_addHeader ''Server'' ''youth'' (setContentType ''text/html'' (setStatus 200 ''OK'' resp)))
        \<lparr>hs_body := ''<html><head><title>This is title</title></head><body><h1>Hello</h1>Now is '' @ now @ ''</body></html>'',
         hs_closeConnection := True\<rparr>
      else (defaultCall resp)\<lparr>hs_closeConnection := True\<rparr>)"

text \<open>\<open>chunk\<close> is the next part of the open file and whether it was the last.\<close>

definition writeCompleteCallback :: "(string \<Rightarrow> string \<times> bool) \<Rightarrow> hctx \<Rightarrow> http_call list res" where
  "writeCompleteCallback chunk c = (case hc_context c of
       None \<Rightarrow> Inl UncaughtException
     | Some f \<Rightarrow> let (data, atEnd) = chunk f in
         Inr (HSend data # (if atEnd then [HShutdown] else [])))"

section \<open>The server\<close>

text \<open>
  \<open>sv_call\<close> is \<open>HttpMethodFactory::call\<close> of the registered objects; \<open>sv_httpCallback\<close> and
  \<open>sv_readyRead\<close> are the optional callbacks of the user (the latter does not change the state
  modelled here).
\<close>

record http_server =
  sv_httpCallback :: "(http_request \<Rightarrow> http_response \<Rightarrow> http_response) option"
  sv_readyRead :: bool
  sv_methodMap :: method_map
  sv_impls :: impl_table
  sv_call :: "detail \<Rightarrow> http_request \<Rightarrow> http_response \<Rightarrow> http_response"

definition builder_onReadyRead :: "file_system \<Rightarrow> http_server \<Rightarrow> hctx \<Rightarrow> http_server \<times> hctx \<times> http_call list \<times> writes" where
  "builder_onReadyRead fs sv c =
     (let k = methodString (hr_method (hc_request c));
          (found, ds) = find_detail (sv_impls sv) (hr_path (hc_request c)) (get_details k (sv_methodMap sv));
          sv1 = sv\<lparr>sv_methodMap := put_details k ds (sv_methodMap sv)\<rparr> in
      if found \<noteq> None then (sv1, c, [], [])
      else let (c1, calls, ws) = putReadyRead fs c in (sv1, c1, calls, ws))"

definition builder_onRequest :: "file_system \<Rightarrow> http_server \<Rightarrow> hctx \<Rightarrow> http_response \<Rightarrow>
    (http_server \<times> hctx \<times> http_response \<times> http_call list \<times> writes) res" where
  "builder_onRequest fs sv c resp =
     (let req = hc_request c; k = methodString (hr_method req);
          (found, ds) = find_detail (sv_impls sv) (hr_path req) (get_details k (sv_methodMap sv));
          sv1 = sv\<lparr>sv_methodMap := put_details k ds (sv_methodMap sv)\<rparr> in
      case found of
        Some d \<Rightarrow> Inr (sv1, c, sv_call sv d req resp, [], [])
      | None \<Rightarrow> bindR (putFinish c resp) (\<lambda>fin. case fin of
            Some (c1, r1, ws) \<Rightarrow> Inr (sv1, c1, r1, [], ws)
          | None \<Rightarrow> (case getFile fs c resp of
                Some (c1, r1, calls) \<Rightarrow> Inr (sv1, c1, r1, calls, [])
              | None \<Rightarrow> (case deletePath fs c resp of
                    Some r1 \<Rightarrow> Inr (sv1, c, r1, [], [])
                  | None \<Rightarrow> Inr (sv1, c, defaultCall resp, [], [])))))"

definition server_onReadyRead :: "file_system \<Rightarrow> http_server \<Rightarrow> hctx \<Rightarrow> http_server \<times> hctx \<times> http_call list \<times> writes" where
  "server_onReadyRead fs sv c = (if sv_readyRead sv then (sv, c, [], []) else builder_onReadyRead fs sv c)"

definition wants_close :: "http_request \<Rightarrow> bool" where
  "wants_close req = (let connection = getHeader ''Connection'' req in
     connection = ''close'' \<or> (hr_version req = Http10 \<and> connection \<noteq> ''Keep-Alive''))"

definition server_onRequest :: "file_system \<Rightarrow> http_server \<Rightarrow> hctx \<Rightarrow>
    (http_server \<times> hctx \<times> http_call list \<times> writes) res" where
  "server_onRequest fs sv c =
     (let req = hc_request c; response = new_HttpResponse (wants_close req) in
      bindR (case sv_httpCallback sv of
               Some cb \<Rightarrow> Inr (sv, c, cb req response, [], [])
             | None \<Rightarrow> if sv_methodMap sv \<noteq> [] then builder_onRequest fs sv c response
                       else Inr (sv, c, defaultCall response, [], []))
        (\<lambda>(sv1, c1, r1, calls, ws).
           bindR (appendToBuffer r1 (new_Buffer kInitialSize)) (\<lambda>buf.
           Inr (sv1, c1, calls @ HSend (contents buf) # (if hs_closeConnection r1 then [HShutdown] else []), ws))))"

definition server_onConnection :: "bool \<Rightarrow> hctx \<Rightarrow> hctx" where
  "server_onConnection conn_up c = (if conn_up then new_HttpContext else c)"

definition bad_request :: string where
  "bad_request = ''HTTP/1.1 400 Bad Request'' @ kCRLF @ kCRLF"

definition server_onMessage :: "file_system \<Rightarrow> datetime \<Rightarrow> http_server \<Rightarrow> hctx \<Rightarrow> buffer \<Rightarrow>
    (http_server \<times> hctx \<times> buffer \<times> http_call list \<times> writes) res option" where
  "server_onMessage fs time sv c buf =
     (case parseRequest time c buf of
        None \<Rightarrow> None
      | Some (Inl f) \<Rightarrow> Some (Inl f)
      | Some (Inr (ok, c1, buf1)) \<Rightarrow> Some (
          let calls0 = (if ok then [] else [HSend bad_request, HShutdown]) in
          if hc_state c1 = ExpectBody then
            let (sv2, c2, calls, ws) = server_onReadyRead fs sv c1 in
            Inr (sv2, c2, buf1, calls0 @ calls, ws)
          else if hc_state c1 = GotAll then
            let (sv2, c2, calls, ws) = server_onReadyRead fs sv c1 in
            bindR (server_onRequest fs sv2 c2) (\<lambda>(sv3, c3, calls3, ws3).
              Inr (sv3, reset_HttpContext c3, buf1, calls0 @ calls @ calls3, ws @ ws3))
          else Inr (sv, c1, buf1, calls0, [])))"

section \<open>Answering\<close>

lemma append_all_returns:
  "buffer_inv b \<Longrightarrow> returns (append_all ss b) (\<lambda>b'. buffer_inv b' \<and> contents b' = contents b @ concat ss)"
proof (induction ss arbitrary: b)
  case Nil
  then show ?case by simp
next
  case (Cons s ss)
  show ?case unfolding append_all.simps returns_bindR
  proof (rule returns_mono [OF append_bytes_returns [OF Cons.prems]])
    fix b1 assume "buffer_inv b1 \<and> contents b1 = contents b @ s"
    then show "returns (append_all ss b1) (\<lambda>b'. buffer_inv b' \<and> contents b' = contents b @ concat (s # ss))"
      using Cons.IH [of b1] by (auto elim!: returns_mono)
  qed
qed

lemma response_bytes:
  "\<exists>buf. appendToBuffer r (new_Buffer kInitialSize) = Inr buf \<and> contents buf = concat (response_pieces r)"
  using append_all_returns [OF new_Buffer_inv, of "response_pieces r" kInitialSize]
  by (auto simp: appendToBuffer_def elim!: returnsE)

text \<open>A context that is ready for the next request.\<close>

definition ready :: "'a http_context \<Rightarrow> bool" where
  "ready c \<longleftrightarrow> hc_state c = ExpectRequestLine \<and> hr_method (hc_request c) = Invalid \<and>
     hr_headers (hc_request c) = Map.empty \<and> hr_content_length (hc_request c) = 0"

definition request_of :: "datetime \<Rightarrow> http_method \<Rightarrow> string \<Rightarrow> http_version \<Rightarrow> (string \<times> string) list \<Rightarrow>
    http_request \<Rightarrow> http_request" where
  "request_of time m target ver hs r =
     add_headers hs ((setTarget target (r\<lparr>hr_method := m\<rparr>))\<lparr>hr_version := ver, hr_receiveTime := time\<rparr>)"

lemma headers_absent:
  "k \<notin> fst ` set hs \<Longrightarrow> foldl (\<lambda>m (f, v). m(f \<mapsto> v)) m hs k = m k"
  by (induction hs arbitrary: m) (auto split: prod.splits)

lemma no_body:
  assumes "ready c" and "''Content-Length'' \<notin> fst ` set hs"
  shows "contentLength (request_of time m target ver hs (hc_request c)) =
    Inr (0, request_of time m target ver hs (hc_request c))"
proof -
  have "getHeader ''Content-Length'' (request_of time m target ver hs (hc_request c)) = []"
    using assms headers_absent [of "''Content-Length''" hs Map.empty]
    by (auto simp: getHeader_def request_of_def add_headers_def setTarget_def ready_def Let_def)
  moreover have "hr_content_length (request_of time m target ver hs (hc_request c)) = 0"
    using assms(1) by (simp add: request_of_def add_headers_def setTarget_def ready_def Let_def)
  ultimately show ?thesis by (simp add: contentLength_def initContentLength_def)
qed

definition well_formed :: "http_method \<Rightarrow> string \<Rightarrow> http_version \<Rightarrow> (string \<times> string) list \<Rightarrow> bool" where
  "well_formed m target ver hs \<longleftrightarrow> m \<noteq> Invalid \<and> CHR '' '' \<notin> set target \<and> CHR 0x0D \<notin> set target \<and> ver \<noteq> Unknown \<and>
     list_all header_ok hs \<and> ''Content-Length'' \<notin> fst ` set hs"

lemma bodiless_request:
  assumes "well_formed m target ver hs" and "ready c" and "buffer_inv b"
    and "contents b = request_text m target ver hs @ rest"
  shows "\<exists>b1. parseRequest time c b = Some (Inr (True,
      c\<lparr>hc_request := request_of time m target ver hs (hc_request c), hc_state := GotAll\<rparr>, b1)) \<and>
    buffer_inv b1 \<and> contents b1 = rest"
proof -
  have "spec_parse time c (contents b) = Some (Inr (True,
      c\<lparr>hc_request := request_of time m target ver hs (hc_request c), hc_state := GotAll\<rparr>, rest))"
    using request_parsed [of m target ver hs c time rest] assms(1,2,4) no_body [OF assms(2), of hs time m target ver]
    by (simp add: well_formed_def ready_def request_of_def Let_def)
  with parse_refines [OF assms(3), of time c] show ?thesis by simp
qed

lemma request_of_simps [simp]:
  "hr_method (request_of time m target ver hs r) = m"
  "hr_content_length (request_of time m target ver hs r) = hr_content_length r"
  by (simp_all add: request_of_def add_headers_def setTarget_def Let_def)

lemma onReadyRead_not_put:
  assumes "hr_method (hc_request c) \<noteq> Put"
  shows "\<exists>m. server_onReadyRead fs sv c = (sv\<lparr>sv_methodMap := m\<rparr>, c, [], [])"
proof (cases "sv_readyRead sv")
  case True
  then have "server_onReadyRead fs sv c = (sv\<lparr>sv_methodMap := sv_methodMap sv\<rparr>, c, [], [])"
    by (simp add: server_onReadyRead_def)
  then show ?thesis by blast
next
  case False
  with assms show ?thesis
    by (auto simp: server_onReadyRead_def builder_onReadyRead_def putReadyRead_def Let_def split: prod.splits)
qed

text \<open>Answering a complete request that is not a \<open>PUT\<close>, with the user's callback.\<close>

definition reply :: "(http_request \<Rightarrow> http_response \<Rightarrow> http_response) \<Rightarrow> http_request \<Rightarrow> http_response" where
  "reply cb req = cb req (new_HttpResponse (wants_close req))"

lemma answer_parsed:
  assumes "parseRequest time c b = Some (Inr (True, c1, b1))" and "hc_state c1 = GotAll" and "hr_method (hc_request c1) \<noteq> Put"
    and "sv_httpCallback sv = Some cb"
  shows "\<exists>mm. server_onMessage fs time sv c b = Some (Inr (sv\<lparr>sv_methodMap := mm\<rparr>, reset_HttpContext c1, b1,
    HSend (concat (response_pieces (reply cb (hc_request c1)))) #
      (if hs_closeConnection (reply cb (hc_request c1)) then [HShutdown] else []), []))"
proof -
  from onReadyRead_not_put [OF assms(3)] obtain mm where
    rr: "server_onReadyRead fs sv c1 = (sv\<lparr>sv_methodMap := mm\<rparr>, c1, [], [])" by blast
  from response_bytes [of "reply cb (hc_request c1)"] obtain buf where
    buf: "appendToBuffer (reply cb (hc_request c1)) (new_Buffer kInitialSize) = Inr buf"
      "contents buf = concat (response_pieces (reply cb (hc_request c1)))" by blast
  from assms rr buf show ?thesis
    by (auto simp: server_onMessage_def server_onRequest_def Let_def reply_def)
qed

text \<open>
  A server with a callback answers every well-formed request without a body, on a fresh or
  on a reused connection, in one step: it sends exactly the bytes of the response the
  callback made of the parsed request, shuts the connection down exactly when the response
  says so, leaves what follows the request in the buffer, and is ready for the next request.
\<close>

theorem http_answers_request:
  assumes "well_formed m target ver hs" and "m \<noteq> Put" and "ready c" and "buffer_inv b"
    and "contents b = request_text m target ver hs @ rest" and "sv_httpCallback sv = Some cb"
  shows "\<exists>sv' c' b'. server_onMessage fs time sv c b = Some (Inr (sv', c', b',
      (let req = request_of time m target ver hs (hc_request c); resp = cb req (new_HttpResponse (wants_close req)) in
       HSend (concat (response_pieces resp)) # (if hs_closeConnection resp then [HShutdown] else [])), [])) \<and>
    ready c' \<and> buffer_inv b' \<and> contents b' = rest"
proof -
  let ?c1 = "c\<lparr>hc_request := request_of time m target ver hs (hc_request c), hc_state := GotAll\<rparr>"
  from bodiless_request [OF assms(1,3,4,5), of time] obtain b1 where
    b1: "parseRequest time c b = Some (Inr (True, ?c1, b1))" "buffer_inv b1" "contents b1 = rest" by blast
  have "ready (reset_HttpContext ?c1)"
    using assms(3) by (simp add: ready_def reset_HttpContext_def swap_HttpRequest_def new_HttpRequest_def)
  then show ?thesis using answer_parsed [OF b1(1) _ _ assms(6), of fs] assms(2) b1(2,3)
    by (auto simp: Let_def reply_def)
qed

lemma ready_new: "ready new_HttpContext"
  by (simp add: ready_def new_HttpContext_def new_HttpRequest_def)

lemma filled_buffer: "\<exists>b. buffer_inv b \<and> contents b = xs"
  using append_bytes_returns [OF new_Buffer_inv, of xs 0] by (auto elim!: returnsE)

theorem http_answers_request_witness:
  "\<exists>b sv' c' b' resp. contents b = request_text Get ''/x'' Http11 [(''Host'', ''h'')] \<and>
     server_onMessage \<lparr>fs_open_write = (\<lambda>p. False), fs_open_read = (\<lambda>p. False), fs_size = (\<lambda>p. 0),
         fs_remove = (\<lambda>p. False)\<rparr> (DateTime 0)
       \<lparr>sv_httpCallback = Some (\<lambda>req r. defaultCall r), sv_readyRead = False, sv_methodMap = [],
        sv_impls = (\<lambda>p. None), sv_call = (\<lambda>d req r. r)\<rparr> new_HttpContext b =
     Some (Inr (sv', c', b', HSend resp # [HShutdown], []))"
proof -
  let ?fs = "\<lparr>fs_open_write = (\<lambda>p. False), fs_open_read = (\<lambda>p. False), fs_size = (\<lambda>p. 0), fs_remove = (\<lambda>p. False)\<rparr>"
  let ?sv = "\<lparr>sv_httpCallback = Some (\<lambda>req r. defaultCall r), sv_readyRead = False, sv_methodMap = [],
        sv_impls = (\<lambda>p. None), sv_call = (\<lambda>d req r. r)\<rparr>"
  obtain b where b: "buffer_inv b" "contents b = request_text Get ''/x'' Http11 [(''Host'', ''h'')] @ []"
    using filled_buffer by blast
  have wf: "well_formed Get ''/x'' Http11 [(''Host'', ''h'')]"
    by (simp add: well_formed_def header_ok_def trim_end_def isspace_def)
  have cb: "sv_httpCallback ?sv = Some (\<lambda>req r. defaultCall r)" and ne: "Get \<noteq> Put" by simp_all
  have close: "hs_closeConnection (defaultCall r) = True" for r by (simp add: defaultCall_def)
  from http_answers_request [OF wf ne ready_new b cb, of ?fs "DateTime 0"]
  obtain sv' c' b' resp where "server_onMessage ?fs (DateTime 0) ?sv new_HttpContext b =
      Some (Inr (sv', c', b', HSend resp # [HShutdown], []))"
    unfolding Let_def close by auto
  with b(2) show ?thesis by fastforce
qed

section \<open>Where the server falls short\<close>

lemma show_200: "show_int 200 = ''200''"
  by code_simp

lemma file_response_bytes:
  assumes "0 < n"
  shows "concat (response_pieces (resp_addHeader ''Server'' ''youth'' (setContentType ''text/plain'' (setStatus 200 ''OK''
            ((new_HttpResponse False)\<lparr>hs_contentLength := n\<rparr>))))) =
    ''HTTP/1.1 200 OK'' @ kCRLF @ ''Connection: Keep-Alive'' @ kCRLF @ ''Content-Type: text/plain'' @ kCRLF
       @ ''Server: youth'' @ kCRLF @ kCRLF"
proof -
  have "map_put ''Server'' ''youth'' [(''Content-Type'', ''text/plain'')] = [(''Content-Type'', ''text/plain''), (''Server'', ''youth'')]"
    by (simp add: less_char_def)
  then show ?thesis using assms
    by (simp add: response_pieces_def resp_addHeader_def setContentType_def setStatus_def new_HttpResponse_def show_200)
qed

lemma take_find_char: "take (find_char ch xs) xs = takeWhile (\<lambda>x. x \<noteq> ch) xs"
  by (induction xs) auto

lemma setTarget_path: "hr_path (setTarget target r) = takeWhile (\<lambda>ch. ch \<noteq> CHR ''?'') target"
  using take_find_char [of "CHR ''?''" target] unfolding setTarget_def Let_def
  by (cases "find_char (CHR ''?'') target = length target") (simp_all only: if_True if_False take_all order_refl, simp_all)

lemma request_of_path: "hr_path (request_of time m target ver hs r) = takeWhile (\<lambda>ch. ch \<noteq> CHR ''?'') target"
  by (simp add: request_of_def add_headers_def setTarget_path)

lemma no_connection_header:
  assumes "ready c" and "''Connection'' \<notin> fst ` set hs"
  shows "getHeader ''Connection'' (request_of time m target ver hs (hc_request c)) = []"
  using assms headers_absent [of "''Connection''" hs Map.empty]
  by (simp add: getHeader_def request_of_def add_headers_def setTarget_def ready_def Let_def)

text \<open>A look-up in an empty method map leaves an entry behind.\<close>

lemma unregistered_get_ready:
  assumes "\<not> sv_readyRead sv" and "sv_methodMap sv = []" and "hr_method (hc_request c) = Get"
  shows "server_onReadyRead fs sv c = (sv\<lparr>sv_methodMap := [(''GET'', [])]\<rparr>, c, [], [])"
  using assms by (simp add: server_onReadyRead_def builder_onReadyRead_def putReadyRead_def Let_def)

lemma get_file_request:
  assumes "sv_methodMap sv = [(''GET'', [])]" and "hr_method (hc_request c) = Get" and "sv_httpCallback sv = None"
    and "\<not> wants_close (hc_request c)" and path: "path = CHR ''.'' # hr_path (hc_request c)"
    and "fs_open_read fs path" and "0 < fs_size fs path"
  shows "server_onRequest fs sv c = Inr (sv, c\<lparr>hc_context := Some path\<rparr>, [HSetWriteCompleteCallback, HSend
      (''HTTP/1.1 200 OK'' @ kCRLF @ ''Connection: Keep-Alive'' @ kCRLF @ ''Content-Type: text/plain'' @ kCRLF
         @ ''Server: youth'' @ kCRLF @ kCRLF)], [])"
proof -
  let ?resp = "resp_addHeader ''Server'' ''youth'' (setContentType ''text/plain'' (setStatus 200 ''OK''
            ((new_HttpResponse False)\<lparr>hs_contentLength := fs_size fs path\<rparr>)))"
  have sv: "sv\<lparr>sv_methodMap := [(''GET'', [])]\<rparr> = sv" using assms(1) by (cases sv) simp
  have br: "builder_onRequest fs sv c (new_HttpResponse False) = Inr (sv, c\<lparr>hc_context := Some path\<rparr>, ?resp, [HSetWriteCompleteCallback], [])"
    using assms sv by (simp add: builder_onRequest_def putFinish_def getFile_def Let_def)
  from response_bytes [of ?resp] obtain buf where
    buf: "appendToBuffer ?resp (new_Buffer kInitialSize) = Inr buf" "contents buf = concat (response_pieces ?resp)" by blast
  have close: "hs_closeConnection ?resp = False"
    by (simp add: resp_addHeader_def setContentType_def setStatus_def new_HttpResponse_def)
  have "server_onRequest fs sv c = Inr (sv, c\<lparr>hc_context := Some path\<rparr>, [HSetWriteCompleteCallback, HSend (contents buf)], [])"
    using assms(1,3,4) br buf(1) close by (simp add: server_onRequest_def)
  then show ?thesis unfolding buf(2) file_response_bytes [OF assms(7)] .
qed

text \<open>
  A server on which nothing was registered does not answer 404: the first look-up
  creates an entry in the method map, so the map is never empty when the request is
  handled, and the file named by the path of any \<open>GET\<close> is opened and announced. The header
  of that answer keeps the connection alive and does not carry the content length
  the code computed.
\<close>

theorem unregistered_server_serves_files:
  assumes "well_formed Get target Http11 hs" and "ready c" and "buffer_inv b"
    and "contents b = request_text Get target Http11 hs @ rest" and "''Connection'' \<notin> fst ` set hs"
    and "sv_httpCallback sv = None" and "\<not> sv_readyRead sv" and "sv_methodMap sv = []"
    and "fs_open_read fs (CHR ''.'' # takeWhile (\<lambda>ch. ch \<noteq> CHR ''?'') target)"
    and "0 < fs_size fs (CHR ''.'' # takeWhile (\<lambda>ch. ch \<noteq> CHR ''?'') target)"
  shows "\<exists>sv' c' b'. server_onMessage fs time sv c b = Some (Inr (sv', c', b',
      [HSetWriteCompleteCallback, HSend (''HTTP/1.1 200 OK'' @ kCRLF @ ''Connection: Keep-Alive'' @ kCRLF @ ''Content-Type: text/plain'' @ kCRLF
         @ ''Server: youth'' @ kCRLF @ kCRLF)], [])) \<and>
    hc_context c' = Some (CHR ''.'' # takeWhile (\<lambda>ch. ch \<noteq> CHR ''?'') target)"
proof -
  let ?req = "request_of time Get target Http11 hs (hc_request c)"
  let ?c1 = "c\<lparr>hc_request := ?req, hc_state := GotAll\<rparr>"
  let ?sv1 = "sv\<lparr>sv_methodMap := [(''GET'', [])]\<rparr>"
  let ?path = "CHR ''.'' # takeWhile (\<lambda>ch. ch \<noteq> CHR ''?'') target"
  from bodiless_request [OF assms(1-4), of time] obtain b1 where
    b1: "parseRequest time c b = Some (Inr (True, ?c1, b1))" by blast
  have rr: "server_onReadyRead fs sv ?c1 = (?sv1, ?c1, [], [])"
    using unregistered_get_ready [OF assms(7,8), of ?c1] by simp
  have ver: "hr_version ?req = Http11" by (simp add: request_of_def add_headers_def)
  have wc: "\<not> wants_close ?req"
    using no_connection_header [OF assms(2,5)] ver by (simp add: wants_close_def)
  have rq: "server_onRequest fs ?sv1 ?c1 = Inr (?sv1, ?c1\<lparr>hc_context := Some ?path\<rparr>, [HSetWriteCompleteCallback, HSend
      (''HTTP/1.1 200 OK'' @ kCRLF @ ''Connection: Keep-Alive'' @ kCRLF @ ''Content-Type: text/plain'' @ kCRLF
         @ ''Server: youth'' @ kCRLF @ kCRLF)], [])"
    by (rule get_file_request) (use assms(6,9,10) wc in \<open>simp_all add: request_of_path\<close>)
  have ctx: "hc_context (reset_HttpContext (?c1\<lparr>hc_context := Some ?path\<rparr>)) = Some ?path"
    by (simp add: reset_HttpContext_def)
  have "server_onMessage fs time sv c b = Some (Inr (?sv1, reset_HttpContext (?c1\<lparr>hc_context := Some ?path\<rparr>), b1,
      [HSetWriteCompleteCallback, HSend (''HTTP/1.1 200 OK'' @ kCRLF @ ''Connection: Keep-Alive'' @ kCRLF @ ''Content-Type: text/plain'' @ kCRLF
         @ ''Server: youth'' @ kCRLF @ kCRLF)], []))"
    unfolding server_onMessage_def b1 using rr rq by (simp del: append_assoc append_Cons)
  with ctx show ?thesis by blast
qed

theorem unregistered_server_serves_files_witness:
  "\<exists>b sv' c' b' calls. contents b = request_text Get ''/secret'' Http11 [] \<and>
     server_onMessage \<lparr>fs_open_write = (\<lambda>p. False), fs_open_read = (\<lambda>p. p = ''./secret''), fs_size = (\<lambda>p. 5),
         fs_remove = (\<lambda>p. False)\<rparr> (DateTime 0)
       \<lparr>sv_httpCallback = None, sv_readyRead = False, sv_methodMap = [], sv_impls = (\<lambda>p. None),
        sv_call = (\<lambda>d req r. r)\<rparr> new_HttpContext b = Some (Inr (sv', c', b', calls, [])) \<and>
     hc_context c' = Some ''./secret''"
proof -
  let ?fs = "\<lparr>fs_open_write = (\<lambda>p. False), fs_open_read = (\<lambda>p. p = ''./secret''), fs_size = (\<lambda>p. 5), fs_remove = (\<lambda>p. False)\<rparr>"
  let ?sv = "\<lparr>sv_httpCallback = None, sv_readyRead = False, sv_methodMap = [], sv_impls = (\<lambda>p. None),
        sv_call = (\<lambda>d req r. r)\<rparr>"
  obtain b where b: "buffer_inv b" "contents b = request_text Get ''/secret'' Http11 [] @ []"
    using filled_buffer by blast
  have wf: "well_formed Get ''/secret'' Http11 []"
    by (simp add: well_formed_def header_ok_def trim_end_def isspace_def)
  have "\<exists>sv' c' b' calls. server_onMessage ?fs (DateTime 0) ?sv new_HttpContext b = Some (Inr (sv', c', b', calls, [])) \<and>
     hc_context c' = Some (CHR ''.'' # takeWhile (\<lambda>ch. ch \<noteq> CHR ''?'') ''/secret'')"
    using unregistered_server_serves_files [OF wf ready_new b, of ?sv ?fs "DateTime 0"] by fastforce
  with b(2) show ?thesis by fastforce
qed

text \<open>
  A \<open>PUT\<close> without a body whose file cannot be opened ends the process: the
  error branch sends nothing and leaves no file in the context, and \<open>putFinish\<close> then casts
  the empty context.
\<close>

theorem put_open_failure_terminates:
  assumes "well_formed Put target ver hs" and "ready c" and "hc_context c = None" and "buffer_inv b"
    and "contents b = request_text Put target ver hs @ rest"
    and "sv_httpCallback sv = None" and "\<not> sv_readyRead sv" and "sv_methodMap sv = []"
    and "\<not> fs_open_write fs (CHR ''.'' # takeWhile (\<lambda>ch. ch \<noteq> CHR ''?'') target)"
  shows "server_onMessage fs time sv c b = Some (Inl UncaughtException)"
proof -
  let ?c1 = "c\<lparr>hc_request := request_of time Put target ver hs (hc_request c), hc_state := GotAll\<rparr>"
  let ?sv1 = "sv\<lparr>sv_methodMap := [(''PUT'', [])]\<rparr>"
  from bodiless_request [OF assms(1,2,4,5), of time] obtain b1 where
    b1: "parseRequest time c b = Some (Inr (True, ?c1, b1))" by blast
  have rr: "server_onReadyRead fs sv ?c1 = (?sv1, ?c1, [HShutdown], [])"
    using assms(3,7,8,9) by (simp add: server_onReadyRead_def builder_onReadyRead_def putReadyRead_def Let_def request_of_path)
  have "server_onRequest fs ?sv1 ?c1 = Inl UncaughtException"
    using assms(3,6) by (simp add: server_onRequest_def builder_onRequest_def putFinish_def Let_def)
  with b1 rr show ?thesis by (simp add: server_onMessage_def)
qed

theorem put_open_failure_terminates_witness:
  "\<exists>b. contents b = request_text Put ''/f'' Http11 [] \<and>
     server_onMessage \<lparr>fs_open_write = (\<lambda>p. False), fs_open_read = (\<lambda>p. False), fs_size = (\<lambda>p. 0),
         fs_remove = (\<lambda>p. False)\<rparr> (DateTime 0)
       \<lparr>sv_httpCallback = None, sv_readyRead = False, sv_methodMap = [], sv_impls = (\<lambda>p. None),
        sv_call = (\<lambda>d req r. r)\<rparr> new_HttpContext b = Some (Inl UncaughtException)"
proof -
  obtain b where b: "buffer_inv b" "contents b = request_text Put ''/f'' Http11 [] @ []"
    using filled_buffer by blast
  have wf: "well_formed Put ''/f'' Http11 []"
    by (simp add: well_formed_def header_ok_def trim_end_def isspace_def)
  have "hc_context (new_HttpContext :: hctx) = None" by (simp add: new_HttpContext_def)
  from put_open_failure_terminates [OF wf ready_new this b] b(2) show ?thesis by fastforce
qed

end
