(* ===== verification/Http_Example.thy ===== *)
theory Http_Example
  imports Http_Server
begin

text \<open>
  \<open>examples/HttpServer\<close>: an application built on the library. Three handler objects serve \<open>GET\<close>, \<open>HEAD\<close> and
  \<open>POST\<close>; \<open>main\<close> registers them with the server. The log statements of the handlers are left out. A call
  returns the request too, because reading the body changes it.
\<close>

section \<open>Handlers\<close>

definition get_paths :: "string list" where
  "get_paths = [''/'', ''/favicon.ico'', ''/GET'']"

definition head_paths :: "string list" where
  "head_paths = [''/HEAD'']"

definition post_paths :: "string list" where
  "post_paths = [''/POST'']"

definition favicon :: string where
  "favicon = map char_of [
      137, 80, 78, 71, 13, 10, 26, 10, 0, 0, 0, 13, 73, 72, 68, 82, 0, 0, 0, 16, 0, 0, 0, 16,
      8, 6, 0, 0, 0, 31, 243, 255, 97, 0, 0, 0, 25, 116, 69, 88, 116, 83, 111, 102, 116, 119, 97, 114,
      101, 0, 65, 100, 111, 98, 101, 32, 73, 109, 97, 103, 101, 82, 101, 97, 100, 121, 113, 201, 101, 60, 0, 0,
      1, 205, 73, 68, 65, 84, 120, 218, 148, 147, 57, 72, 3, 65, 20, 134, 255, 93, 98, 167, 4, 82, 196, 109,
      34, 30, 160, 70, 36, 8, 22, 22, 118, 10, 54, 186, 74, 154, 128, 8, 65, 180, 113, 133, 88, 137, 71, 176,
      73, 169, 81, 36, 205, 166, 8, 164, 72, 99, 145, 66, 11, 175, 86, 193, 70, 180, 21, 207, 34, 88, 152, 11,
      84, 72, 138, 100, 147, 141, 251, 70, 103, 201, 26, 20, 125, 240, 102, 118, 102, 223, 124, 239, 231, 103, 70, 168,
      213, 106, 72, 36, 18, 42, 0, 5, 191, 71, 212, 239, 247, 47, 54, 236, 18, 32, 30, 143, 215, 170, 213, 234,
      175, 73, 53, 70, 170, 84, 95, 159, 34, 65, 42, 149, 10, 131, 229, 114, 57, 100, 179, 89, 150, 153, 76, 6,
      233, 116, 154, 37, 133, 44, 203, 84, 167, 196, 98, 49, 181, 94, 0, 3, 104, 154, 198, 22, 130, 32, 88, 82,
      20, 69, 54, 83, 148, 203, 101, 120, 189, 94, 170, 85, 84, 35, 76, 192, 224, 226, 193, 143, 0, 158, 188, 9,
      65, 124, 62, 31, 131, 68, 34, 17, 213, 84, 64, 63, 56, 128, 119, 229, 51, 7, 184, 92, 46, 72, 146, 4,
      135, 195, 129, 64, 32, 64, 103, 152, 233, 54, 26, 166, 103, 21, 4, 227, 215, 200, 189, 21, 225, 105, 183, 67,
      171, 234, 120, 47, 106, 88, 146, 187, 24, 32, 159, 207, 51, 195, 184, 233, 78, 167, 211, 108, 74, 0, 105, 54,
      124, 142, 225, 254, 86, 132, 231, 60, 159, 114, 43, 58, 66, 123, 55, 102, 119, 174, 142, 14, 243, 189, 82, 169,
      100, 2, 66, 175, 133, 50, 102, 70, 186, 12, 217, 159, 29, 154, 108, 34, 230, 199, 58, 44, 128, 239, 193, 21,
      144, 7, 147, 162, 40, 160, 83, 106, 177, 184, 223, 41, 53, 67, 14, 63, 88, 252, 152, 218, 121, 106, 80, 64,
      0, 135, 174, 27, 23, 66, 180, 58, 63, 190, 121, 199, 10, 38, 182, 238, 217, 154, 96, 20, 147, 219, 143, 13,
      10, 46, 233, 35, 149, 41, 88, 0, 39, 235, 110, 86, 112, 188, 214, 203, 214, 71, 171, 61, 108, 125, 184, 210,
      221, 160, 96, 131, 186, 239, 95, 164, 234, 204, 2, 78, 174, 94, 112, 26, 236, 179, 64, 57, 172, 254, 242, 145,
      137, 103, 145, 133, 33, 168, 135, 183, 88, 126, 126, 133, 187, 205, 78, 78, 98, 116, 64, 250, 147, 137, 236, 30,
      236, 134, 2, 72, 38, 147, 208, 117, 29, 127, 9, 50, 149, 191, 31, 219, 215, 99, 138, 26, 247, 92, 193, 255,
      34, 74, 195, 135, 0, 3, 0, 75, 187, 248, 214, 42, 118, 152, 73, 0, 0, 0, 0, 73, 69, 78, 68, 174,
      66, 96, 130 :: nat]"

text \<open>\<open>path\<close> of the three classes.\<close>

definition method_path :: "string list \<Rightarrow> int \<Rightarrow> string res" where
  "method_path paths index = cassert (0 \<le> index \<and> index < int (length paths)) (Inr (paths ! nat index))"

definition GetMethod_call :: "int \<Rightarrow> http_request \<Rightarrow> http_response \<Rightarrow> (http_request \<times> http_response) res" where
  "GetMethod_call index req resp =
     cassert (0 \<le> index \<and> index < int (length get_paths)) (Inr (req,
       (if index = 0 then
          (resp_addHeader ''Server'' ''youth'' (setContentType ''text/html'' (setStatus 200 ''OK'' resp)))
            \<lparr>hs_body := ''<html><head><title>This is title</title></head>'' @
               ''<body><h1>Hello</h1>This is Http GET Method</body></html>''\<rparr>
        else if index = 1 then
          (setContentType ''image/png'' (setStatus 200 ''OK'' resp))\<lparr>hs_body := favicon\<rparr>
        else if index = 2 then
          (resp_addHeader ''Server'' ''youth'' (setContentType ''text/plain'' (setStatus 200 ''OK'' resp)))
            \<lparr>hs_body := ''This is Http GET Method''\<rparr>
        else defaultCall resp)\<lparr>hs_closeConnection := True\<rparr>))"

definition HeadMethod_call :: "int \<Rightarrow> http_request \<Rightarrow> http_response \<Rightarrow> (http_request \<times> http_response) res" where
  "HeadMethod_call index req resp =
     cassert (0 \<le> index \<and> index < int (length head_paths)) (Inr (req,
       (if index = 0 then
          resp_addHeader ''Method'' ''This is Http HEAD Method''
            (resp_addHeader ''Server'' ''youth'' (setContentType ''text/plain'' (setStatus 200 ''OK'' resp)))
        else defaultCall resp)\<lparr>hs_closeConnection := True\<rparr>))"

definition PostMethod_call :: "int \<Rightarrow> http_request \<Rightarrow> http_response \<Rightarrow> (http_request \<times> http_response) res" where
  "PostMethod_call index req resp =
     (let (body, req1) = readAll req in
      cassert (0 \<le> index \<and> index < int (length post_paths)) (Inr (req1,
       (if index = 0 then
          (resp_addHeader ''Server'' ''youth'' (setContentType ''text/plain'' (setStatus 200 ''OK'' resp)))
            \<lparr>hs_body := ''This is Http POST Method''\<rparr>
        else defaultCall resp)\<lparr>hs_closeConnection := True\<rparr>)))"

section \<open>The application\<close>

text \<open>The objects \<open>main\<close> makes, by address, and the server they are registered with.\<close>

definition example_impls :: impl_table where
  "example_impls p =
     (if p = 0 then Some (map (\<lambda>path. (''GET'', path)) get_paths)
      else if p = 1 then Some (map (\<lambda>path. (''HEAD'', path)) head_paths)
      else if p = 2 then Some (map (\<lambda>path. (''POST'', path)) post_paths)
      else None)"

definition example_call :: "detail \<Rightarrow> http_request \<Rightarrow> http_response \<Rightarrow> (http_request \<times> http_response) res" where
  "example_call d req resp =
     (if fst d = 0 then GetMethod_call (int (snd d)) req resp
      else if fst d = 1 then HeadMethod_call (int (snd d)) req resp
      else PostMethod_call (int (snd d)) req resp)"

definition example_server :: http_server where
  "example_server = \<lparr>sv_httpCallback = None, sv_readyRead = False,
     sv_methodMap = registerMethod example_impls 2 (registerMethod example_impls 1 (registerMethod example_impls 0 [])),
     sv_impls = example_impls,
     sv_call = (\<lambda>d req resp. case example_call d req resp of Inl f \<Rightarrow> resp | Inr (req1, r) \<Rightarrow> r)\<rparr>"

section \<open>What it answers\<close>

text \<open>The pages of the site, as they go out.\<close>

definition page_head :: "string \<Rightarrow> string" where
  "page_head t = ''HTTP/1.1 200 OK'' @ kCRLF @ ''Connection: close'' @ kCRLF @ ''Content-Type: '' @ t @ kCRLF"

definition example_page :: "http_method \<Rightarrow> string \<Rightarrow> string option" where
  "example_page m path =
     (if m = Get \<and> path = ''/'' then
        Some (page_head ''text/html'' @ ''Server: youth'' @ kCRLF @ kCRLF @
          ''<html><head><title>This is title</title></head><body><h1>Hello</h1>This is Http GET Method</body></html>'')
      else if m = Get \<and> path = ''/favicon.ico'' then Some (page_head ''image/png'' @ kCRLF @ favicon)
      else if m = Get \<and> path = ''/GET'' then
        Some (page_head ''text/plain'' @ ''Server: youth'' @ kCRLF @ kCRLF @ ''This is Http GET Method'')
      else if m = Head \<and> path = ''/HEAD'' then
        Some (page_head ''text/plain'' @ ''Method: This is Http HEAD Method'' @ kCRLF @ ''Server: youth'' @ kCRLF @ kCRLF)
      else if m = Post \<and> path = ''/POST'' then
        Some (page_head ''text/plain'' @ ''Server: youth'' @ kCRLF @ kCRLF @ ''This is Http POST Method'')
      else None)"

lemma example_methods:
  "sv_methodMap example_server = [(''GET'', [(0, 0), (0, 1), (0, 2)]), (''HEAD'', [(1, 0)]), (''POST'', [(2, 0)])]"
  by (simp add: example_server_def registerMethod_def example_impls_def get_paths_def head_paths_def post_paths_def)

lemma header_order:
  "map_put ''Server'' v [(''Content-Type'', t)] = [(''Content-Type'', t), (''Server'', v)]"
  "map_put ''Method'' w [(''Content-Type'', t), (''Server'', v)] = [(''Content-Type'', t), (''Method'', w), (''Server'', v)]"
  by (simp_all add: less_char_def)

lemmas response_simps = response_pieces_def resp_addHeader_def setContentType_def setStatus_def new_HttpResponse_def show_200
  header_order page_head_def

text \<open>The five pages, each found by its method and path and made by its handler.\<close>

definition serves :: "http_method \<Rightarrow> string \<Rightarrow> string \<Rightarrow> bool" where
  "serves m path txt \<longleftrightarrow> (\<exists>d. let ds = get_details (methodString m) (sv_methodMap example_server) in
     find_detail example_impls path ds = (Some d, ds) \<and>
     put_details (methodString m) ds (sv_methodMap example_server) = sv_methodMap example_server \<and>
     (\<forall>req cl. \<exists>req1 r. example_call d req (new_HttpResponse cl) = Inr (req1, r) \<and>
        concat (response_pieces r) = txt \<and> hs_closeConnection r))"

lemma servesI:
  assumes "ds = get_details (methodString m) (sv_methodMap example_server)" and "find_detail example_impls path ds = (Some d, ds)"
    and "put_details (methodString m) ds (sv_methodMap example_server) = sv_methodMap example_server"
    and "\<And>req cl. \<exists>req1 r. example_call d req (new_HttpResponse cl) = Inr (req1, r) \<and>
        concat (response_pieces r) = txt \<and> hs_closeConnection r"
  shows "serves m path txt"
  unfolding serves_def using assms by (intro exI [of _ d]) (simp add: Let_def)

lemmas site_simps = example_methods example_impls_def get_paths_def head_paths_def post_paths_def

lemma serves_get:
  "serves Get ''/'' (page_head ''text/html'' @ ''Server: youth'' @ kCRLF @ kCRLF @
     ''<html><head><title>This is title</title></head><body><h1>Hello</h1>This is Http GET Method</body></html>'')"
  "serves Get ''/favicon.ico'' (page_head ''image/png'' @ kCRLF @ favicon)"
  "serves Get ''/GET'' (page_head ''text/plain'' @ ''Server: youth'' @ kCRLF @ kCRLF @ ''This is Http GET Method'')"
proof -
  let ?ds = "[(0, 0), (0, 1), (0, 2)] :: detail list"
  show "serves Get ''/'' (page_head ''text/html'' @ ''Server: youth'' @ kCRLF @ kCRLF @
     ''<html><head><title>This is title</title></head><body><h1>Hello</h1>This is Http GET Method</body></html>'')"
    by (rule servesI [of ?ds _ _ "(0, 0)"]) (simp_all add: site_simps example_call_def GetMethod_call_def response_simps)
  show "serves Get ''/favicon.ico'' (page_head ''image/png'' @ kCRLF @ favicon)"
    by (rule servesI [of ?ds _ _ "(0, 1)"]) (simp_all add: site_simps example_call_def GetMethod_call_def response_simps)
  show "serves Get ''/GET'' (page_head ''text/plain'' @ ''Server: youth'' @ kCRLF @ kCRLF @ ''This is Http GET Method'')"
    by (rule servesI [of ?ds _ _ "(0, 2)"]) (simp_all add: site_simps example_call_def GetMethod_call_def response_simps)
qed

lemma serves_head:
  "serves Head ''/HEAD'' (page_head ''text/plain'' @ ''Method: This is Http HEAD Method'' @ kCRLF @ ''Server: youth'' @ kCRLF @ kCRLF)"
  by (rule servesI [of "[(1, 0)]" _ _ "(1, 0)"]) (simp_all add: site_simps example_call_def HeadMethod_call_def response_simps)

lemma serves_post:
  "serves Post ''/POST'' (page_head ''text/plain'' @ ''Server: youth'' @ kCRLF @ kCRLF @ ''This is Http POST Method'')"
  by (rule servesI [of "[(2, 0)]" _ _ "(2, 0)"])
    (simp_all add: site_simps example_call_def PostMethod_call_def response_simps split_beta)

lemma example_serves: "example_page m path = Some txt \<Longrightarrow> serves m path txt"
  using serves_get serves_head serves_post by (auto simp: example_page_def split: if_splits)

text \<open>A request for a page: neither of the two look-ups changes the server.\<close>

lemma example_ready_read:
  assumes "serves (hr_method (hc_request c)) (hr_path (hc_request c)) txt"
  shows "server_onReadyRead fs example_server c = (example_server, c, [], [])"
proof -
  have "sv_impls example_server = example_impls" "\<not> sv_readyRead example_server" by (simp_all add: example_server_def)
  with assms show ?thesis by (auto simp: serves_def server_onReadyRead_def builder_onReadyRead_def Let_def)
qed

lemma example_request:
  assumes "serves (hr_method (hc_request c)) (hr_path (hc_request c)) txt"
  shows "server_onRequest fs example_server c = Inr (example_server, c, [HSend txt, HShutdown], [])"
proof -
  have sv: "sv_impls example_server = example_impls" "sv_httpCallback example_server = None" "sv_methodMap example_server \<noteq> []"
    "\<And>d req resp. sv_call example_server d req resp = (case example_call d req resp of Inl f \<Rightarrow> resp | Inr (req1, r) \<Rightarrow> r)"
    using example_methods by (simp_all add: example_server_def)
  let ?r0 = "new_HttpResponse (wants_close (hc_request c))"
  from assms obtain d req1 r where
    r: "example_call d (hc_request c) ?r0 = Inr (req1, r)" "concat (response_pieces r) = txt" "hs_closeConnection r"
    and b: "builder_onRequest fs example_server c ?r0 = Inr (example_server, c, sv_call example_server d (hc_request c) ?r0, [], [])"
    unfolding serves_def builder_onRequest_def Let_def sv(1) by fastforce
  from response_bytes [of r] obtain buf where buf: "appendToBuffer r (new_Buffer kInitialSize) = Inr buf" "contents buf = txt"
    using r(2) by auto
  have "sv_call example_server d (hc_request c) ?r0 = r" using r(1) sv(4) by simp
  with b buf r(3) sv(2,3) show ?thesis by (simp add: server_onRequest_def)
qed

lemma example_answer:
  assumes "well_formed m target ver hs" and "ready c" and "buffer_inv b"
    and "contents b = request_text m target ver hs @ rest"
    and "example_page m (takeWhile (\<lambda>ch. ch \<noteq> CHR ''?'') target) = Some txt"
  shows "\<exists>c' b'. server_onMessage fs time example_server c b = Some (Inr (example_server, c', b', [HSend txt, HShutdown], [])) \<and>
    ready c' \<and> buffer_inv b' \<and> contents b' = rest"
proof -
  let ?c1 = "c\<lparr>hc_request := request_of time m target ver hs (hc_request c), hc_state := GotAll\<rparr>"
  from bodiless_request [OF assms(1-4), of time] obtain b1 where
    b1: "parseRequest time c b = Some (Inr (True, ?c1, b1))" "buffer_inv b1" "contents b1 = rest" by blast
  have "serves (hr_method (hc_request ?c1)) (hr_path (hc_request ?c1)) txt"
    using example_serves [OF assms(5)] by (simp add: request_of_path)
  note steps = example_ready_read [OF this] example_request [OF this]
  have "ready (reset_HttpContext ?c1)"
    using assms(2) by (simp add: ready_def reset_HttpContext_def swap_HttpRequest_def new_HttpRequest_def)
  then show ?thesis using b1 steps by (simp add: server_onMessage_def)
qed

text \<open>
  The example application answers as written: a well-formed request without a body for one of
  its pages (any target whose path is that page, with or without a query), in a buffer on a
  fresh or reused connection, is answered in one step with exactly the text of the page,
  after which the connection is shut down; no handler's assertion fails, the
  registrations stay as they were, and what follows the request stays in the buffer.
\<close>

theorem example_site_answers:
  assumes "well_formed m target ver hs" and "ready c" and "buffer_inv b"
    and "contents b = request_text m target ver hs @ rest"
    and "example_page m (takeWhile (\<lambda>ch. ch \<noteq> CHR ''?'') target) = Some txt"
  shows "\<exists>c' b'. server_onMessage fs time example_server c b = Some (Inr (example_server, c', b', [HSend txt, HShutdown], [])) \<and>
    ready c' \<and> buffer_inv b' \<and> contents b' = rest"
  using assms by (rule example_answer)

theorem example_site_answers_witness:
  "\<exists>b c' b'. contents b = request_text Get ''/GET?q=1'' Http11 [(''Host'', ''h'')] \<and>
     server_onMessage \<lparr>fs_open_write = (\<lambda>p. False), fs_open_read = (\<lambda>p. False), fs_size = (\<lambda>p. 0), fs_remove = (\<lambda>p. False)\<rparr>
       (DateTime 0) example_server new_HttpContext b =
     Some (Inr (example_server, c', b', [HSend (page_head ''text/plain'' @ ''Server: youth'' @ kCRLF @ kCRLF @
       ''This is Http GET Method''), HShutdown], []))"
proof -
  obtain b where b: "buffer_inv b" "contents b = request_text Get ''/GET?q=1'' Http11 [(''Host'', ''h'')] @ []"
    using filled_buffer by blast
  have wf: "well_formed Get ''/GET?q=1'' Http11 [(''Host'', ''h'')]"
    by (simp add: well_formed_def header_ok_def trim_end_def isspace_def)
  have page: "example_page Get (takeWhile (\<lambda>ch. ch \<noteq> CHR ''?'') ''/GET?q=1'') =
      Some (page_head ''text/plain'' @ ''Server: youth'' @ kCRLF @ kCRLF @ ''This is Http GET Method'')"
    by (simp add: example_page_def)
  from example_site_answers [OF wf ready_new b page,
      of "\<lparr>fs_open_write = (\<lambda>p. False), fs_open_read = (\<lambda>p. False), fs_size = (\<lambda>p. 0), fs_remove = (\<lambda>p. False)\<rparr>" "DateTime 0"]
    b(2) show ?thesis unfolding append_Nil2 by blast
qed

end
