(* ===== verification/Http_Connection.thy ===== *)
theory Http_Connection
  imports Http_Example
begin

text \<open>
  The HTTP server on a connection: \<open>HttpServer\<close> binds \<open>onMessage\<close> as the message callback, so the bytes
  in the connection's input buffer are parsed, the handler is run and what the
  server calls is done to the same connection.
\<close>

section \<open>The message callback\<close>

fun conn_calls :: "http_call list \<Rightarrow> conn_call list" where
  "conn_calls [] = []"
| "conn_calls (HSend d # hs) = CallSend d # conn_calls hs"
| "conn_calls (HShutdown # hs) = CallShutdown # conn_calls hs"
| "conn_calls (HSetWriteCompleteCallback # hs) = conn_calls hs"

definition conn_http_message :: "kernel_write \<Rightarrow> nat \<Rightarrow> file_system \<Rightarrow> datetime \<Rightarrow> http_server \<Rightarrow> hctx \<Rightarrow> conn \<Rightarrow>
    (http_server \<times> hctx \<times> conn \<times> writes) res option" where
  "conn_http_message kw tid fs time sv hc c =
     (case server_onMessage fs time sv hc (c_inputBuffer c) of
        None \<Rightarrow> None
      | Some (Inl f) \<Rightarrow> Some (Inl f)
      | Some (Inr (sv1, hc1, b1, calls, ws)) \<Rightarrow>
          let c1 = (if HSetWriteCompleteCallback \<in> set calls then setWriteCompleteCallback c else c)\<lparr>c_inputBuffer := b1\<rparr> in
          Some (bindR (run_calls kw tid (conn_calls calls) c1) (\<lambda>c2. Inr (sv1, hc1, c2, ws))))"

section \<open>What a send adds\<close>

text \<open>The kernel reports that the peer is gone: \<open>sendInLoop\<close> then drops the message.\<close>

definition peer_gone :: "kernel_write \<Rightarrow> string \<Rightarrow> conn \<Rightarrow> bool" where
  "peer_gone kw data c \<longleftrightarrow> contents (c_outputBuffer c) = [] \<and>
     (case kw (c_writes c) data of Wrote n \<Rightarrow> False | WriteFailed e \<Rightarrow> e = EPIPE \<or> e = ECONNRESET)"

lemma buffer_output_adds:
  "buffer_output tid rest c = Inr c' \<Longrightarrow> c_sent c' = c_sent c \<and> c_inputBuffer c' = c_inputBuffer c"
  by (auto simp: buffer_output_def on_channel_def Let_def bindR_def split: if_splits sum.splits)

lemma sendInLoop_adds:
  assumes "kernel_law kw" and "conn_inv c" and "is_open c" and "inLoop tid c" and "\<not> peer_gone kw data c"
    and "sendInLoop kw tid data c = Inr c'"
  shows "c_sent c' = c_sent c @ data \<and> c_inputBuffer c' = c_inputBuffer c"
proof -
  obtain n r ff c1 where t: "try_write kw tid data c = (n, r, ff, c1)" by (cases "try_write kw tid data c") auto
  note w = try_write_cases [OF assms(1-3) t]
  have "\<not> ff"
  proof (cases "contents (c_outputBuffer c) = []")
    case True
    then show ?thesis using t assms(5) by (auto simp: try_write_def peer_gone_def Let_def split: if_splits write_answer.splits)
  qed (use w in blast)
  moreover have "c_state c \<noteq> kDisconnected" using assms(3) by (auto simp: is_open_def)
  ultimately have "(if 0 < r then buffer_output tid (take r (drop n data)) (c1\<lparr>c_sent := c_sent c1 @ data\<rparr>)
      else Inr (c1\<lparr>c_sent := c_sent c1 @ data\<rparr>)) = Inr c'"
    using assms(4,6) t w by (simp add: sendInLoop_def assertInLoopThread_def Let_def)
  then show ?thesis using w by (auto split: if_splits dest: buffer_output_adds)
qed

text \<open>The answer of a connection in its own thread: a send followed by a shutdown.\<close>

lemma reply_and_shutdown:
  assumes "kernel_law kw" and "conn_inv c" and "c_state c = kConnected" and "inLoop tid c" and "\<not> peer_gone kw data c"
  shows "returns (run_calls kw tid [CallSend data, CallShutdown] c) (\<lambda>c'. conn_inv c' \<and> c_state c' = kDisconnecting \<and>
    c_sent c' = c_sent c @ data \<and> c_inputBuffer c' = c_inputBuffer c \<and>
    c_trace c' = c_trace c @ (if contents (c_outputBuffer c') = [] then [ShutdownWrite []] else []))"
proof -
  have o: "is_open c" using assms(3) by (simp add: is_open_def)
  from sendInLoop_returns [OF assms(1,2,4), of data] assms(3) obtain c1 where
    c1: "sendInLoop kw tid data c = Inr c1" "keeps c tid c1" by (auto elim!: returnsE)
  note k = c1(2) [unfolded keeps_def]
  have send: "send kw tid data c = Inr c1" using assms(3,4) c1(1) by (simp add: send_def)
  note adds = sendInLoop_adds [OF assms(1,2) o assms(4,5) c1(1)]
  have o1: "is_open c1" "c_state c1 = kConnected" "inLoop tid c1" "conn_inv c1" using k assms(3,4) by (auto simp: is_open_def)
  let ?c2 = "c1\<lparr>c_state := kDisconnecting\<rparr>"
  have inv2: "conn_inv ?c2" using conn_inv_disconnecting [OF o1(4,1)] by simp
  have w: "isWriting (c_channel c1) \<longleftrightarrow> contents (c_outputBuffer c1) \<noteq> []" by (rule open_isWriting [OF o1(4,1)])
  have shut: "shutdown tid c1 = Inr (if contents (c_outputBuffer c1) = [] then log_event (ShutdownWrite []) ?c2 else ?c2)"
    using o1(2,3) w by (simp add: shutdown_def shutdownInLoop_def assertInLoopThread_def)
  have "returns (shutdownInLoop tid ?c2) conn_inv"
    using shutdownInLoop_returns [OF inv2, of tid] o1(3) by (auto elim!: returns_mono)
  then have "returns (shutdown tid c1) conn_inv" using o1(2,3) by (simp add: shutdown_def)
  with send shut adds k show ?thesis by auto
qed


text \<open>A user that leaves its input alone, and a connection of such a user that has received \<open>d\<close>.\<close>

definition quiet :: user_code where
  "quiet e = []"

lemma sample_start_quiet: "conn_start all_written quiet 7 sample"
  using sample_start by (auto simp: conn_start_def user_ok_def quiet_def)

lemma sample_established:
  "\<exists>c. crun all_written quiet 7 [Establish] sample = Some c \<and> c_state c = kConnected \<and> contents (c_inputBuffer c) = []"
  by (simp add: conn_eval quiet_def)

lemma sample_receives:
  assumes "d \<noteq> []"
  shows "\<exists>c. reaches (conn_step all_written quiet 7) sample c \<and> c_state c = kConnected \<and> contents (c_inputBuffer c) = d"
proof -
  from sample_established obtain c where
    c: "crun all_written quiet 7 [Establish] sample = Some c" "c_state c = kConnected" "contents (c_inputBuffer c) = []" by blast
  note r = crun_reaches [OF c(1)]
  from conn.reachable_inv [OF sample_start_quiet r] have inv: "buffer_inv (c_inputBuffer c)" "inLoop 7 c"
    by (simp_all add: sys_inv_def conn_inv_def)
  let ?readv = "\<lambda>iov :: nat list. Inr d :: nat + string"
  from readFd_returns [OF inv(1), of ?readv] c(3) obtain b where
    b: "readFd ?readv (c_inputBuffer c) = Inr (int (length d), None, b)" "contents b = d" by (auto elim!: returnsE)
  let ?c2 = "log_event (MessageCb d) (c\<lparr>c_inputBuffer := b\<rparr>)"
  have "cexec all_written quiet 7 (EvRead ?readv) c = Inr ?c2"
    using inv(2) b assms by (simp add: conn_handleRead_def assertInLoopThread_def callback_def quiet_def)
  moreover have "cenabled all_written 7 (EvRead ?readv) c" using c(2) by (simp add: is_open_def)
  ultimately have "conn_step all_written quiet 7 c ?c2" unfolding conn_step_def by blast
  from reaches.step [of "conn_step all_written quiet 7", OF r this] c(2) b(2) show ?thesis by fastforce
qed


end
