(* ===== verification/Http_Session.thy ===== *)
theory Http_Session
  imports Http_Connection
begin

text \<open>
  A keep-alive session: one connection, one HTTP context, many requests. \<open>http_handleRead\<close> is
  \<open>TcpConnection::handleRead\<close> with \<open>HttpServer::onMessage\<close> as the message callback (\<open>onConnection\<close> does nothing when a
  connection goes down). Requests arrive in pieces and the socket becomes writable
  at any point in between.
\<close>

section \<open>Events of a session\<close>

definition http_handleRead :: "kernel_write \<Rightarrow> nat \<Rightarrow> file_system \<Rightarrow> datetime \<Rightarrow> (nat list \<Rightarrow> nat + string) \<Rightarrow>
    http_server \<Rightarrow> hctx \<Rightarrow> conn \<Rightarrow> (http_server \<times> hctx \<times> conn \<times> writes) res option" where
  "http_handleRead kw tid fs time readv sv hc c =
     (if \<not> inLoop tid c then Some (Inl FatalAbort)
      else case readFd readv (c_inputBuffer c) of
        Inl f \<Rightarrow> Some (Inl f)
      | Inr (n, err, buf) \<Rightarrow>
          (let c1 = c\<lparr>c_inputBuffer := buf\<rparr> in
           if 0 < n then conn_http_message kw tid fs time sv hc (log_event (MessageCb (contents buf)) c1)
           else if n = 0 then Some (bindR (conn_handleClose kw quiet tid c1) (\<lambda>c2. Inr (sv, server_onConnection False hc, c2, [])))
           else Some (Inr (sv, hc, c1, []))))"

datatype http_event = Arrive string | Writable

fun http_session :: "kernel_write \<Rightarrow> nat \<Rightarrow> file_system \<Rightarrow> datetime \<Rightarrow> http_event list \<Rightarrow>
    http_server \<times> hctx \<times> conn \<Rightarrow> (http_server \<times> hctx \<times> conn) res option" where
  "http_session kw tid fs time [] st = Some (Inr st)"
| "http_session kw tid fs time (Arrive d # es) (sv, hc, c) =
     (case http_handleRead kw tid fs time (\<lambda>iov. Inr d) sv hc c of
        None \<Rightarrow> None
      | Some (Inl f) \<Rightarrow> Some (Inl f)
      | Some (Inr (sv1, hc1, c1, ws)) \<Rightarrow> http_session kw tid fs time es (sv1, hc1, c1))"
| "http_session kw tid fs time (Writable # es) (sv, hc, c) =
     (case handleWrite kw tid c of
        Inl f \<Rightarrow> Some (Inl f)
      | Inr c1 \<Rightarrow> http_session kw tid fs time es (sv, hc, c1))"

fun arrivals :: "http_event list \<Rightarrow> string list" where
  "arrivals [] = []"
| "arrivals (Arrive d # es) = d # arrivals es"
| "arrivals (Writable # es) = arrivals es"

text \<open>A kernel that takes some part of what is written and reports no error.\<close>

definition accepting :: "kernel_write \<Rightarrow> bool" where
  "accepting kw \<longleftrightarrow> (\<forall>i d. \<exists>n \<le> length d. kw i d = Wrote n)"

lemma accepting_law: "accepting kw \<Longrightarrow> kernel_law kw"
  unfolding accepting_def kernel_law_def by (metis write_answer.inject(1))

lemma accepting_up: "accepting kw \<Longrightarrow> \<not> peer_gone kw d c"
  unfolding accepting_def peer_gone_def by (metis write_answer.simps(5))

section \<open>The connection's side\<close>

definition up :: "nat \<Rightarrow> conn \<Rightarrow> bool" where
  "up tid c \<longleftrightarrow> conn_inv c \<and> inLoop tid c \<and> c_state c = kConnected"

lemma up_input: "up tid c \<Longrightarrow> buffer_inv b \<Longrightarrow> up tid (c\<lparr>c_inputBuffer := b\<rparr>)"
  using input_advances [of c b] by (simp add: up_def advances_def)

lemma up_message: "up tid c \<Longrightarrow> up tid (log_event (MessageCb m) c)"
  by (auto simp: up_def conn_inv_def life_append)

lemma up_send:
  assumes "accepting kw" and "up tid c"
  shows "\<exists>c'. send kw tid data c = Inr c' \<and> up tid c' \<and> c_sent c' = c_sent c @ data \<and> c_inputBuffer c' = c_inputBuffer c"
proof -
  have c: "conn_inv c" "inLoop tid c" "c_state c = kConnected" "is_open c" using assms(2) by (simp_all add: up_def is_open_def)
  from sendInLoop_returns [OF accepting_law [OF assms(1)] c(1,2), of data] c(3) obtain c' where
    c': "sendInLoop kw tid data c = Inr c'" "keeps c tid c'" by (auto elim!: returnsE)
  from sendInLoop_adds [OF accepting_law [OF assms(1)] c(1,4,2) accepting_up [OF assms(1)] c'(1)] c' c show ?thesis
    by (auto simp: send_def up_def keeps_def)
qed

lemma handleWrite_frame:
  assumes "handleWrite kw tid c = Inr c'" and "c_state c = kConnected"
  shows "c_sent c' = c_sent c \<and> c_inputBuffer c' = c_inputBuffer c \<and> c_state c' = kConnected"
  using assms
  by (auto simp: handleWrite_def handleWrite_with_def assertInLoopThread_def on_channel_def Let_def bindR_def
      split: if_splits sum.splits write_answer.splits prod.splits)

lemma up_write:
  assumes "accepting kw" and "up tid c"
  shows "\<exists>c'. handleWrite kw tid c = Inr c' \<and> up tid c' \<and> c_sent c' = c_sent c \<and> c_inputBuffer c' = c_inputBuffer c"
proof -
  from assms(1) obtain n where n: "kw (c_writes c) (contents (c_outputBuffer c)) = Wrote n" unfolding accepting_def by blast
  have "settled tid c" using assms(2) by (simp add: up_def settled_def)
  from handleWrite_returns [OF accepting_law [OF assms(1)] this n] obtain c' where
    c': "handleWrite kw tid c = Inr c'" "settled tid c'" by (auto elim!: returnsE)
  with handleWrite_frame [OF c'(1)] assms(2) show ?thesis by (auto simp: up_def settled_def)
qed

section \<open>One piece\<close>

text \<open>What arrives is appended to the input and handed to the parser with the rest of the input.\<close>

lemma read_piece:
  assumes "up tid c" and "d \<noteq> []" and "spec_parse time hc (contents (c_inputBuffer c) @ d) = Some (Inr (ok, hc1, rest))"
  shows "\<exists>c2 b1. http_handleRead kw tid fs time (\<lambda>iov. Inr d) sv hc c = conn_http_message kw tid fs time sv hc c2 \<and>
    up tid c2 \<and> c_sent c2 = c_sent c \<and> parseRequest time hc (c_inputBuffer c2) = Some (Inr (ok, hc1, b1)) \<and>
    buffer_inv b1 \<and> contents b1 = rest"
proof -
  have in_c: "buffer_inv (c_inputBuffer c)" "inLoop tid c" using assms(1) by (simp_all add: up_def conn_inv_def)
  from readFd_returns [OF in_c(1), of "\<lambda>iov. Inr d"] obtain b where
    b: "readFd (\<lambda>iov. Inr d) (c_inputBuffer c) = Inr (int (length d), None, b)" "buffer_inv b"
      "contents b = contents (c_inputBuffer c) @ d" by (auto elim!: returnsE)
  let ?c2 = "log_event (MessageCb (contents b)) (c\<lparr>c_inputBuffer := b\<rparr>)"
  have "spec_parse time hc (contents b) = Some (Inr (ok, hc1, rest))" using assms(3) b(3) by simp
  with parse_refines [OF b(2), of time hc] obtain b1 where
    "parseRequest time hc b = Some (Inr (ok, hc1, b1))" "buffer_inv b1" "contents b1 = rest" by auto
  moreover have "up tid ?c2" by (rule up_message [OF up_input [OF assms(1) b(2)]])
  moreover have "http_handleRead kw tid fs time (\<lambda>iov. Inr d) sv hc c = conn_http_message kw tid fs time sv hc ?c2"
    using b(1) in_c(2) assms(2) by (simp add: http_handleRead_def)
  ultimately show ?thesis by (intro exI [of _ ?c2] exI [of _ b1]) simp
qed

lemma piece_waits:
  assumes "up tid c" and "d \<noteq> []" and "spec_parse time hc (contents (c_inputBuffer c) @ d) = Some (Inr (True, hc1, rest))"
    and "hc_state hc1 = ExpectRequestLine \<or> hc_state hc1 = ExpectHeaders"
  shows "\<exists>c'. http_handleRead kw tid fs time (\<lambda>iov. Inr d) sv hc c = Some (Inr (sv, hc1, c', [])) \<and>
    up tid c' \<and> c_sent c' = c_sent c \<and> contents (c_inputBuffer c') = rest"
proof -
  from read_piece [OF assms(1-3), of kw fs sv] obtain c2 b1 where
    r: "http_handleRead kw tid fs time (\<lambda>iov. Inr d) sv hc c = conn_http_message kw tid fs time sv hc c2"
      "up tid c2" "c_sent c2 = c_sent c" "parseRequest time hc (c_inputBuffer c2) = Some (Inr (True, hc1, b1))"
      "buffer_inv b1" "contents b1 = rest" by blast
  have "server_onMessage fs time sv hc (c_inputBuffer c2) = Some (Inr (sv, hc1, b1, [], []))"
    using r(4) assms(4) by (auto simp: server_onMessage_def)
  then have "conn_http_message kw tid fs time sv hc c2 = Some (Inr (sv, hc1, c2\<lparr>c_inputBuffer := b1\<rparr>, []))"
    by (simp add: conn_http_message_def)
  with r up_input [OF r(2,5)] show ?thesis by simp
qed

lemma piece_answered:
  assumes "accepting kw" and "up tid c" and "d \<noteq> []" and "spec_parse time hc (contents (c_inputBuffer c) @ d) = Some (Inr (True, hc1, rest))"
    and "hc_state hc1 = GotAll" and "hr_method (hc_request hc1) \<noteq> Put" and "sv_httpCallback sv = Some cb"
    and "\<not> hs_closeConnection (reply cb (hc_request hc1))"
  shows "\<exists>mm c'. http_handleRead kw tid fs time (\<lambda>iov. Inr d) sv hc c = Some (Inr (sv\<lparr>sv_methodMap := mm\<rparr>, reset_HttpContext hc1, c', [])) \<and>
    up tid c' \<and> c_sent c' = c_sent c @ concat (response_pieces (reply cb (hc_request hc1))) \<and> contents (c_inputBuffer c') = rest"
proof -
  from read_piece [OF assms(2-4), of kw fs sv] obtain c2 b1 where
    r: "http_handleRead kw tid fs time (\<lambda>iov. Inr d) sv hc c = conn_http_message kw tid fs time sv hc c2"
      "up tid c2" "c_sent c2 = c_sent c" "parseRequest time hc (c_inputBuffer c2) = Some (Inr (True, hc1, b1))"
      "buffer_inv b1" "contents b1 = rest" by blast
  from answer_parsed [OF r(4) assms(5-7), of fs] assms(8) obtain mm where
    msg: "server_onMessage fs time sv hc (c_inputBuffer c2) = Some (Inr (sv\<lparr>sv_methodMap := mm\<rparr>, reset_HttpContext hc1, b1,
      [HSend (concat (response_pieces (reply cb (hc_request hc1))))], []))" by auto
  from up_send [OF assms(1) up_input [OF r(2,5)]] obtain c' where
    c': "send kw tid (concat (response_pieces (reply cb (hc_request hc1)))) (c2\<lparr>c_inputBuffer := b1\<rparr>) = Inr c'" "up tid c'"
      "c_sent c' = c_sent c2 @ concat (response_pieces (reply cb (hc_request hc1)))" "c_inputBuffer c' = b1" by fastforce
  have "conn_http_message kw tid fs time sv hc c2 = Some (Inr (sv\<lparr>sv_methodMap := mm\<rparr>, reset_HttpContext hc1, c', []))"
    using msg c'(1) by (simp add: conn_http_message_def)
  with r c' show ?thesis by auto
qed

section \<open>Sessions\<close>

type_synonym http_req = "http_method \<times> string \<times> http_version \<times> (string \<times> string) list"

fun text_of :: "http_req \<Rightarrow> string" where
  "text_of (m, target, ver, hs) = request_text m target ver hs"

text \<open>The request as the handler sees it, and its answer.\<close>

fun parsed :: "datetime \<Rightarrow> http_req \<Rightarrow> http_request" where
  "parsed time (m, target, ver, hs) = request_of time m target ver hs new_HttpRequest"

definition answer_text :: "(http_request \<Rightarrow> http_response \<Rightarrow> http_response) \<Rightarrow> datetime \<Rightarrow> http_req \<Rightarrow> string" where
  "answer_text cb time q = concat (response_pieces (reply cb (parsed time q)))"

fun keep_alive :: "(http_request \<Rightarrow> http_response \<Rightarrow> http_response) \<Rightarrow> datetime \<Rightarrow> http_req \<Rightarrow> bool" where
  "keep_alive cb time (m, target, ver, hs) \<longleftrightarrow> well_formed m target ver hs \<and> m \<noteq> Put \<and>
     \<not> hs_closeConnection (reply cb (parsed time (m, target, ver, hs)))"

lemma text_parsed:
  assumes "keep_alive cb time q"
  shows "spec_parse time (new_HttpContext :: hctx) (text_of q) =
    Some (Inr (True, new_HttpContext\<lparr>hc_request := parsed time q, hc_state := GotAll\<rparr>, []))"
proof -
  obtain m target ver hs where q: "q = (m, target, ver, hs)" by (cases q)
  have "spec_parse time (new_HttpContext :: hctx) (text_of q @ []) =
    Some (Inr (True, new_HttpContext\<lparr>hc_request := parsed time q, hc_state := GotAll\<rparr>, []))"
    using request_parsed [of m target ver hs "new_HttpContext :: hctx" time "[]"] assms
      no_body [OF ready_new, of hs time m target ver] ready_new
    by (simp add: q well_formed_def ready_def request_of_def Let_def) (simp add: new_HttpContext_def)
  then show ?thesis by simp
qed

lemma reset_parsed: "reset_HttpContext (new_HttpContext\<lparr>hc_request := parsed time q, hc_state := GotAll\<rparr>) = (new_HttpContext :: hctx)"
  by (cases q) (simp add: reset_HttpContext_def new_HttpContext_def swap_HttpRequest_def new_HttpRequest_def request_of_def
      add_headers_def setTarget_def Let_def)

lemma text_of_nonempty: "text_of q \<noteq> []"
  by (cases q) (simp add: request_text_def)

text \<open>
  In the middle of a session: of the current request the part \<open>xs\<close> has been taken in, and
  \<open>todo\<close> holds the pieces still to come, those of the current request first.
\<close>

definition partway :: "datetime \<Rightarrow> string \<Rightarrow> hctx \<Rightarrow> conn \<Rightarrow> bool" where
  "partway time xs hc c \<longleftrightarrow> spec_parse time new_HttpContext xs = Some (Inr (True, hc, contents (c_inputBuffer c))) \<and>
     (hc_state hc = ExpectRequestLine \<or> hc_state hc = ExpectHeaders)"

fun pieces_of :: "string \<Rightarrow> string list list \<Rightarrow> http_req list \<Rightarrow> bool" where
  "pieces_of xs [] qs \<longleftrightarrow> qs = [] \<and> xs = []"
| "pieces_of xs (ds # rest) qs \<longleftrightarrow> (\<exists>q qs'. qs = q # qs' \<and> xs @ concat ds = text_of q \<and> map concat rest = map text_of qs')"

lemma partway_start: "contents (c_inputBuffer c) = [] \<Longrightarrow> partway time [] new_HttpContext c"
  unfolding partway_def
  by (subst spec_parse.simps) (simp add: spec_step_def new_HttpContext_def kCRLF_def)

lemma pieces_of_start: "map concat todo = map text_of qs \<Longrightarrow> pieces_of [] todo qs"
  by (cases todo; cases qs) auto

lemma partway_incomplete:
  assumes "partway time xs hc c" and "keep_alive cb time q"
  shows "xs \<noteq> text_of q"
  using assms text_parsed [OF assms(2)] by (auto simp: partway_def)

text \<open>The next piece of the current request, the last one or not.\<close>

lemma partway_parse:
  assumes "partway time xs hc c"
  shows "spec_parse time hc (contents (c_inputBuffer c) @ d) = spec_parse time new_HttpContext (xs @ d)"
  using spec_parse_append [of time new_HttpContext xs hc] assms by (simp add: partway_def)

lemma arrive_last:
  assumes "accepting kw" and "up tid c" and "sv_httpCallback sv = Some cb" and "keep_alive cb time q"
    and "partway time xs hc c" and "d \<noteq> []" and "xs @ d = text_of q"
  shows "\<exists>mm c'. http_handleRead kw tid fs time (\<lambda>iov. Inr d) sv hc c = Some (Inr (sv\<lparr>sv_methodMap := mm\<rparr>, new_HttpContext, c', [])) \<and>
    up tid c' \<and> c_sent c' = c_sent c @ answer_text cb time q \<and> partway time [] new_HttpContext c'"
proof -
  let ?hc1 = "new_HttpContext\<lparr>hc_request := parsed time q, hc_state := GotAll\<rparr> :: hctx"
  have p: "spec_parse time hc (contents (c_inputBuffer c) @ d) = Some (Inr (True, ?hc1, []))"
    using partway_parse [OF assms(5)] assms(7) text_parsed [OF assms(4)] by simp
  have "hc_state ?hc1 = GotAll" "hr_method (hc_request ?hc1) \<noteq> Put" "\<not> hs_closeConnection (reply cb (hc_request ?hc1))"
    using assms(4) by (cases q; simp)+
  from piece_answered [OF assms(1,2,6) p this(1,2) assms(3) this(3), of fs] show ?thesis
    by (auto simp: reset_parsed answer_text_def intro: partway_start)
qed

lemma arrive_more:
  assumes "up tid c" and "keep_alive cb time q" and "partway time xs hc c" and "d \<noteq> []" and "xs @ d @ e = text_of q" and "e \<noteq> []"
  shows "\<exists>hc1 c'. http_handleRead kw tid fs time (\<lambda>iov. Inr d) sv hc c = Some (Inr (sv, hc1, c', [])) \<and>
    up tid c' \<and> c_sent c' = c_sent c \<and> partway time (xs @ d) hc1 c'"
proof -
  have "spec_parse time (new_HttpContext :: hctx) ((xs @ d) @ e) =
      Some (Inr (True, new_HttpContext\<lparr>hc_request := parsed time q, hc_state := GotAll\<rparr>, []))"
    using text_parsed [OF assms(2)] assms(5) by simp
  from spec_parse_prefix [OF this assms(6)] obtain hc1 rest where
    p: "spec_parse time (new_HttpContext :: hctx) (xs @ d) = Some (Inr (True, hc1, rest))"
      "hc_state hc1 = ExpectRequestLine \<or> hc_state hc1 = ExpectHeaders" by (auto simp: new_HttpContext_def)
  have "spec_parse time hc (contents (c_inputBuffer c) @ d) = Some (Inr (True, hc1, rest))"
    using partway_parse [OF assms(3)] p(1) by simp
  from piece_waits [OF assms(1,4) this p(2), of kw fs sv] p show ?thesis by (auto simp: partway_def)
qed

lemma session_runs:
  assumes "accepting kw" and "up tid c" and "sv_httpCallback sv = Some cb" and "\<forall>q \<in> set qs. keep_alive cb time q"
    and "partway time xs hc c" and "pieces_of xs todo qs" and "\<forall>d \<in> set (concat todo). d \<noteq> []" and "arrivals es = concat todo"
  shows "\<exists>sv' c'. http_session kw tid fs time es (sv, hc, c) = Some (Inr (sv', new_HttpContext, c')) \<and> up tid c' \<and>
    c_sent c' = c_sent c @ concat (map (answer_text cb time) qs) \<and> contents (c_inputBuffer c') = []"
  using assms(2-)
proof (induction es arbitrary: sv hc c qs xs todo)
  case Nil
  show ?case
  proof (cases todo)
    case Nil
    then have "spec_parse time new_HttpContext [] = Some (Inr (True, hc, contents (c_inputBuffer c)))" "qs = []"
      using Nil.prems by (auto simp: partway_def)
    moreover have "spec_parse time (new_HttpContext :: hctx) [] = Some (Inr (True, new_HttpContext, []))"
      using partway_start [of "c\<lparr>c_inputBuffer := new_Buffer 0\<rparr>" time] by (simp add: partway_def)
    ultimately show ?thesis using Nil.prems(1) by simp
  next
    case (Cons ds rest)
    then have "ds = []" using Nil.prems(7) by simp
    with Cons Nil.prems(5) obtain q qs' where "qs = q # qs'" "xs = text_of q" by auto
    then show ?thesis using partway_incomplete [OF Nil.prems(4), of cb q] Nil.prems(3) by simp
  qed
next
  case (Cons e es)
  show ?case
  proof (cases e)
    case Writable
    from up_write [OF assms(1) Cons.prems(1)] obtain c1 where
      c1: "handleWrite kw tid c = Inr c1" "up tid c1" "c_sent c1 = c_sent c" "c_inputBuffer c1 = c_inputBuffer c" by blast
    have "partway time xs hc c1" using Cons.prems(4) c1(4) by (simp add: partway_def)
    from Cons.IH [OF c1(2) Cons.prems(2,3) this Cons.prems(5,6)] Cons.prems(7) Writable c1 show ?thesis by simp
  next
    case (Arrive d)
    then obtain ds rest where todo: "todo = ds # rest" using Cons.prems(7) by (cases todo) auto
    then obtain q qs' where q: "qs = q # qs'" "xs @ concat ds = text_of q" "map concat rest = map text_of qs'"
      using Cons.prems(5) by auto
    have ka: "keep_alive cb time q" using Cons.prems(3) q(1) by simp
    have "ds \<noteq> []" using partway_incomplete [OF Cons.prems(4) ka] q(2) by auto
    then obtain ds' where ds: "ds = d # ds'" using Cons.prems(7) todo Arrive by (cases ds) auto
    have dne: "d \<noteq> []" using Cons.prems(6) todo ds by simp
    show ?thesis
    proof (cases "ds' = []")
      case True
      from arrive_last [OF assms(1) Cons.prems(1,2) ka Cons.prems(4) dne, of fs] q(2) ds True obtain mm c1 where
        c1: "http_handleRead kw tid fs time (\<lambda>iov. Inr d) sv hc c = Some (Inr (sv\<lparr>sv_methodMap := mm\<rparr>, new_HttpContext, c1, []))"
          "up tid c1" "c_sent c1 = c_sent c @ answer_text cb time q" "partway time [] new_HttpContext c1" by auto
      have "sv_httpCallback (sv\<lparr>sv_methodMap := mm\<rparr>) = Some cb" using Cons.prems(2) by simp
      from Cons.IH [OF c1(2) this _ c1(4) pieces_of_start [OF q(3)]] Cons.prems(3,6,7) q(1) todo ds True Arrive c1 show ?thesis
        by auto
    next
      case False
      then have "concat ds' \<noteq> []" using Cons.prems(6) todo ds by (cases ds') auto
      from arrive_more [OF Cons.prems(1) ka Cons.prems(4) dne _ this, of kw fs sv] q(2) ds obtain hc1 c1 where
        c1: "http_handleRead kw tid fs time (\<lambda>iov. Inr d) sv hc c = Some (Inr (sv, hc1, c1, []))" "up tid c1"
          "c_sent c1 = c_sent c" "partway time (xs @ d) hc1 c1" by auto
      have "pieces_of (xs @ d) (ds' # rest) qs" using q ds by simp
      from Cons.IH [OF c1(2) Cons.prems(2,3) c1(4) this] Cons.prems(6,7) todo ds Arrive c1 show ?thesis by auto
    qed
  qed
qed

section \<open>Keep-alive\<close>


text \<open>A handler that says hello and keeps the connection.\<close>

definition hello :: "http_request \<Rightarrow> http_response \<Rightarrow> http_response" where
  "hello req r = (setStatus 200 ''OK'' r)\<lparr>hs_body := hr_path req, hs_closeConnection := False\<rparr>"

definition hello_server :: http_server where
  "hello_server = \<lparr>sv_httpCallback = Some hello, sv_readyRead = False, sv_methodMap = [], sv_impls = (\<lambda>p. None), sv_call = (\<lambda>d req r. r)\<rparr>"

definition no_files :: file_system where
  "no_files = \<lparr>fs_open_write = (\<lambda>p. False), fs_open_read = (\<lambda>p. False), fs_size = (\<lambda>p. 0), fs_remove = (\<lambda>p. False)\<rparr>"


section \<open>Pipelining\<close>

text \<open>
  \<open>onMessage\<close> answers one request per call: when two requests arrive in one piece, the second stays in the
  input buffer and is answered only when something else arrives.
\<close>

theorem pipelined_request_waits:
  assumes "accepting kw" and "up tid c" and "contents (c_inputBuffer c) = []" and "sv_httpCallback sv = Some cb"
    and "keep_alive cb time (m, target, ver, hs)"
  shows "\<exists>sv' hc' c'. http_session kw tid fs time [Arrive (request_text m target ver hs @ request_text m2 target2 ver2 hs2)]
      (sv, new_HttpContext, c) = Some (Inr (sv', hc', c')) \<and>
    c_sent c' = c_sent c @ answer_text cb time (m, target, ver, hs) \<and>
    contents (c_inputBuffer c') = request_text m2 target2 ver2 hs2"
proof -
  let ?q = "(m, target, ver, hs)"
  let ?hc1 = "new_HttpContext\<lparr>hc_request := parsed time ?q, hc_state := GotAll\<rparr> :: hctx"
  let ?d = "request_text m target ver hs @ request_text m2 target2 ver2 hs2"
  have "spec_parse time (new_HttpContext :: hctx) ?d = Some (Inr (True, ?hc1, request_text m2 target2 ver2 hs2))"
    using request_parsed [of m target ver hs "new_HttpContext :: hctx" time "request_text m2 target2 ver2 hs2"] assms(5)
      no_body [OF ready_new, of hs time m target ver] ready_new
    by (simp add: well_formed_def ready_def request_of_def Let_def) (simp add: new_HttpContext_def)
  then have p: "spec_parse time new_HttpContext (contents (c_inputBuffer c) @ ?d) = Some (Inr (True, ?hc1, request_text m2 target2 ver2 hs2))"
    using assms(3) by simp
  have "?d \<noteq> []" by (simp add: request_text_def)
  moreover have "hc_state ?hc1 = GotAll" "hr_method (hc_request ?hc1) \<noteq> Put" "\<not> hs_closeConnection (reply cb (hc_request ?hc1))"
    using assms(5) by simp_all
  ultimately show ?thesis using piece_answered [OF assms(1,2) _ p _ _ assms(4), of fs] by (auto simp: answer_text_def)
qed

end
