(* ===== verification/Rpc_Codec.thy ===== *)
theory Rpc_Codec
  imports Net_Buffer
begin

text \<open>
  \<open>net/rpc/ProtobufCodecLite\<close>, \<open>net/rpc/RpcCodec\<close> and \<open>net/rpc/BufferStream\<close>: framing of messages on
  a byte stream. A frame is the length of what follows, the tag, the serialised message
  and a checksum of tag and message, integers in network order. The functions of protobuf and
  zlib the codec calls are the fields of \<open>message_lib\<close>. \<open>decode\<close> is the receiving side on
  plain bytes, which \<open>codec_onMessage\<close> implements over the connection's buffer.
\<close>

section \<open>The codec\<close>

record 'm message_lib =
  lib_ByteSizeLong :: "'m \<Rightarrow> nat"
  lib_Serialize :: "'m \<Rightarrow> string"
  lib_Parse :: "string \<Rightarrow> 'm option"
  lib_adler32 :: "string \<Rightarrow> 32 word"

datatype error_code = kNoError | kInvalidLength | kCheckSumError | kInvalidNameLen | kUnknownMessageType | kParseError

record codec =
  cd_tag :: string
  cd_rawCb :: "(string \<Rightarrow> bool) option"
  cd_kMinMessageLen :: int

definition kHeaderLen :: nat where
  "kHeaderLen = 4"

definition kChecksumLen :: nat where
  "kChecksumLen = 4"

definition kMaxMessageLen :: int where
  "kMaxMessageLen = 64 * 1024 * 1024"

definition new_ProtobufCodecLite :: "string \<Rightarrow> (string \<Rightarrow> bool) option \<Rightarrow> codec" where
  "new_ProtobufCodecLite tagArg rawCb =
     \<lparr>cd_tag = tagArg, cd_rawCb = rawCb, cd_kMinMessageLen = int (length tagArg + kChecksumLen)\<rparr>"

definition rpctag :: string where
  "rpctag = ''RPC0''"

fun errorCodeToString :: "error_code \<Rightarrow> string" where
  "errorCodeToString kNoError = ''NoError''"
| "errorCodeToString kInvalidLength = ''InvalidLength''"
| "errorCodeToString kCheckSumError = ''CheckSumError''"
| "errorCodeToString kInvalidNameLen = ''InvalidNameLen''"
| "errorCodeToString kUnknownMessageType = ''UnknownMessageType''"
| "errorCodeToString kParseError = ''ParseError''"

subsection \<open>Sending\<close>

definition serializeToBuffer :: "'m message_lib \<Rightarrow> 'm \<Rightarrow> buffer \<Rightarrow> (nat \<times> buffer) res" where
  "serializeToBuffer lib message buf =
     (let byte_size = lib_ByteSizeLong lib message in
      bindR (ensureWritableBytes (byte_size + kChecksumLen) buf) (\<lambda>b1.
      bindR (store_bytes (beginWrite b1) (lib_Serialize lib message) b1) (\<lambda>b2.
      bindR (hasWritten byte_size b2) (\<lambda>b3. Inr (byte_size, b3)))))"

definition codec_checksum :: "'m message_lib \<Rightarrow> string \<Rightarrow> 32 word" where
  "codec_checksum lib buf = lib_adler32 lib buf"

definition fillEmptyBuffer :: "'m message_lib \<Rightarrow> codec \<Rightarrow> endian \<Rightarrow> 'm \<Rightarrow> buffer \<Rightarrow> buffer res" where
  "fillEmptyBuffer lib cd e message buf =
     cassert (readableBytes buf = 0) (
     bindR (append_bytes (cd_tag cd) buf) (\<lambda>b1.
     bindR (serializeToBuffer lib message b1) (\<lambda>(byte_size, b2).
     bindR (appendInt32 e (codec_checksum lib (contents b2)) b2) (\<lambda>b3.
     cassert (readableBytes b3 = length (cd_tag cd) + byte_size + kChecksumLen) (
     prepend (mem_of e (hostToNetwork32 e (word_of_nat (readableBytes b3)))) b3)))))"

text \<open>The bytes \<open>ProtobufCodecLite::send\<close> passes to \<open>TcpConnection::send\<close>.\<close>

definition codec_send :: "'m message_lib \<Rightarrow> codec \<Rightarrow> endian \<Rightarrow> 'm \<Rightarrow> string res" where
  "codec_send lib cd e message =
     bindR (fillEmptyBuffer lib cd e message (new_Buffer kInitialSize)) (\<lambda>buf. Inr (contents buf))"

subsection \<open>Receiving\<close>

definition asInt32 :: "endian \<Rightarrow> string \<Rightarrow> 32 word" where
  "asInt32 e buf = networkToHost32 e (of_mem e (take 4 buf))"

text \<open>\<open>buf\<close> is the range of \<open>len\<close> bytes the pointer arguments of the source describe.\<close>

definition validateChecksum :: "'m message_lib \<Rightarrow> endian \<Rightarrow> string \<Rightarrow> bool" where
  "validateChecksum lib e buf =
     (let n = length buf - kChecksumLen in codec_checksum lib (take n buf) = asInt32 e (drop n buf))"

definition parse_frame :: "'m message_lib \<Rightarrow> codec \<Rightarrow> endian \<Rightarrow> string \<Rightarrow> error_code \<times> 'm option" where
  "parse_frame lib cd e buf =
     (if validateChecksum lib e buf then
        if take (length (cd_tag cd)) buf = cd_tag cd then
          (let dataLen = length buf - kChecksumLen - length (cd_tag cd) in
           case lib_Parse lib (take dataLen (drop (length (cd_tag cd)) buf)) of
             Some m \<Rightarrow> (kNoError, Some m)
           | None \<Rightarrow> (kParseError, None))
        else (kUnknownMessageType, None)
      else (kCheckSumError, None))"

datatype 'm codec_event = CodecRaw string | CodecMessage 'm | CodecError error_code

definition more_events :: "'m codec_event list \<Rightarrow> ('m codec_event list \<times> 'b) res \<Rightarrow> ('m codec_event list \<times> 'b) res" where
  "more_events evs r = (case r of Inl f \<Rightarrow> Inl f | Inr (es, b) \<Rightarrow> Inr (evs @ es, b))"

definition raw_events :: "codec \<Rightarrow> string \<Rightarrow> 'm codec_event list" where
  "raw_events cd frame = (if cd_rawCb cd = None then [] else [CodecRaw frame])"

definition raw_refuses :: "codec \<Rightarrow> string \<Rightarrow> bool" where
  "raw_refuses cd frame = (case cd_rawCb cd of None \<Rightarrow> False | Some cb \<Rightarrow> \<not> cb frame)"

lemma retrieve_shrinks:
  "retrieve n b = Inr b' \<Longrightarrow> 0 < n \<Longrightarrow> readableBytes b' < readableBytes b"
  by (auto simp: retrieve_def retrieve_unchecked_def retrieveAll_def readableBytes_def res_simps split: if_splits)

function codec_onMessage :: "'m message_lib \<Rightarrow> codec \<Rightarrow> endian \<Rightarrow> buffer \<Rightarrow> ('m codec_event list \<times> buffer) res" where
  "codec_onMessage lib cd e buf =
     (if int (readableBytes buf) < cd_kMinMessageLen cd + int kHeaderLen then Inr ([], buf)
      else case peekInt32 e buf of
        Inl f \<Rightarrow> Inl f
      | Inr w \<Rightarrow>
          let len = sint w in
          if kMaxMessageLen < len \<or> len < cd_kMinMessageLen cd then Inr ([CodecError kInvalidLength], buf)
          else if kHeaderLen + nat len \<le> readableBytes buf then
            let frame = bytes_between buf (peek buf) (peek buf + (kHeaderLen + nat len)) in
            if raw_refuses cd frame then
              (case retrieve (kHeaderLen + nat len) buf of
                 Inl f \<Rightarrow> Inl f
               | Inr b1 \<Rightarrow> more_events (raw_events cd frame) (codec_onMessage lib cd e b1))
            else (case parse_frame lib cd e (drop kHeaderLen frame) of
                (err, Some m) \<Rightarrow>
                  (case retrieve (kHeaderLen + nat len) buf of
                     Inl f \<Rightarrow> Inl f
                   | Inr b1 \<Rightarrow> more_events (raw_events cd frame @ [CodecMessage m]) (codec_onMessage lib cd e b1))
              | (err, None) \<Rightarrow> Inr (raw_events cd frame @ [CodecError err], buf))
          else Inr ([], buf))"
  by pat_completeness auto
termination
  by (relation "measure (\<lambda>(lib, cd, e, buf). readableBytes buf)") (auto dest: retrieve_shrinks simp: kHeaderLen_def)

declare codec_onMessage.simps [simp del]

text \<open>Whether the default error callback shuts the connection down: \<open>None\<close> is a null pointer.\<close>

definition defaultErrorCallback :: "bool option \<Rightarrow> bool" where
  "defaultErrorCallback conn = (case conn of None \<Rightarrow> False | Some conn_up \<Rightarrow> conn_up)"

section \<open>The stream of protobuf output\<close>

text \<open>\<open>next\<close> hands out all writable space; the pair is the offset and size of the chunk.\<close>

definition stream_next :: "buffer \<Rightarrow> ((nat \<times> nat) \<times> buffer) res" where
  "stream_next buf =
     bindR (ensureWritableBytes 4096 buf) (\<lambda>b1.
     bindR (hasWritten (writableBytes b1) b1) (\<lambda>b2. Inr ((beginWrite b1, writableBytes b1), b2)))"

definition stream_backUp :: "nat \<Rightarrow> buffer \<Rightarrow> buffer res" where
  "stream_backUp count buf = unwrite count buf"

definition stream_byteCount :: "nat \<Rightarrow> buffer \<Rightarrow> int" where
  "stream_byteCount originalSize buf = int (readableBytes buf) - int originalSize"

section \<open>The codec on plain bytes\<close>

definition be_int32 :: "string \<Rightarrow> 32 word" where
  "be_int32 s = word_of_nat (be_value (take 4 s))"

definition body_ok :: "'m message_lib \<Rightarrow> string \<Rightarrow> bool" where
  "body_ok lib body = (let n = length body - 4 in lib_adler32 lib (take n body) = be_int32 (drop n body))"

definition decode_body :: "'m message_lib \<Rightarrow> string \<Rightarrow> string \<Rightarrow> error_code \<times> 'm option" where
  "decode_body lib tag body =
     (if \<not> body_ok lib body then (kCheckSumError, None)
      else if \<not> prefixb tag body then (kUnknownMessageType, None)
      else case lib_Parse lib (take (length body - 4 - length tag) (drop (length tag) body)) of
        Some m \<Rightarrow> (kNoError, Some m)
      | None \<Rightarrow> (kParseError, None))"

function decode :: "'m message_lib \<Rightarrow> codec \<Rightarrow> string \<Rightarrow> 'm codec_event list \<times> string" where
  "decode lib cd s =
     (let len = sint (be_int32 s) in
      if int (length s) < cd_kMinMessageLen cd + 4 then ([], s)
      else if kMaxMessageLen < len \<or> len < cd_kMinMessageLen cd then ([CodecError kInvalidLength], s)
      else if length s < 4 + nat len then ([], s)
      else let frame = take (4 + nat len) s; rest = drop (4 + nat len) s in
        if raw_refuses cd frame then (let (evs, r) = decode lib cd rest in (raw_events cd frame @ evs, r))
        else case decode_body lib (cd_tag cd) (drop 4 frame) of
          (err, Some m) \<Rightarrow> (let (evs, r) = decode lib cd rest in (raw_events cd frame @ CodecMessage m # evs, r))
        | (err, None) \<Rightarrow> (raw_events cd frame @ [CodecError err], s))"
  by pat_completeness auto
termination
  by (relation "measure (\<lambda>(lib, cd, s). length s)") auto

declare decode.simps [simp del]

subsection \<open>The receiving side implements it\<close>

lemma be_bytes_be_value: "length s = n \<Longrightarrow> be_bytes n (be_value s) = s"
  using le_bytes_le_value [of "rev s"] by (simp add: be_bytes_def be_value_def)

lemma be_value_less: "be_value s < 256 ^ length s"
  using le_value_less [of "rev s"] by (simp add: be_value_def)

lemma unat_be_int32:
  assumes "4 \<le> length s"
  shows "unat (be_int32 s) = be_value (take 4 s)"
proof -
  have "be_value (take 4 s) < 2 ^ 32" using be_value_less [of "take 4 s"] assms by simp
  then show ?thesis by (simp add: be_int32_def unat_of_nat take_bit_eq_mod)
qed

lemma be_bytes_be_int32: "4 \<le> length s \<Longrightarrow> be_bytes 4 (unat (be_int32 s)) = take 4 s"
  by (simp add: unat_be_int32 be_bytes_be_value)

lemma peekInt32_be_int32:
  assumes "buffer_inv b" and "4 \<le> readableBytes b"
  shows "peekInt32 e b = Inr (be_int32 (contents b))"
proof (rule peekInt32_be [OF assms(1)])
  show "contents b = be_bytes 4 (unat (be_int32 (contents b))) @ drop 4 (contents b)"
    using assms by (simp add: be_bytes_be_int32)
qed

lemma asInt32_be_int32: "4 \<le> length s \<Longrightarrow> asInt32 e s = be_int32 s"
  using betoh_of_mem_be_bytes [of e "be_int32 s"]
  by (simp add: asInt32_def networkToHost32_def be_bytes_be_int32)

lemma validateChecksum_body_ok:
  "4 \<le> length body \<Longrightarrow> validateChecksum lib e body = body_ok lib body"
  using asInt32_be_int32 [of "drop (length body - 4) body" e]
  by (simp add: validateChecksum_def body_ok_def codec_checksum_def kChecksumLen_def Let_def)

lemma parse_frame_decode_body:
  "4 \<le> length body \<Longrightarrow> parse_frame lib cd e body = decode_body lib (cd_tag cd) body"
  by (simp add: parse_frame_def decode_body_def validateChecksum_body_ok prefixb_iff kChecksumLen_def Let_def)

definition codec_ok :: "codec \<Rightarrow> bool" where
  "codec_ok cd \<longleftrightarrow> cd_kMinMessageLen cd = int (length (cd_tag cd)) + 4"

lemma new_codec_ok: "codec_ok (new_ProtobufCodecLite tag cb)"
  by (simp add: codec_ok_def new_ProtobufCodecLite_def kChecksumLen_def)

lemma more_events_returns:
  assumes "returns r (\<lambda>(es, b). P (evs @ es) b)"
  shows "returns (more_events evs r) (\<lambda>(es, b). P es b)"
  using assms by (cases r) (auto simp: more_events_def)

text \<open>One complete frame is taken off the buffer and off the bytes alike.\<close>

lemma retrieve_frame:
  assumes "buffer_inv b" and "n \<le> readableBytes b"
  obtains b1 where "retrieve n b = Inr b1" "buffer_inv b1" "contents b1 = drop n (contents b)"
  using retrieve_returns [OF assms] by (auto elim!: returnsE)

lemma codec_onMessage_decodes:
  assumes "codec_ok cd" and "buffer_inv b"
  shows "returns (codec_onMessage lib cd e b) (\<lambda>(evs, b'). buffer_inv b' \<and> decode lib cd (contents b) = (evs, contents b'))"
  using assms(2)
proof (induction "readableBytes b" arbitrary: b rule: less_induct)
  case less
  let ?s = "contents b"
  let ?len = "sint (be_int32 ?s)"
  let ?n = "4 + nat ?len"
  let ?frame = "take ?n ?s"
  let ?goal = "returns (codec_onMessage lib cd e b) (\<lambda>(evs, b'). buffer_inv b' \<and> decode lib cd ?s = (evs, contents b'))"
  have min: "cd_kMinMessageLen cd = int (length (cd_tag cd)) + 4" using assms(1) by (simp add: codec_ok_def)
  consider (short) "int (readableBytes b) < cd_kMinMessageLen cd + 4"
    | (full) "\<not> int (readableBytes b) < cd_kMinMessageLen cd + 4" by blast
  then show ?goal
  proof cases
    case short
    with less.prems show ?thesis by (simp add: codec_onMessage.simps [of lib cd e b] decode.simps [of lib cd ?s] kHeaderLen_def)
  next
    case full
    then have w: "peekInt32 e b = Inr (be_int32 ?s)" using peekInt32_be_int32 [OF less.prems] min by simp
    consider (bad) "kMaxMessageLen < ?len \<or> ?len < cd_kMinMessageLen cd"
      | (partial) "\<not> (kMaxMessageLen < ?len \<or> ?len < cd_kMinMessageLen cd)" "readableBytes b < ?n"
      | (complete) "\<not> (kMaxMessageLen < ?len \<or> ?len < cd_kMinMessageLen cd)" "?n \<le> readableBytes b" by linarith
    then show ?thesis
    proof cases
      case bad
      with less.prems full w show ?thesis
        by (simp add: codec_onMessage.simps [of lib cd e b] decode.simps [of lib cd ?s] kHeaderLen_def Let_def)
    next
      case partial
      with less.prems full w show ?thesis
        by (simp add: codec_onMessage.simps [of lib cd e b] decode.simps [of lib cd ?s] kHeaderLen_def Let_def)
    next
      case complete
      from retrieve_frame [OF less.prems complete(2)] obtain b1 where
        b1: "retrieve ?n b = Inr b1" "buffer_inv b1" "contents b1 = drop ?n ?s" by blast
      have frame: "bytes_between b (peek b) (peek b + ?n) = ?frame"
        using take_contents [OF less.prems complete(2)] by (simp add: bytes_between_def)
      have "4 \<le> ?len" using complete(1) min by linarith
      then have "4 \<le> nat ?len" by simp
      then have "4 \<le> length (drop 4 ?frame)" using complete(2) less.prems by simp
      then have body: "parse_frame lib cd e (drop 4 ?frame) = decode_body lib (cd_tag cd) (drop 4 ?frame)"
        by (rule parse_frame_decode_body)
      have IH: "returns (codec_onMessage lib cd e b1)
          (\<lambda>(evs, b'). buffer_inv b' \<and> decode lib cd (drop ?n ?s) = (evs, contents b'))"
        using less.hyps [OF retrieve_shrinks [OF b1(1)] b1(2)] b1(3) by simp
      then obtain evs b' where IH': "codec_onMessage lib cd e b1 = Inr (evs, b')" "buffer_inv b'"
        "decode lib cd (drop ?n ?s) = (evs, contents b')" by (auto elim!: returnsE)
      have code: "codec_onMessage lib cd e b =
          (if raw_refuses cd ?frame then more_events (raw_events cd ?frame) (Inr (evs, b'))
           else case decode_body lib (cd_tag cd) (drop 4 ?frame) of
             (err, Some m) \<Rightarrow> more_events (raw_events cd ?frame @ [CodecMessage m]) (Inr (evs, b'))
           | (err, None) \<Rightarrow> Inr (raw_events cd ?frame @ [CodecError err], b))"
        using full complete unfolding codec_onMessage.simps [of lib cd e b] kHeaderLen_def w sum.case Let_def frame body b1(1) IH'(1)
        by simp
      have spec: "decode lib cd ?s =
          (if raw_refuses cd ?frame then (raw_events cd ?frame @ evs, contents b')
           else case decode_body lib (cd_tag cd) (drop 4 ?frame) of
             (err, Some m) \<Rightarrow> (raw_events cd ?frame @ CodecMessage m # evs, contents b')
           | (err, None) \<Rightarrow> (raw_events cd ?frame @ [CodecError err], ?s))"
        using full complete less.prems unfolding decode.simps [of lib cd ?s] Let_def IH'(3) by simp
      show ?thesis unfolding code spec using IH'(2) less.prems
        by (auto simp: more_events_def split: prod.splits option.splits)
    qed
  qed
qed

subsection \<open>Frames\<close>

definition frame_body :: "'m message_lib \<Rightarrow> codec \<Rightarrow> 'm \<Rightarrow> string" where
  "frame_body lib cd m = (let data = cd_tag cd @ lib_Serialize lib m in data @ be_bytes 4 (unat (lib_adler32 lib data)))"

definition frame_of :: "'m message_lib \<Rightarrow> codec \<Rightarrow> 'm \<Rightarrow> string" where
  "frame_of lib cd m = be_bytes 4 (length (frame_body lib cd m)) @ frame_body lib cd m"

text \<open>What the codec relies on: protobuf announces the size it writes, and the message is not too long.\<close>

definition sendable :: "'m message_lib \<Rightarrow> codec \<Rightarrow> 'm \<Rightarrow> bool" where
  "sendable lib cd m \<longleftrightarrow> lib_ByteSizeLong lib m = length (lib_Serialize lib m) \<and>
     int (length (frame_body lib cd m)) \<le> kMaxMessageLen"

lemma ensureWritableBytes_keeps_prepend:
  "ensureWritableBytes n b = Inr b' \<Longrightarrow> 8 \<le> readerIndex b \<Longrightarrow> 8 \<le> readerIndex b'"
  by (auto simp: ensureWritableBytes_def makeSpace_def Let_def kCheapPrepend_def res_simps split: if_splits)

lemma append_bytes_keeps_prepend:
  "append_bytes d b = Inr b' \<Longrightarrow> 8 \<le> readerIndex b \<Longrightarrow> 8 \<le> readerIndex b'"
  by (auto simp: append_bytes_def store_bytes_def hasWritten_def res_simps split: if_splits
      dest: ensureWritableBytes_keeps_prepend)

lemma serializeToBuffer_appends:
  assumes "buffer_inv b" and "lib_ByteSizeLong lib m = length (lib_Serialize lib m)" and "8 \<le> readerIndex b"
  shows "\<exists>b'. serializeToBuffer lib m b = Inr (length (lib_Serialize lib m), b') \<and> buffer_inv b' \<and>
    contents b' = contents b @ lib_Serialize lib m \<and> 8 \<le> readerIndex b'"
proof -
  let ?d = "lib_Serialize lib m"
  from ensureWritableBytes_returns [OF assms(1), of "length ?d + 4"] obtain b1 where
    b1: "ensureWritableBytes (length ?d + 4) b = Inr b1" "buffer_inv b1" "contents b1 = contents b"
      "length ?d + 4 \<le> writableBytes b1" by (auto elim!: returnsE)
  let ?b2 = "b1\<lparr>bufferVec := blit (writerIndex b1) ?d (bufferVec b1), writerIndex := writerIndex b1 + length ?d\<rparr>"
  have fits: "writerIndex b1 + length ?d \<le> length (bufferVec b1)" using b1(2,4) by (simp add: buffer_defs)
  then have "serializeToBuffer lib m b = Inr (length ?d, ?b2)"
    using b1 assms(2) by (simp add: serializeToBuffer_def kChecksumLen_def store_bytes_def hasWritten_def beginWrite_def writableBytes_def Let_def)
  moreover have "contents ?b2 = contents b @ ?d"
    using contents_store_written [OF b1(2), of ?d] b1(3,4) by simp
  moreover have "buffer_inv ?b2" using b1(2) fits by (simp add: buffer_inv_def)
  moreover have "8 \<le> readerIndex ?b2" using ensureWritableBytes_keeps_prepend [OF b1(1) assms(3)] by simp
  ultimately show ?thesis by blast
qed

lemma codec_send_frame:
  assumes "sendable lib cd m"
  shows "codec_send lib cd e m = Inr (frame_of lib cd m)"
proof -
  let ?data = "cd_tag cd @ lib_Serialize lib m"
  let ?b0 = "new_Buffer kInitialSize"
  have b0: "8 \<le> readerIndex ?b0" "readableBytes ?b0 = 0" by (simp_all add: new_Buffer_def kCheapPrepend_def readableBytes_def)
  from append_bytes_returns [OF new_Buffer_inv, of "cd_tag cd" kInitialSize] obtain b1 where
    b1: "append_bytes (cd_tag cd) ?b0 = Inr b1" "buffer_inv b1" "contents b1 = cd_tag cd" by (auto elim!: returnsE)
  have "8 \<le> readerIndex b1" by (rule append_bytes_keeps_prepend [OF b1(1) b0(1)])
  from serializeToBuffer_appends [OF b1(2) _ this] assms obtain b2 where
    b2: "serializeToBuffer lib m b1 = Inr (length (lib_Serialize lib m), b2)" "buffer_inv b2"
      "contents b2 = ?data" "8 \<le> readerIndex b2" using b1(3) by (fastforce simp: sendable_def)
  from appendInt32_returns [OF b2(2), of e "lib_adler32 lib ?data"] obtain b3 where
    b3: "appendInt32 e (lib_adler32 lib ?data) b2 = Inr b3" "buffer_inv b3" "contents b3 = frame_body lib cd m"
    using b2(3) by (auto simp: frame_body_def Let_def elim!: returnsE)
  have p3: "8 \<le> readerIndex b3"
    using append_bytes_keeps_prepend [OF b3(1) [unfolded appendInt32_def] b2(4)] .
  have len: "readableBytes b3 = length (frame_body lib cd m)" using b3(2,3) by (metis length_contents)
  have small: "length (frame_body lib cd m) < 2 ^ 32"
    using assms by (simp add: sendable_def kMaxMessageLen_def)
  have hdr: "mem_of e (hostToNetwork32 e (word_of_nat (readableBytes b3))) = be_bytes 4 (length (frame_body lib cd m))"
    using small len by (simp add: mem_hostToNetwork32 unat_of_nat take_bit_eq_mod)
  from prepend_returns [OF b3(2), of "be_bytes 4 (length (frame_body lib cd m))"] p3 obtain b4 where
    b4: "prepend (be_bytes 4 (length (frame_body lib cd m))) b3 = Inr b4" "contents b4 = frame_of lib cd m"
    using b3(3) by (auto simp: prependableBytes_def frame_of_def elim!: returnsE)
  have body: "length (frame_body lib cd m) = length (cd_tag cd) + length (lib_Serialize lib m) + kChecksumLen"
    by (simp add: frame_body_def Let_def kChecksumLen_def)
  have "fillEmptyBuffer lib cd e m ?b0 = Inr b4"
    using b0 b1(1) b2(1,3) b3(1) b4(1) hdr len body by (simp add: fillEmptyBuffer_def codec_checksum_def)
  with b4(2) show ?thesis by (simp add: codec_send_def)
qed

lemma be_int32_be_bytes: "n < 2 ^ 32 \<Longrightarrow> be_int32 (be_bytes 4 n @ s) = word_of_nat n"
proof -
  assume "n < 2 ^ 32"
  then have "be_value (be_bytes 4 n) = n" by (simp add: be_value_def be_bytes_def le_value_le_bytes)
  then show ?thesis by (simp add: be_int32_def)
qed

lemma be_int32_unat: "be_int32 (be_bytes 4 (unat w)) = w"
proof -
  have "unat w < 2 ^ 32" using unsigned_less [of w] by simp
  from be_int32_be_bytes [OF this, of "[]"] show ?thesis by simp
qed

lemma sint_small: "n \<le> nat kMaxMessageLen \<Longrightarrow> sint (word_of_nat n :: 32 word) = int n"
  by (simp add: sint_uint uint_nat unat_of_nat kMaxMessageLen_def signed_take_bit_int_eq_self take_bit_eq_mod)

lemma decode_frame_body:
  assumes "lib_Parse lib (lib_Serialize lib m) = Some m"
  shows "decode_body lib (cd_tag cd) (frame_body lib cd m) = (kNoError, Some m)"
proof -
  have "body_ok lib (frame_body lib cd m)"
    by (simp add: body_ok_def frame_body_def Let_def be_int32_unat)
  moreover have "prefixb (cd_tag cd) (frame_body lib cd m)"
    by (simp add: prefixb_append frame_body_def Let_def)
  ultimately show ?thesis
    using assms by (simp add: decode_body_def) (simp add: frame_body_def Let_def)
qed

lemma decode_frame:
  assumes "codec_ok cd" and "cd_rawCb cd = None" and "sendable lib cd m"
    and "lib_Parse lib (lib_Serialize lib m) = Some m"
  shows "decode lib cd (frame_of lib cd m @ s) = (let (evs, r) = decode lib cd s in (CodecMessage m # evs, r))"
proof -
  let ?b = "frame_body lib cd m"
  have big: "length ?b \<le> nat kMaxMessageLen" using assms(3) by (simp add: sendable_def kMaxMessageLen_def)
  then have len: "sint (be_int32 (frame_of lib cd m @ s)) = int (length ?b)"
    using sint_small [OF big] be_int32_be_bytes [of "length ?b" "?b @ s"]
    by (simp add: frame_of_def kMaxMessageLen_def)
  have min: "length (cd_tag cd) + 4 \<le> length ?b" by (simp add: frame_body_def Let_def)
  have frame: "take (4 + length ?b) (frame_of lib cd m @ s) = frame_of lib cd m"
    "drop (4 + length ?b) (frame_of lib cd m @ s) = s" "drop 4 (frame_of lib cd m) = ?b"
    by (simp_all add: frame_of_def)
  have "\<not> int (length (frame_of lib cd m @ s)) < cd_kMinMessageLen cd + 4"
    using min assms(1) by (simp add: frame_of_def codec_ok_def)
  moreover have "\<not> (kMaxMessageLen < int (length ?b) \<or> int (length ?b) < cd_kMinMessageLen cd)"
    using min assms(1,3) by (simp add: codec_ok_def sendable_def)
  moreover have "\<not> length (frame_of lib cd m @ s) < 4 + length ?b" by (simp add: frame_of_def)
  ultimately show ?thesis
    unfolding decode.simps [of lib cd "frame_of lib cd m @ s"] Let_def len nat_int frame
    using decode_frame_body [OF assms(4)] assms(2) by (simp add: raw_refuses_def raw_events_def)
qed

subsection \<open>Chunks\<close>

definition no_errors :: "'m codec_event list \<Rightarrow> bool" where
  "no_errors evs = list_all (\<lambda>ev. case ev of CodecError err \<Rightarrow> False | _ \<Rightarrow> True) evs"

lemma no_errors_simps [simp]:
  "no_errors []" "no_errors (xs @ ys) = (no_errors xs \<and> no_errors ys)"
  "no_errors (CodecMessage m # xs) = no_errors xs" "\<not> no_errors (CodecError err # xs)"
  "no_errors (raw_events cd f)"
  by (simp_all add: no_errors_def raw_events_def)

lemma be_int32_append: "4 \<le> length s \<Longrightarrow> be_int32 (s @ t) = be_int32 s"
  by (simp add: be_int32_def)

text \<open>
  The head of the input is a complete frame, carries an impossible length, or is not
  there yet. A complete frame stays the same complete frame when more bytes arrive.
\<close>

definition frame_len :: "string \<Rightarrow> nat" where
  "frame_len s = 4 + nat (sint (be_int32 s))"

definition bad_length :: "codec \<Rightarrow> string \<Rightarrow> bool" where
  "bad_length cd s \<longleftrightarrow> kMaxMessageLen < sint (be_int32 s) \<or> sint (be_int32 s) < cd_kMinMessageLen cd"

definition too_short :: "codec \<Rightarrow> string \<Rightarrow> bool" where
  "too_short cd s \<longleftrightarrow> int (length s) < cd_kMinMessageLen cd + 4"

definition complete :: "codec \<Rightarrow> string \<Rightarrow> bool" where
  "complete cd s \<longleftrightarrow> \<not> too_short cd s \<and> \<not> bad_length cd s \<and> frame_len s \<le> length s"

text \<open>What one complete frame contributes: its events and whether decoding goes on.\<close>

definition frame_events :: "'m message_lib \<Rightarrow> codec \<Rightarrow> string \<Rightarrow> 'm codec_event list \<times> bool" where
  "frame_events lib cd f =
     (if raw_refuses cd f then (raw_events cd f, True)
      else case decode_body lib (cd_tag cd) (drop 4 f) of
        (err, Some m) \<Rightarrow> (raw_events cd f @ [CodecMessage m], True)
      | (err, None) \<Rightarrow> (raw_events cd f @ [CodecError err], False))"

lemma frame_events_errors: "no_errors (fst (frame_events lib cd f)) = snd (frame_events lib cd f)"
  by (auto simp: frame_events_def split: prod.splits option.splits)

lemma decode_complete:
  assumes "complete cd s"
  shows "decode lib cd s = (let (evs, go) = frame_events lib cd (take (frame_len s) s) in
    if go then (let (evs', r) = decode lib cd (drop (frame_len s) s) in (evs @ evs', r)) else (evs, s))"
  using assms unfolding decode.simps [of lib cd s] complete_def too_short_def bad_length_def frame_len_def frame_events_def Let_def
  by (auto split: prod.splits option.splits)

lemma decode_incomplete:
  "\<not> complete cd s \<Longrightarrow> decode lib cd s = (if \<not> too_short cd s \<and> bad_length cd s then [CodecError kInvalidLength] else [], s)"
  by (auto simp: decode.simps [of lib cd s] complete_def too_short_def bad_length_def frame_len_def Let_def)

lemma complete_append:
  assumes "complete cd s" and "0 \<le> cd_kMinMessageLen cd"
  shows "complete cd (s @ t)" "frame_len (s @ t) = frame_len s"
    "take (frame_len s) (s @ t) = take (frame_len s) s" "drop (frame_len s) (s @ t) = drop (frame_len s) s @ t"
proof -
  have "be_int32 (s @ t) = be_int32 s"
    using assms by (intro be_int32_append) (simp add: complete_def too_short_def)
  then show "complete cd (s @ t)" "frame_len (s @ t) = frame_len s"
    using assms by (simp_all add: complete_def too_short_def bad_length_def frame_len_def)
  show "take (frame_len s) (s @ t) = take (frame_len s) s" "drop (frame_len s) (s @ t) = drop (frame_len s) s @ t"
    using assms by (simp_all add: complete_def)
qed

lemma frame_len_shrinks: "complete cd s \<Longrightarrow> length (drop (frame_len s) s) < length s"
  by (auto simp: complete_def frame_len_def)

text \<open>Bytes that arrive later do not change what was decoded before them.\<close>

lemma decode_append:
  assumes "decode lib cd s = (evs, r)" and "0 \<le> cd_kMinMessageLen cd"
  shows "if no_errors evs
    then decode lib cd r = ([], r) \<and> decode lib cd (s @ t) = (let (evs', r') = decode lib cd (r @ t) in (evs @ evs', r'))
    else fst (decode lib cd (s @ t)) = evs"
  using assms(1)
proof (induction "length s" arbitrary: s evs r rule: less_induct)
  case less
  show ?case
  proof (cases "complete cd s")
    case False
    note d = decode_incomplete [OF False, of lib]
    show ?thesis
    proof (cases "\<not> too_short cd s \<and> bad_length cd s")
      case True
      then have "be_int32 (s @ t) = be_int32 s" using assms(2) by (intro be_int32_append) (simp add: too_short_def)
      with True have "\<not> complete cd (s @ t)" "\<not> too_short cd (s @ t) \<and> bad_length cd (s @ t)"
        by (simp_all add: complete_def too_short_def bad_length_def)
      with d True less.prems show ?thesis by (simp add: decode_incomplete)
    next
      case bad: False
      with d less.prems have "evs = []" "r = s" by auto
      with d bad show ?thesis by (auto simp: Let_def split: prod.splits)
    qed
  next
    case True
    let ?f = "take (frame_len s) s" and ?rest = "drop (frame_len s) s"
    obtain fe go where fe: "frame_events lib cd ?f = (fe, go)" by fastforce
    obtain evs1 r1 where rec: "decode lib cd ?rest = (evs1, r1)" by fastforce
    have here: "decode lib cd s = (if go then (fe @ evs1, r1) else (fe, s))"
      by (simp add: decode_complete [OF True] fe rec)
    have there: "decode lib cd (s @ t) = (if go then (let (evs', r') = decode lib cd (?rest @ t) in (fe @ evs', r')) else (fe, s @ t))"
      unfolding decode_complete [OF complete_append(1) [OF True assms(2)]] complete_append(2-4) [OF True assms(2)] fe by simp
    have go: "no_errors fe = go" using frame_events_errors [of lib cd ?f] fe by simp
    show ?thesis
      using less.hyps [OF frame_len_shrinks [OF True] rec] less.prems here go unfolding there
      by (cases go) (auto simp: Let_def split: prod.splits if_splits)
  qed
qed

text \<open>A receiver that is handed the stream chunk by chunk.\<close>

fun feed :: "'m message_lib \<Rightarrow> codec \<Rightarrow> endian \<Rightarrow> string list \<Rightarrow> buffer \<Rightarrow> ('m codec_event list \<times> buffer) res" where
  "feed lib cd e [] b = Inr ([], b)"
| "feed lib cd e (c # cs) b =
     bindR (append_bytes c b) (\<lambda>b1.
     bindR (codec_onMessage lib cd e b1) (\<lambda>(evs, b2). more_events evs (feed lib cd e cs b2)))"

lemma feed_decodes:
  assumes "codec_ok cd" and "buffer_inv b" and "decode lib cd (contents b) = ([], contents b)"
    and "decode lib cd (contents b @ concat cs) = (evs, r)" and "no_errors evs"
  shows "returns (feed lib cd e cs b) (\<lambda>(es, b'). es = evs \<and> buffer_inv b' \<and> contents b' = r)"
  using assms(2-5)
proof (induction cs arbitrary: b evs)
  case Nil
  then show ?case by simp
next
  case (Cons c cs)
  from append_bytes_returns [OF Cons.prems(1), of c] obtain b1 where
    b1: "append_bytes c b = Inr b1" "buffer_inv b1" "contents b1 = contents b @ c" by (auto elim!: returnsE)
  from codec_onMessage_decodes [OF assms(1) b1(2), of lib e] obtain es b2 where
    b2: "codec_onMessage lib cd e b1 = Inr (es, b2)" "buffer_inv b2" "decode lib cd (contents b @ c) = (es, contents b2)"
    using b1(3) by (auto elim!: returnsE)
  have pos: "0 \<le> cd_kMinMessageLen cd" using assms(1) by (simp add: codec_ok_def)
  note split = decode_append [OF b2(3) pos, of "concat cs"]
  have ok: "no_errors es"
  proof (rule ccontr)
    assume "\<not> no_errors es"
    with split Cons.prems(3,4) show False by simp
  qed
  obtain evs2 r2 where rec: "decode lib cd (contents b2 @ concat cs) = (evs2, r2)" by fastforce
  with split ok Cons.prems(3) have evs: "evs = es @ evs2" "r2 = r" by simp_all
  have "returns (feed lib cd e cs b2) (\<lambda>(es', b'). es' = evs2 \<and> buffer_inv b' \<and> contents b' = r)"
    by (rule Cons.IH) (use b2(2) split ok rec evs Cons.prems(4) in simp_all)
  then show ?case using b1(1) b2(1) evs(1) by (auto simp: more_events_def elim!: returnsE)
qed

lemma decode_frames:
  assumes "codec_ok cd" and "cd_rawCb cd = None"
    and "\<forall>m \<in> set ms. sendable lib cd m \<and> lib_Parse lib (lib_Serialize lib m) = Some m"
  shows "decode lib cd (concat (map (frame_of lib cd) ms)) = (map CodecMessage ms, [])"
  using assms(3)
proof (induction ms)
  case Nil
  then show ?case using assms(1) by (simp add: decode.simps codec_ok_def)
next
  case (Cons m ms)
  then show ?case using decode_frame [OF assms(1,2), of lib m] by simp
qed

lemma sent_frames:
  assumes "\<forall>m \<in> set ms. sendable lib cd m" and "map (codec_send lib cd e) ms = map Inr frames"
  shows "frames = map (frame_of lib cd) ms"
proof -
  have "map (codec_send lib cd e) ms = map (\<lambda>m. Inr (frame_of lib cd m)) ms"
    using assms(1) by (simp add: codec_send_frame)
  from trans [OF assms(2) [symmetric] this] have "(map Inr frames :: string res list) = map Inr (map (frame_of lib cd) ms)"
    by (simp add: comp_def)
  then show ?thesis by (metis inj_Inr inj_map_eq_map)
qed

lemma no_errors_messages: "no_errors (map CodecMessage ms)"
  by (induction ms) simp_all

lemma feed_all:
  assumes "codec_ok cd" and "decode lib cd (concat chunks) = (map CodecMessage ms, r)"
  shows "returns (feed lib cd e chunks (new_Buffer kInitialSize)) (\<lambda>(evs, b). evs = map CodecMessage ms \<and> contents b = r)"
proof -
  have "returns (feed lib cd e chunks (new_Buffer kInitialSize)) (\<lambda>(es, b'). es = map CodecMessage ms \<and> buffer_inv b' \<and> contents b' = r)"
    using feed_decodes [OF assms(1) new_Buffer_inv, of lib kInitialSize chunks] assms no_errors_messages [of ms]
    by (simp add: decode.simps [of lib cd "[]"] codec_ok_def)
  then show ?thesis by (rule returns_mono) auto
qed

section \<open>Claims\<close>

text \<open>
  C8. Messages cross the stream unchanged: the bytes \<open>ProtobufCodecLite::send\<close> produces for any
  sequence of messages (on a host of either byte order), cut into chunks in any way and
  handed to \<open>onMessage\<close> of the receiver (of either byte order) as they arrive, are delivered as
  exactly these messages in this order, with no error and nothing left in the buffer. The
  codec relies on protobuf announcing the size it writes and parsing what it wrote, and
  on no message being longer than the limit.
\<close>

theorem codec_stream_roundtrip:
  assumes "\<forall>m \<in> set ms. sendable lib cd m \<and> lib_Parse lib (lib_Serialize lib m) = Some m"
    and "cd = new_ProtobufCodecLite tag None"
    and "map (codec_send lib cd e) ms = map Inr frames" and "concat chunks = concat frames"
  shows "returns (feed lib cd e' chunks (new_Buffer kInitialSize)) (\<lambda>(evs, b). evs = map CodecMessage ms \<and> contents b = [])"
proof -
  have cd: "codec_ok cd" "cd_rawCb cd = None" using assms(2) new_codec_ok by (simp_all add: new_ProtobufCodecLite_def)
  have frames: "frames = map (frame_of lib cd) ms" by (rule sent_frames [OF _ assms(3)]) (use assms(1) in simp)
  have "decode lib cd (concat chunks) = (map CodecMessage ms, [])"
    using decode_frames [OF cd assms(1)] by (simp add: assms(4) frames)
  from feed_all [OF cd(1) this] show ?thesis .
qed

theorem codec_stream_roundtrip_witness:
  "\<exists>frame. codec_send \<lparr>lib_ByteSizeLong = length, lib_Serialize = (\<lambda>m. m), lib_Parse = Some, lib_adler32 = (\<lambda>s. word_of_nat (length s))\<rparr>
       (new_ProtobufCodecLite rpctag None) LittleEndian ''hi'' = Inr frame \<and>
     returns (feed \<lparr>lib_ByteSizeLong = length, lib_Serialize = (\<lambda>m. m), lib_Parse = Some, lib_adler32 = (\<lambda>s. word_of_nat (length s))\<rparr>
       (new_ProtobufCodecLite rpctag None) BigEndian (map (\<lambda>c. [c]) frame) (new_Buffer kInitialSize))
       (\<lambda>(evs, b). evs = [CodecMessage ''hi''])"
proof -
  let ?lib = "\<lparr>lib_ByteSizeLong = length, lib_Serialize = (\<lambda>m. m), lib_Parse = Some, lib_adler32 = (\<lambda>s. word_of_nat (length s))\<rparr>"
  let ?cd = "new_ProtobufCodecLite rpctag None"
  have ok: "sendable ?lib ?cd ''hi''"
    by (simp add: sendable_def frame_body_def Let_def new_ProtobufCodecLite_def rpctag_def kMaxMessageLen_def)
  let ?frame = "frame_of ?lib ?cd ''hi''"
  have send: "codec_send ?lib ?cd LittleEndian ''hi'' = Inr ?frame" by (rule codec_send_frame [OF ok])
  have "returns (feed ?lib ?cd BigEndian (map (\<lambda>c. [c]) ?frame) (new_Buffer kInitialSize))
      (\<lambda>(evs, b). evs = map CodecMessage [''hi''] \<and> contents b = [])"
    by (rule codec_stream_roundtrip [where frames = "[?frame]" and tag = rpctag and e = LittleEndian]) (use ok send in simp_all)
  then have "returns (feed ?lib ?cd BigEndian (map (\<lambda>c. [c]) ?frame) (new_Buffer kInitialSize)) (\<lambda>(evs, b). evs = [CodecMessage ''hi''])"
    by (rule returns_mono) auto
  with send show ?thesis by blast
qed

lemma frame_events_message:
  assumes "CodecMessage m \<in> set (fst (frame_events lib cd f))" and "length (cd_tag cd) + 8 \<le> length f"
  shows "\<exists>data. drop 4 f = cd_tag cd @ data @ be_bytes 4 (unat (lib_adler32 lib (cd_tag cd @ data))) \<and> lib_Parse lib data = Some m"
proof -
  let ?b = "drop 4 f" and ?t = "cd_tag cd"
  let ?n = "length ?b - 4"
  have dec: "decode_body lib ?t ?b = (kNoError, Some m)"
    using assms(1) by (auto simp: frame_events_def raw_events_def decode_body_def split: if_splits prod.splits option.splits)
  then have ok: "lib_adler32 lib (take ?n ?b) = be_int32 (drop ?n ?b)" and pre: "take (length ?t) ?b = ?t"
    and parse: "lib_Parse lib (take (?n - length ?t) (drop (length ?t) ?b)) = Some m"
    by (simp_all add: decode_body_def body_ok_def prefixb_iff Let_def split: if_splits option.splits)
  let ?data = "take (?n - length ?t) (drop (length ?t) ?b)"
  have body: "take ?n ?b = ?t @ ?data"
    using pre assms(2) take_add [of "length ?t" "?n - length ?t" ?b] by simp
  have "be_bytes 4 (unat (be_int32 (drop ?n ?b))) = drop ?n ?b"
    using be_bytes_be_int32 [of "drop ?n ?b"] assms(2) by simp
  then have "?b = ?t @ ?data @ be_bytes 4 (unat (lib_adler32 lib (?t @ ?data)))"
    using ok body by (metis append.assoc append_take_drop_id)
  with parse show ?thesis by blast
qed

lemma decode_integrity:
  assumes "CodecMessage m \<in> set (fst (decode lib cd s))" and "codec_ok cd"
  shows "\<exists>pre hdr data post. s = pre @ hdr @ cd_tag cd @ data @ be_bytes 4 (unat (lib_adler32 lib (cd_tag cd @ data))) @ post \<and>
    length hdr = 4 \<and> lib_Parse lib data = Some m"
  using assms(1)
proof (induction "length s" arbitrary: s rule: less_induct)
  case less
  have "complete cd s"
    using less.prems decode_incomplete [of cd s lib] by (cases "complete cd s") (auto split: if_splits)
  let ?f = "take (frame_len s) s" and ?rest = "drop (frame_len s) s"
  from less.prems have "CodecMessage m \<in> set (fst (frame_events lib cd ?f)) \<or> CodecMessage m \<in> set (fst (decode lib cd ?rest))"
    unfolding decode_complete [OF \<open>complete cd s\<close>] by (auto simp: Let_def split: prod.splits if_splits)
  then show ?case
  proof
    assume ev: "CodecMessage m \<in> set (fst (frame_events lib cd ?f))"
    have "length (cd_tag cd) + 8 \<le> length ?f"
      using \<open>complete cd s\<close> assms(2) by (auto simp: complete_def too_short_def bad_length_def frame_len_def codec_ok_def)
    from frame_events_message [OF ev this] obtain data where
      d: "drop 4 ?f = cd_tag cd @ data @ be_bytes 4 (unat (lib_adler32 lib (cd_tag cd @ data)))" "lib_Parse lib data = Some m" by blast
    have "s = [] @ take 4 ?f @ drop 4 ?f @ ?rest" by (metis append.assoc append_Nil append_take_drop_id)
    moreover have "length (take 4 ?f) = 4" using \<open>length (cd_tag cd) + 8 \<le> length ?f\<close> by simp
    ultimately show ?thesis using d by (metis append.assoc)
  next
    assume "CodecMessage m \<in> set (fst (decode lib cd ?rest))"
    from less.hyps [OF frame_len_shrinks [OF \<open>complete cd s\<close>] this] obtain pre hdr data post where
      "?rest = pre @ hdr @ cd_tag cd @ data @ be_bytes 4 (unat (lib_adler32 lib (cd_tag cd @ data))) @ post"
      "length hdr = 4" "lib_Parse lib data = Some m" by blast
    moreover have "s = ?f @ ?rest" by simp
    ultimately show ?thesis by (metis append.assoc)
  qed
qed

text \<open>
  C26. No damaged or foreign frame is delivered: \<open>onMessage\<close> returns for every content of the
  buffer, and each message it hands to the callback was parsed from bytes that follow the
  codec's tag and are followed by their checksum.
\<close>

theorem codec_integrity:
  assumes "buffer_inv b" and "cd = new_ProtobufCodecLite tag rawCb"
  shows "\<exists>evs b'. codec_onMessage lib cd e b = Inr (evs, b') \<and> buffer_inv b' \<and>
    (\<forall>m. CodecMessage m \<in> set evs \<longrightarrow> (\<exists>pre hdr data post.
      contents b = pre @ hdr @ tag @ data @ be_bytes 4 (unat (lib_adler32 lib (tag @ data))) @ post \<and>
      length hdr = 4 \<and> lib_Parse lib data = Some m))"
proof -
  have ok: "codec_ok cd" and tag: "cd_tag cd = tag" using assms(2) new_codec_ok by (simp_all add: new_ProtobufCodecLite_def)
  from codec_onMessage_decodes [OF ok assms(1), of lib e] obtain evs b' where
    r: "codec_onMessage lib cd e b = Inr (evs, b')" "buffer_inv b'" "decode lib cd (contents b) = (evs, contents b')"
    by (auto elim!: returnsE)
  then show ?thesis using decode_integrity [OF _ ok, of _ lib "contents b"] tag by simp
qed

theorem codec_integrity_witness:
  "\<exists>evs b'. codec_onMessage \<lparr>lib_ByteSizeLong = length, lib_Serialize = (\<lambda>m. m), lib_Parse = Some, lib_adler32 = (\<lambda>s. 0)\<rparr>
     (new_ProtobufCodecLite rpctag None) LittleEndian (new_Buffer 16) = Inr (evs, b')"
  using codec_integrity [OF new_Buffer_inv refl, of "\<lparr>lib_ByteSizeLong = length, lib_Serialize = (\<lambda>m. m), lib_Parse = Some, lib_adler32 = (\<lambda>s. 0)\<rparr>"
      rpctag None LittleEndian 16] by blast

end
