(* ===== verification/Rpc_Channel.thy ===== *)
theory Rpc_Channel
  imports Rpc_Codec Transition_System "HOL-Library.AList" "HOL-Library.Multiset"
begin

text \<open>
  \<open>net/rpc/RpcChannel\<close> and \<open>net/rpc/RpcServer\<close>: calls, their answers and the dispatch of requests.
  \<open>rpc_message\<close> is the message of \<open>rpc.proto\<close>. An operation returns the channel, the
  messages it passed to the codec and what it made user code do. Services are user code: a
  service tells which methods it has and which request bytes each can parse. The
  assertions of \<open>onRpcMessage\<close> are left out: \<open>assert(conn == conn_)\<close> names no member of the class, so the
  file only builds without assertions. The last part connects a client and a server
  through two wires that deliver messages in order, which is what \<open>Rpc_Codec\<close> and the
  connection provide.
\<close>

section \<open>Messages\<close>

datatype message_type = UNKNOWN | REQUEST | RESPONSE | ERROR

datatype rpc_error = NO_ERROR | WRONG_PROTO | NO_SERVICE | NO_METHOD | INVALID_REQUEST | INVALID_RESPONSE | TIMEOUT

record rpc_message =
  rm_type :: message_type
  rm_id :: "64 word"
  rm_service :: "string option"
  rm_method :: "string option"
  rm_request :: "string option"
  rm_response :: "string option"
  rm_error :: "rpc_error option"

definition new_RpcMessage :: rpc_message where
  "new_RpcMessage = \<lparr>rm_type = UNKNOWN, rm_id = 0, rm_service = None, rm_method = None, rm_request = None,
     rm_response = None, rm_error = None\<rparr>"

text \<open>Reading a field that is not set gives its default.\<close>

definition field :: "string option \<Rightarrow> string" where
  "field x = (case x of None \<Rightarrow> [] | Some s \<Rightarrow> s)"

section \<open>Channels\<close>

text \<open>Response objects and closures are named by their addresses; \<open>None\<close> is a null pointer.\<close>

record outstanding_call =
  oc_response :: "nat option"
  oc_done :: "nat option"

type_synonym rpc_service = "string \<Rightarrow> (string \<Rightarrow> bool) option"
type_synonym services = "string \<Rightarrow> rpc_service option"

record rpc_channel =
  rc_id :: "64 word"
  rc_outstandings :: "(64 word \<times> outstanding_call) list"
  rc_services :: "services option"

text \<open>
  \<open>Completed p bytes k\<close>: the response object \<open>p\<close> was filled from \<open>bytes\<close> (if there were any), the
  closure \<open>k\<close> (if any) was run and \<open>p\<close> deleted. \<open>Dispatched\<close>: the method of a service was
  called with a request; \<open>Freed\<close>: a response object and its closure were deleted.
\<close>

datatype rpc_event =
    Completed nat "string option" "nat option"
  | Dispatched string string string "64 word"
  | Freed "nat option" "nat option"

text \<open>\<open>m_id\<close> is not initialised: its first value is an argument.\<close>

definition new_RpcChannel :: "64 word \<Rightarrow> rpc_channel" where
  "new_RpcChannel start = \<lparr>rc_id = start, rc_outstandings = [], rc_services = None\<rparr>"

definition setServices :: "services \<Rightarrow> rpc_channel \<Rightarrow> rpc_channel" where
  "setServices s ch = ch\<lparr>rc_services := Some s\<rparr>"

definition destroy_RpcChannel :: "rpc_channel \<Rightarrow> rpc_event list" where
  "destroy_RpcChannel ch = map (\<lambda>(i, out). Freed (oc_response out) (oc_done out)) (rc_outstandings ch)"

definition CallMethod :: "string \<Rightarrow> string \<Rightarrow> string \<Rightarrow> nat option \<Rightarrow> nat option \<Rightarrow> rpc_channel \<Rightarrow>
    rpc_channel \<times> rpc_message list" where
  "CallMethod service_name method_name request response done ch =
     (let i = rc_id ch;
          message = new_RpcMessage\<lparr>rm_type := REQUEST, rm_id := i, rm_service := Some service_name,
                                    rm_method := Some method_name, rm_request := Some request\<rparr>;
          out = \<lparr>oc_response = response, oc_done = done\<rparr> in
      (ch\<lparr>rc_id := i + 1, rc_outstandings := AList.update i out (rc_outstandings ch)\<rparr>, [message]))"

definition doneCallback :: "string \<Rightarrow> 64 word \<Rightarrow> rpc_message list" where
  "doneCallback response i = [new_RpcMessage\<lparr>rm_type := RESPONSE, rm_id := i, rm_response := Some response\<rparr>]"

definition onResponse :: "rpc_message \<Rightarrow> rpc_channel \<Rightarrow> rpc_channel \<times> rpc_event list" where
  "onResponse message ch =
     (case map_of (rc_outstandings ch) (rm_id message) of
        None \<Rightarrow> (ch, [])
      | Some out \<Rightarrow>
          (ch\<lparr>rc_outstandings := AList.delete (rm_id message) (rc_outstandings ch)\<rparr>,
           case oc_response out of
             None \<Rightarrow> []
           | Some p \<Rightarrow> [Completed p (rm_response message) (oc_done out)]))"

text \<open>The dispatch of a request: an error, or the call of a method.\<close>

definition onRequest_error :: "rpc_message \<Rightarrow> rpc_channel \<Rightarrow> rpc_error" where
  "onRequest_error message ch =
     (case rc_services ch of
        None \<Rightarrow> NO_SERVICE
      | Some services \<Rightarrow>
          (case services (field (rm_service message)) of
             None \<Rightarrow> NO_SERVICE
           | Some service \<Rightarrow>
               (case service (field (rm_method message)) of
                  None \<Rightarrow> NO_METHOD
                | Some parses \<Rightarrow> if parses (field (rm_request message)) then NO_ERROR else INVALID_REQUEST)))"

definition onRpcMessage :: "rpc_message \<Rightarrow> rpc_channel \<Rightarrow> rpc_channel \<times> rpc_message list \<times> rpc_event list" where
  "onRpcMessage message ch =
     (case rm_type message of
        RESPONSE \<Rightarrow> (let (ch1, evs) = onResponse message ch in (ch1, [], evs))
      | REQUEST \<Rightarrow>
          (let err = onRequest_error message ch in
           if err = NO_ERROR
           then (ch, [], [Dispatched (field (rm_service message)) (field (rm_method message))
                            (field (rm_request message)) (rm_id message)])
           else (ch, [new_RpcMessage\<lparr>rm_type := RESPONSE, rm_id := rm_id message, rm_error := Some err\<rparr>], []))
      | _ \<Rightarrow> (ch, [], []))"

text \<open>All messages of one call of the codec.\<close>

fun channel_onEvents :: "rpc_message codec_event list \<Rightarrow> rpc_channel \<Rightarrow> rpc_channel \<times> rpc_message list \<times> rpc_event list" where
  "channel_onEvents [] ch = (ch, [], [])"
| "channel_onEvents (CodecMessage m # evs) ch =
     (let (ch1, out1, es1) = onRpcMessage m ch; (ch2, out2, es2) = channel_onEvents evs ch1 in (ch2, out1 @ out2, es1 @ es2))"
| "channel_onEvents (_ # evs) ch = channel_onEvents evs ch"

definition channel_onMessage :: "rpc_message message_lib \<Rightarrow> endian \<Rightarrow> buffer \<Rightarrow> rpc_channel \<Rightarrow>
    (buffer \<times> rpc_channel \<times> rpc_message list \<times> rpc_event list) res" where
  "channel_onMessage lib e buf ch =
     bindR (codec_onMessage lib (new_ProtobufCodecLite rpctag None) e buf) (\<lambda>(evs, b).
       Inr (b, channel_onEvents evs ch))"

section \<open>The server\<close>

definition registerService :: "string \<Rightarrow> rpc_service \<Rightarrow> services \<Rightarrow> services" where
  "registerService full_name service m = m(full_name \<mapsto> service)"

text \<open>The channel a connection holds after the connection callback: \<open>start\<close> is the value \<open>m_id\<close> happens to have.\<close>

definition rpc_onConnection :: "64 word \<Rightarrow> services \<Rightarrow> bool \<Rightarrow> rpc_channel option" where
  "rpc_onConnection start services conn_up =
     (if conn_up then Some (setServices services (new_RpcChannel start)) else None)"

section \<open>A client and a server\<close>

text \<open>
  \<open>handler\<close> is what the services compute. A call is remembered with everything the claim needs;
  the two lists \<open>y_calls\<close> and \<open>y_log\<close> record what happened and influence nothing.
\<close>

record rpc_call =
  ca_id :: "64 word"
  ca_service :: string
  ca_method :: string
  ca_request :: string
  ca_response :: nat
  ca_done :: nat

record rpc_sys =
  y_client :: rpc_channel
  y_server :: rpc_channel
  y_c2s :: "rpc_message list"
  y_s2c :: "rpc_message list"
  y_pending :: "rpc_event list"
  y_calls :: "rpc_call list"
  y_log :: "rpc_event list"

inductive rpc_step :: "(string \<Rightarrow> string \<Rightarrow> string \<Rightarrow> string) \<Rightarrow> rpc_sys \<Rightarrow> rpc_sys \<Rightarrow> bool" for handler where
  call: "CallMethod sv me rq (Some p) (Some k) (y_client s) = (ch, out) \<Longrightarrow>
     length (y_calls s) < 2 ^ 64 \<Longrightarrow>
     rpc_step handler s (s\<lparr>y_client := ch, y_c2s := y_c2s s @ out,
       y_calls := y_calls s @ [\<lparr>ca_id = rc_id (y_client s), ca_service = sv, ca_method = me, ca_request = rq,
                               ca_response = p, ca_done = k\<rparr>]\<rparr>)"
| serve: "y_c2s s = m # ms \<Longrightarrow> onRpcMessage m (y_server s) = (ch, out, evs) \<Longrightarrow>
     rpc_step handler s (s\<lparr>y_server := ch, y_c2s := ms, y_s2c := y_s2c s @ out, y_pending := y_pending s @ evs\<rparr>)"
| finish: "y_pending s = xs @ Dispatched sv me rq i # ys \<Longrightarrow>
     rpc_step handler s (s\<lparr>y_pending := xs @ ys, y_s2c := y_s2c s @ doneCallback (handler sv me rq) i\<rparr>)"
| answer: "y_s2c s = m # ms \<Longrightarrow> onRpcMessage m (y_client s) = (ch, out, evs) \<Longrightarrow>
     rpc_step handler s (s\<lparr>y_client := ch, y_s2c := ms, y_c2s := y_c2s s @ out, y_log := y_log s @ evs\<rparr>)"

definition rpc_start :: "services \<Rightarrow> rpc_sys \<Rightarrow> bool" where
  "rpc_start services s \<longleftrightarrow> (\<exists>i j. s = \<lparr>y_client = new_RpcChannel i, y_server = setServices services (new_RpcChannel j),
     y_c2s = [], y_s2c = [], y_pending = [], y_calls = [], y_log = []\<rparr>)"

section \<open>Exactly one answer\<close>

definition outcome :: "services \<Rightarrow> (string \<Rightarrow> string \<Rightarrow> string \<Rightarrow> string) \<Rightarrow> rpc_call \<Rightarrow> rpc_error + string" where
  "outcome services handler c =
     (case services (ca_service c) of
        None \<Rightarrow> Inl NO_SERVICE
      | Some service \<Rightarrow>
          (case service (ca_method c) of
             None \<Rightarrow> Inl NO_METHOD
           | Some parses \<Rightarrow> if parses (ca_request c) then Inr (handler (ca_service c) (ca_method c) (ca_request c))
                            else Inl INVALID_REQUEST))"

definition request_msg :: "rpc_call \<Rightarrow> rpc_message" where
  "request_msg c = new_RpcMessage\<lparr>rm_type := REQUEST, rm_id := ca_id c, rm_service := Some (ca_service c),
     rm_method := Some (ca_method c), rm_request := Some (ca_request c)\<rparr>"

definition answer_msg :: "services \<Rightarrow> (string \<Rightarrow> string \<Rightarrow> string \<Rightarrow> string) \<Rightarrow> rpc_call \<Rightarrow> rpc_message" where
  "answer_msg services handler c = (case outcome services handler c of
       Inl err \<Rightarrow> new_RpcMessage\<lparr>rm_type := RESPONSE, rm_id := ca_id c, rm_error := Some err\<rparr>
     | Inr bytes \<Rightarrow> new_RpcMessage\<lparr>rm_type := RESPONSE, rm_id := ca_id c, rm_response := Some bytes\<rparr>)"

definition dispatch_of :: "rpc_call \<Rightarrow> rpc_event" where
  "dispatch_of c = Dispatched (ca_service c) (ca_method c) (ca_request c) (ca_id c)"

definition completion :: "services \<Rightarrow> (string \<Rightarrow> string \<Rightarrow> string \<Rightarrow> string) \<Rightarrow> rpc_call \<Rightarrow> rpc_event" where
  "completion services handler c =
     Completed (ca_response c) (case outcome services handler c of Inl err \<Rightarrow> None | Inr bytes \<Rightarrow> Some bytes) (Some (ca_done c))"

text \<open>
  Every call is in exactly one place: a request on its way, a pending dispatch, an
  answer on its way, or completed; and the client's table holds exactly the calls
  that are not completed.
\<close>

definition rpc_places :: "services \<Rightarrow> (string \<Rightarrow> string \<Rightarrow> string \<Rightarrow> string) \<Rightarrow> rpc_sys \<Rightarrow>
    rpc_call list \<Rightarrow> rpc_call list \<Rightarrow> rpc_call list \<Rightarrow> rpc_call list \<Rightarrow> bool" where
  "rpc_places services handler s Q P R D \<longleftrightarrow>
     y_c2s s = map request_msg Q \<and> y_pending s = map dispatch_of P \<and> y_s2c s = map (answer_msg services handler) R \<and>
     y_log s = map (completion services handler) D \<and> mset (y_calls s) = mset (Q @ P @ R @ D) \<and>
     (\<forall>c \<in> set P. \<exists>bytes. outcome services handler c = Inr bytes)"

definition rpc_table :: "rpc_call list \<Rightarrow> 64 word \<Rightarrow> outstanding_call option" where
  "rpc_table cs = map_of (map (\<lambda>c. (ca_id c, \<lparr>oc_response = Some (ca_response c), oc_done = Some (ca_done c)\<rparr>)) cs)"

definition rpc_ids :: "64 word \<Rightarrow> rpc_sys \<Rightarrow> bool" where
  "rpc_ids i s \<longleftrightarrow> map ca_id (y_calls s) = map (\<lambda>n. i + word_of_nat n) [0..<length (y_calls s)] \<and>
     rc_id (y_client s) = i + word_of_nat (length (y_calls s)) \<and> length (y_calls s) \<le> 2 ^ 64"

definition rpc_at :: "services \<Rightarrow> (string \<Rightarrow> string \<Rightarrow> string \<Rightarrow> string) \<Rightarrow> rpc_sys \<Rightarrow>
    64 word \<Rightarrow> rpc_call list \<Rightarrow> rpc_call list \<Rightarrow> rpc_call list \<Rightarrow> rpc_call list \<Rightarrow> bool" where
  "rpc_at services handler s i Q P R D \<longleftrightarrow> rc_services (y_server s) = Some services \<and> rpc_ids i s \<and>
     rpc_places services handler s Q P R D \<and> map_of (rc_outstandings (y_client s)) = rpc_table (Q @ P @ R)"

definition rpc_inv :: "services \<Rightarrow> (string \<Rightarrow> string \<Rightarrow> string \<Rightarrow> string) \<Rightarrow> rpc_sys \<Rightarrow> bool" where
  "rpc_inv services handler s \<longleftrightarrow> (\<exists>i Q P R D. rpc_at services handler s i Q P R D)"

lemma ids_distinct:
  assumes "map ca_id cs = map (\<lambda>n. i + word_of_nat n) [0..<length cs]" and "length cs \<le> 2 ^ 64"
  shows "distinct (map ca_id cs)" and "length cs < 2 ^ 64 \<Longrightarrow> i + word_of_nat (length cs) \<notin> set (map ca_id cs)"
proof -
  have inj: "a = b" if "i + word_of_nat a = (i + word_of_nat b :: 64 word)" "a < 2 ^ 64" "b < 2 ^ 64" for a b
    using that by (simp add: word_of_nat_eq_iff take_bit_nat_eq_self)
  show "distinct (map ca_id cs)"
    unfolding assms(1) using assms(2) inj by (auto simp: distinct_map inj_on_def)
  show "i + word_of_nat (length cs) \<notin> set (map ca_id cs)" if "length cs < 2 ^ 64"
    unfolding assms(1) using that inj by fastforce
qed

lemma rpc_table_perm:
  assumes "mset cs = mset ds" and "distinct (map ca_id cs)"
  shows "rpc_table cs = rpc_table ds"
proof -
  let ?f = "\<lambda>c. (ca_id c, \<lparr>oc_response = Some (ca_response c), oc_done = Some (ca_done c)\<rparr>)"
  have fst: "map fst (map ?f xs) = map ca_id xs" for xs by (simp add: comp_def)
  have "distinct (map ca_id ds)"
    using assms by (metis mset_eq_imp_distinct_iff mset_map)
  then show ?thesis unfolding rpc_table_def
    using assms by (intro map_of_inject_set [THEN iffD2]) (auto simp: fst comp_def dest: mset_eq_setD)
qed

lemma rpc_table_Cons:
  "rpc_table (c # cs) = (rpc_table cs)(ca_id c \<mapsto> \<lparr>oc_response = Some (ca_response c), oc_done = Some (ca_done c)\<rparr>)"
  by (simp add: rpc_table_def)

lemma rpc_table_None: "ca_id c \<notin> set (map ca_id cs) \<Longrightarrow> rpc_table cs (ca_id c) = None"
  by (induction cs) (auto simp: rpc_table_def)

lemma request_error:
  assumes "rc_services ch = Some services"
  shows "onRequest_error (request_msg c) ch = (case outcome services handler c of Inl err \<Rightarrow> err | Inr bytes \<Rightarrow> NO_ERROR)"
  using assms by (auto simp: onRequest_error_def request_msg_def outcome_def field_def new_RpcMessage_def split: option.splits)

lemma outcome_error: "outcome services handler c = Inl err \<Longrightarrow> err \<noteq> NO_ERROR"
  by (auto simp: outcome_def split: option.splits if_splits)

lemma outcome_bytes: "outcome services handler c = Inr bytes \<Longrightarrow> bytes = handler (ca_service c) (ca_method c) (ca_request c)"
  by (auto simp: outcome_def split: option.splits if_splits)

lemma serve_request:
  assumes "rc_services ch = Some services"
  shows "onRpcMessage (request_msg c) ch = (case outcome services handler c of
      Inl err \<Rightarrow> (ch, [answer_msg services handler c], [])
    | Inr bytes \<Rightarrow> (ch, [], [dispatch_of c]))"
  using request_error [OF assms, of c handler] outcome_error [of services handler c]
  by (auto simp: onRpcMessage_def answer_msg_def dispatch_of_def request_msg_def field_def new_RpcMessage_def split: sum.splits)

lemma receive_answer:
  assumes "map_of (rc_outstandings ch) = rpc_table (c # cs)"
  shows "onRpcMessage (answer_msg services handler c) ch =
    (ch\<lparr>rc_outstandings := AList.delete (ca_id c) (rc_outstandings ch)\<rparr>, [], [completion services handler c])"
  using assms by (auto simp: onRpcMessage_def onResponse_def answer_msg_def completion_def rpc_table_Cons new_RpcMessage_def
      split: sum.splits)

lemma rpc_placesI:
  assumes "y_c2s s = map request_msg Q" "y_pending s = map dispatch_of P" "y_s2c s = map (answer_msg services handler) R"
    "y_log s = map (completion services handler) D" "mset (y_calls s) = mset (Q @ P @ R @ D)"
    "\<And>c. c \<in> set P \<Longrightarrow> \<exists>bytes. outcome services handler c = Inr bytes"
  shows "rpc_places services handler s Q P R D"
  using assms by (simp add: rpc_places_def)

lemma calls_distinct: "rpc_at services handler s i Q P R D \<Longrightarrow> distinct (map ca_id (y_calls s))"
  using ids_distinct(1) [of "y_calls s" i] by (simp add: rpc_at_def rpc_ids_def)

lemma rpc_at_distinct:
  assumes "rpc_at services handler s i Q P R D"
  shows "distinct (map ca_id (Q @ P @ R @ D))" and "distinct (map ca_id (Q @ P @ R))"
proof -
  note calls_distinct [OF assms]
  moreover have "mset (y_calls s) = mset (Q @ P @ R @ D)" using assms by (simp add: rpc_at_def rpc_places_def)
  ultimately show "distinct (map ca_id (Q @ P @ R @ D))" by (metis mset_eq_imp_distinct_iff mset_map)
  then show "distinct (map ca_id (Q @ P @ R))" by auto
qed

text \<open>A step that makes no call only moves one call from one place to the next.\<close>

lemma rpc_moved:
  assumes "rpc_at services handler s i Q P R D" and "rc_services (y_server t) = Some services"
    and "y_calls t = y_calls s" and "rc_id (y_client t) = rc_id (y_client s)"
    and "rpc_places services handler t Q' P' R' D'" and "map_of (rc_outstandings (y_client t)) = rpc_table (Q' @ P' @ R')"
  shows "rpc_inv services handler t"
proof -
  have "rpc_at services handler t i Q' P' R' D'" using assms by (simp add: rpc_at_def rpc_ids_def)
  then show ?thesis unfolding rpc_inv_def by blast
qed

lemma rpc_call_inv:
  assumes at: "rpc_at services handler s i Q P R D"
    and call: "CallMethod sv me rq (Some p) (Some k) (y_client s) = (ch, out)" "length (y_calls s) < 2 ^ 64"
  shows "rpc_inv services handler (s\<lparr>y_client := ch, y_c2s := y_c2s s @ out,
       y_calls := y_calls s @ [\<lparr>ca_id = rc_id (y_client s), ca_service = sv, ca_method = me, ca_request = rq,
                               ca_response = p, ca_done = k\<rparr>]\<rparr>)" (is "rpc_inv _ _ ?t")
proof -
  let ?c = "\<lparr>ca_id = rc_id (y_client s), ca_service = sv, ca_method = me, ca_request = rq, ca_response = p, ca_done = k\<rparr>"
  note ids = at [unfolded rpc_at_def rpc_ids_def]
  note places = at [unfolded rpc_at_def rpc_places_def]
  have out: "out = [request_msg ?c]" and ch: "ch = (y_client s)\<lparr>rc_id := rc_id (y_client s) + 1,
      rc_outstandings := AList.update (ca_id ?c) \<lparr>oc_response = Some p, oc_done = Some k\<rparr> (rc_outstandings (y_client s))\<rparr>"
    using call(1) by (auto simp: CallMethod_def request_msg_def Let_def)
  have "ca_id ?c \<notin> set (map ca_id (y_calls s))" using ids ids_distinct(2) [of "y_calls s" i] call(2) by simp
  moreover have "set (y_calls s) = set (Q @ P @ R @ D)" using places by (metis mset_eq_setD)
  ultimately have "distinct (map ca_id (?c # Q @ P @ R))" using rpc_at_distinct(2) [OF at] by auto
  then have "rpc_table (?c # Q @ P @ R) = rpc_table ((Q @ [?c]) @ P @ R)" by (intro rpc_table_perm) simp_all
  then have "map_of (rc_outstandings (y_client ?t)) = rpc_table ((Q @ [?c]) @ P @ R)"
    using places unfolding ch by (simp add: update_conv' rpc_table_Cons)
  moreover have "rpc_places services handler ?t (Q @ [?c]) P R D"
    using places unfolding out by (intro rpc_placesI) simp_all
  moreover have "rpc_ids i ?t" using ids call(2) unfolding rpc_ids_def ch by simp
  ultimately have "rpc_at services handler ?t i (Q @ [?c]) P R D" using places by (simp add: rpc_at_def)
  then show ?thesis unfolding rpc_inv_def by blast
qed

lemma rpc_serve_inv:
  assumes at: "rpc_at services handler s i Q P R D"
    and serve: "y_c2s s = m # ms" "onRpcMessage m (y_server s) = (ch, out, evs)"
  shows "rpc_inv services handler (s\<lparr>y_server := ch, y_c2s := ms, y_s2c := y_s2c s @ out, y_pending := y_pending s @ evs\<rparr>)"
proof -
  note places = at [unfolded rpc_at_def rpc_places_def]
  from serve places obtain c Q' where Q: "Q = c # Q'" "m = request_msg c" "ms = map request_msg Q'" by auto
  have srv: "rc_services (y_server s) = Some services" using places by simp
  note sr = serve_request [OF srv, of c handler]
  show ?thesis
  proof (cases "outcome services handler c")
    case (Inl err)
    with sr serve Q have "ch = y_server s" "out = [answer_msg services handler c]" "evs = []" by simp_all
    with places rpc_at_distinct(2) [OF at] Q show ?thesis
      by (intro rpc_moved [OF at, of _ Q' P "R @ [c]" D] rpc_placesI) (auto intro!: rpc_table_perm)
  next
    case (Inr bytes)
    with sr serve Q have "ch = y_server s" "out = []" "evs = [dispatch_of c]" by simp_all
    with places rpc_at_distinct(2) [OF at] Q Inr show ?thesis
      by (intro rpc_moved [OF at, of _ Q' "P @ [c]" R D] rpc_placesI) (auto intro!: rpc_table_perm)
  qed
qed

lemma rpc_finish_inv:
  assumes at: "rpc_at services handler s i Q P R D" and finish: "y_pending s = xs @ Dispatched sv me rq n # ys"
  shows "rpc_inv services handler (s\<lparr>y_pending := xs @ ys, y_s2c := y_s2c s @ doneCallback (handler sv me rq) n\<rparr>)"
proof -
  note places = at [unfolded rpc_at_def rpc_places_def]
  have "map dispatch_of P = xs @ Dispatched sv me rq n # ys" using finish places by simp
  then obtain P1 c P2 where P: "P = P1 @ c # P2" "xs = map dispatch_of P1" "ys = map dispatch_of P2"
    "Dispatched sv me rq n = dispatch_of c" unfolding map_eq_append_conv map_eq_Cons_conv by blast
  from P(1) places obtain bytes where b: "outcome services handler c = Inr bytes" by auto
  have "doneCallback (handler sv me rq) n = [answer_msg services handler c]"
    using P(4) b outcome_bytes [OF b] by (auto simp: doneCallback_def answer_msg_def dispatch_of_def)
  moreover have "rpc_table (Q @ P @ R) = rpc_table (Q @ (P1 @ P2) @ R @ [c])"
    using rpc_at_distinct(2) [OF at] P(1) by (intro rpc_table_perm) simp_all
  ultimately show ?thesis using places P
    by (intro rpc_moved [OF at, of _ Q "P1 @ P2" "R @ [c]" D] rpc_placesI) simp_all
qed

lemma rpc_answer_inv:
  assumes at: "rpc_at services handler s i Q P R D"
    and answer: "y_s2c s = m # ms" "onRpcMessage m (y_client s) = (ch, out, evs)"
  shows "rpc_inv services handler (s\<lparr>y_client := ch, y_s2c := ms, y_c2s := y_c2s s @ out, y_log := y_log s @ evs\<rparr>)"
proof -
  note places = at [unfolded rpc_at_def rpc_places_def]
  from answer places obtain c R' where
    R: "R = c # R'" "m = answer_msg services handler c" "ms = map (answer_msg services handler) R'" by auto
  have "rpc_table (Q @ P @ R) = rpc_table (c # Q @ P @ R')" using rpc_at_distinct(2) [OF at] R by (intro rpc_table_perm) simp_all
  with places have tab: "map_of (rc_outstandings (y_client s)) = rpc_table (c # Q @ P @ R')" by simp
  have out: "ch = (y_client s)\<lparr>rc_outstandings := AList.delete (ca_id c) (rc_outstandings (y_client s))\<rparr>" "out = []"
    "evs = [completion services handler c]"
    using answer(2) receive_answer [OF tab, of services handler] R(2) by simp_all
  have "rpc_table (Q @ P @ R') (ca_id c) = None" using rpc_at_distinct(2) [OF at] R by (intro rpc_table_None) auto
  then have "map_of (rc_outstandings ch) = rpc_table (Q @ P @ R')"
    using tab unfolding out by (simp add: delete_conv' rpc_table_Cons fun_upd_idem)
  with places R out show ?thesis by (intro rpc_moved [OF at, of _ Q P R' "D @ [c]"] rpc_placesI) auto
qed

lemma rpc_step_inv: "rpc_inv services handler s \<Longrightarrow> rpc_step handler s t \<Longrightarrow> rpc_inv services handler t"
  unfolding rpc_inv_def [of services handler s]
  by (elim exE rpc_step.cases) (auto intro: rpc_call_inv rpc_serve_inv rpc_finish_inv rpc_answer_inv)

lemma rpc_start_inv: "rpc_start services s \<Longrightarrow> rpc_inv services handler s"
proof -
  assume "rpc_start services s"
  then obtain i j where s: "s = \<lparr>y_client = new_RpcChannel i, y_server = setServices services (new_RpcChannel j),
     y_c2s = [], y_s2c = [], y_pending = [], y_calls = [], y_log = []\<rparr>" unfolding rpc_start_def by blast
  have "rpc_at services handler s i [] [] [] []"
    by (simp add: s rpc_at_def rpc_ids_def rpc_places_def rpc_table_def new_RpcChannel_def setServices_def)
  then show ?thesis unfolding rpc_inv_def by blast
qed

interpretation rpc: invariant_system "rpc_start services" "rpc_step handler" "rpc_inv services handler"
  for services handler
  by unfold_locales (auto intro: rpc_start_inv rpc_step_inv)

text \<open>What the invariant says of the calls, the completions and the client's table.\<close>

lemma rpc_accounts:
  assumes "rpc_inv services handler s"
  shows "\<exists>D. y_log s = map (completion services handler) D \<and> mset D \<subseteq># mset (y_calls s) \<and> distinct (map ca_id (y_calls s)) \<and>
    (y_c2s s = [] \<and> y_s2c s = [] \<and> y_pending s = [] \<longrightarrow>
       mset D = mset (y_calls s) \<and> map_of (rc_outstandings (y_client s)) = Map.empty)"
proof -
  from assms obtain i Q P R D where at: "rpc_at services handler s i Q P R D"
    unfolding rpc_inv_def by blast
  note places = at [unfolded rpc_at_def rpc_places_def]
  note dist = calls_distinct [OF at]
  have "mset D \<subseteq># mset (y_calls s)" using places by simp
  moreover have "mset D = mset (y_calls s) \<and> map_of (rc_outstandings (y_client s)) = Map.empty"
    if "y_c2s s = [] \<and> y_s2c s = [] \<and> y_pending s = []"
    using that places by (simp add: rpc_table_def)
  ultimately show ?thesis using places dist by blast
qed

text \<open>
  C9. Remote calls are answered once and correctly: for any services and any interleaving
  of calls, deliveries and completions (in any order on the server), every completion at
  the client belongs to a call that was made, carries the answer of that call (the bytes the
  handler computed for its own request, or none when the server had no such service or
  method or could not parse the request), no call completes twice, and when nothing is
  under way every call has completed and the client's table is empty.
\<close>

theorem rpc_exactly_once:
  assumes "rpc_start services s0" and "reaches (rpc_step handler) s0 s"
  shows "\<exists>D. y_log s = map (completion services handler) D \<and> mset D \<subseteq># mset (y_calls s) \<and> distinct (map ca_id (y_calls s)) \<and>
    (y_c2s s = [] \<and> y_s2c s = [] \<and> y_pending s = [] \<longrightarrow>
       mset D = mset (y_calls s) \<and> map_of (rc_outstandings (y_client s)) = Map.empty)"
  using rpc.reachable_inv [OF assms] by (rule rpc_accounts)

theorem rpc_exactly_once_witness:
  "\<exists>s D. reaches (rpc_step (\<lambda>sv me rq. rq @ rq)) \<lparr>y_client = new_RpcChannel 7,
       y_server = setServices (\<lambda>sv. None) (new_RpcChannel 0), y_c2s = [], y_s2c = [], y_pending = [], y_calls = [], y_log = []\<rparr> s \<and>
     length (y_calls s) = 1 \<and> y_log s = map (completion (\<lambda>sv. None) (\<lambda>sv me rq. rq @ rq)) D"
proof -
  let ?h = "\<lambda>sv me rq. rq @ rq :: string"
  let ?s0 = "\<lparr>y_client = new_RpcChannel 7, y_server = setServices (\<lambda>sv. None) (new_RpcChannel 0), y_c2s = [], y_s2c = [],
    y_pending = [], y_calls = [], y_log = []\<rparr>"
  obtain ch out where c: "CallMethod ''echo'' ''say'' ''hi'' (Some 1) (Some 2) (y_client ?s0) = (ch, out)" by fastforce
  have st: "rpc_step ?h ?s0 (?s0\<lparr>y_client := ch, y_c2s := y_c2s ?s0 @ out,
       y_calls := y_calls ?s0 @ [\<lparr>ca_id = rc_id (y_client ?s0), ca_service = ''echo'', ca_method = ''say'', ca_request = ''hi'',
                               ca_response = 1, ca_done = 2\<rparr>]\<rparr>)" (is "rpc_step _ _ ?s1")
    by (rule rpc_step.call [OF c]) simp
  have start: "rpc_start (\<lambda>sv. None) ?s0" unfolding rpc_start_def by blast
  have r: "reaches (rpc_step ?h) ?s0 ?s1" by (rule reaches_one [where step = "rpc_step ?h", OF st])
  from rpc_exactly_once [OF start r] obtain D where "y_log ?s1 = map (completion (\<lambda>sv. None) ?h) D" by blast
  with r show ?thesis by (intro exI [of _ ?s1] exI [of _ D]) simp
qed

end
