(* ===== verification/Rpc_Wire.thy ===== *)
theory Rpc_Wire
  imports Rpc_Channel Net_TcpConnection
begin

text \<open>
  Remote calls over bytes: the composition of \<open>net/rpc/RpcChannel\<close>, \<open>net/rpc/ProtobufCodecLite\<close> and the
  byte stream of a connection. A receiver that has got some prefix of a stream of frames
  has delivered exactly the messages whose frames are complete. The client and the server of
  \<open>Rpc_Channel\<close> are run again with the bytes the codec makes, arriving in pieces of any
  size, and shown to refine the exchange of whole messages.
\<close>

section \<open>A prefix of a stream of frames\<close>

definition proto_ok :: "'m message_lib \<Rightarrow> codec \<Rightarrow> 'm \<Rightarrow> bool" where
  "proto_ok lib cd m \<longleftrightarrow> sendable lib cd m \<and> lib_Parse lib (lib_Serialize lib m) = Some m"

lemma frame_cut:
  assumes "codec_ok cd" and "sendable lib cd m" and "frame_of lib cd m = s @ t" and "t \<noteq> []"
  shows "decode lib cd s = ([], s)"
proof -
  let ?b = "frame_body lib cd m"
  have big: "length ?b \<le> nat kMaxMessageLen" using assms(2) by (simp add: sendable_def kMaxMessageLen_def)
  have min: "cd_kMinMessageLen cd \<le> int (length ?b)"
    using assms(1) by (simp add: frame_body_def Let_def codec_ok_def)
  have "be_int32 s = word_of_nat (length ?b)" if "4 \<le> length s"
  proof -
    have "be_int32 s = be_int32 (frame_of lib cd m)" using that by (simp add: assms(3) be_int32_append)
    then show ?thesis using be_int32_be_bytes [of "length ?b" ?b] big by (simp add: frame_of_def kMaxMessageLen_def)
  qed
  then have hd: "sint (be_int32 s) = int (length ?b)" if "4 \<le> length s"
    using that sint_small [OF big] by simp
  have four: "4 \<le> length s" if "\<not> too_short cd s" using that assms(1) by (simp add: too_short_def codec_ok_def)
  have bad: "\<not> bad_length cd s" if "4 \<le> length s"
    using hd [OF that] min big by (simp add: bad_length_def kMaxMessageLen_def)
  have "length s < 4 + length ?b"
    using arg_cong [OF assms(3), of length] assms(4) by (simp add: frame_of_def)
  then have "\<not> complete cd s" using hd four by (auto simp: complete_def frame_len_def)
  then show ?thesis using decode_incomplete [of cd s lib] four bad by auto
qed

text \<open>\<open>k\<close> frames are complete, and what is left is shorter than the next one.\<close>

definition received :: "'m message_lib \<Rightarrow> codec \<Rightarrow> 'm list \<Rightarrow> nat \<Rightarrow> string \<Rightarrow> string \<Rightarrow> bool" where
  "received lib cd ms k r s \<longleftrightarrow> k \<le> length ms \<and> concat (map (frame_of lib cd) (take k ms)) @ r = s \<and>
     (k < length ms \<longrightarrow> length r < length (frame_of lib cd (ms ! k))) \<and> (k = length ms \<longrightarrow> r = [])"

lemma received_all: "received lib cd ms k r (concat (map (frame_of lib cd) ms)) \<Longrightarrow> k = length ms \<and> r = []"
proof (rule ccontr)
  assume rec: "received lib cd ms k r (concat (map (frame_of lib cd) ms))" and "\<not> (k = length ms \<and> r = [])"
  then have k: "k < length ms" by (auto simp: received_def)
  have "concat (map (frame_of lib cd) ms) =
      concat (map (frame_of lib cd) (take k ms)) @ frame_of lib cd (ms ! k) @ concat (map (frame_of lib cd) (drop (Suc k) ms))"
    using k by (metis append_assoc concat.simps(2) concat_append id_take_nth_drop list.simps(9) map_append)
  with rec k show False unfolding received_def by auto
qed

lemma decode_prefix:
  assumes "codec_ok cd" and "cd_rawCb cd = None" and "\<forall>m \<in> set ms. proto_ok lib cd m"
    and "concat (map (frame_of lib cd) ms) = s @ t"
  shows "\<exists>k r. decode lib cd s = (map CodecMessage (take k ms), r) \<and> received lib cd ms k r s"
  using assms(3,4)
proof (induction ms arbitrary: s)
  case Nil
  then have "s = []" by simp
  then show ?case using assms(1) by (simp add: decode.simps codec_ok_def received_def)
next
  case (Cons m ms)
  let ?f = "frame_of lib cd m"
  have ok: "sendable lib cd m" "lib_Parse lib (lib_Serialize lib m) = Some m"
    using Cons.prems(1) by (simp_all add: proto_ok_def)
  show ?case
  proof (cases "length s < length ?f")
    case True
    have "take (length s) (?f @ concat (map (frame_of lib cd) ms)) = s" using Cons.prems(2) by simp
    then have "take (length s) ?f = s" using True by simp
    then have "?f = s @ drop (length s) ?f" by (metis append_take_drop_id)
    from frame_cut [OF assms(1) ok(1) this] True have "decode lib cd s = ([], s)" by simp
    moreover have "received lib cd (m # ms) 0 s s" using True by (simp add: received_def)
    ultimately show ?thesis by fastforce
  next
    case False
    from Cons.prems(2) have eq: "?f @ concat (map (frame_of lib cd) ms) = s @ t" by simp
    then have "take (length ?f) s = ?f" using False by (metis append_eq_conv_conj linorder_not_less take_append take_all_iff diff_is_0_eq' take_0 append_Nil2)
    then have s: "s = ?f @ drop (length ?f) s" by (metis append_take_drop_id)
    then have "concat (map (frame_of lib cd) ms) = drop (length ?f) s @ t"
      using eq by (metis append_assoc same_append_eq)
    with Cons.IH Cons.prems(1) obtain k r where
      k: "decode lib cd (drop (length ?f) s) = (map CodecMessage (take k ms), r)" "received lib cd ms k r (drop (length ?f) s)"
      by (metis list.set_intros(2))
    have "decode lib cd s = (map CodecMessage (take (Suc k) (m # ms)), r)"
      using decode_frame [OF assms(1,2) ok, of "drop (length ?f) s"] k(1) s by simp
    moreover have "received lib cd (m # ms) (Suc k) r s" using k(2) s by (simp add: received_def)
    ultimately show ?thesis by blast
  qed
qed

section \<open>A client and a server exchanging bytes\<close>

definition rpc_codec :: codec where
  "rpc_codec = new_ProtobufCodecLite rpctag None"

lemma rpc_codec_ok [simp]: "codec_ok rpc_codec" "cd_rawCb rpc_codec = None"
  unfolding rpc_codec_def by (simp_all add: new_codec_ok) (simp add: new_ProtobufCodecLite_def)

text \<open>The messages an operation passes to the codec, sent one after the other.\<close>

fun send_all :: "rpc_message message_lib \<Rightarrow> endian \<Rightarrow> rpc_message list \<Rightarrow> string res" where
  "send_all lib e [] = Inr []"
| "send_all lib e (m # ms) =
     bindR (codec_send lib rpc_codec e m) (\<lambda>f. bindR (send_all lib e ms) (\<lambda>fs. Inr (f @ fs)))"

text \<open>What a connection does with bytes that arrive: they go to the input buffer, then the message callback runs.\<close>

definition wire_receive :: "rpc_message message_lib \<Rightarrow> endian \<Rightarrow> string \<Rightarrow> buffer \<Rightarrow> rpc_channel \<Rightarrow>
    (buffer \<times> rpc_channel \<times> rpc_message list \<times> rpc_event list) res" where
  "wire_receive lib e chunk buf ch = bindR (append_bytes chunk buf) (\<lambda>b. channel_onMessage lib e b ch)"

record wire_sys =
  w_client :: rpc_channel
  w_server :: rpc_channel
  w_c2s :: string
  w_s2c :: string
  w_cin :: buffer
  w_sin :: buffer
  w_pending :: "rpc_event list"
  w_calls :: "rpc_call list"
  w_log :: "rpc_event list"

text \<open>
  The steps of \<open>rpc_step\<close> with bytes in place of messages; \<open>ec\<close> and \<open>es\<close> are the byte orders of the two hosts.
  Every message that is sent is one protobuf parses back and the codec's limit allows.
\<close>

inductive wire_step :: "rpc_message message_lib \<Rightarrow> endian \<Rightarrow> endian \<Rightarrow> (string \<Rightarrow> string \<Rightarrow> string \<Rightarrow> string) \<Rightarrow>
    wire_sys \<Rightarrow> wire_sys \<Rightarrow> bool" for lib ec es handler where
  wcall: "CallMethod sv me rq (Some p) (Some k) (w_client w) = (ch, out) \<Longrightarrow> length (w_calls w) < 2 ^ 64 \<Longrightarrow>
     \<forall>m \<in> set out. proto_ok lib rpc_codec m \<Longrightarrow> send_all lib ec out = Inr bytes \<Longrightarrow>
     wire_step lib ec es handler w (w\<lparr>w_client := ch, w_c2s := w_c2s w @ bytes,
       w_calls := w_calls w @ [\<lparr>ca_id = rc_id (w_client w), ca_service = sv, ca_method = me, ca_request = rq,
                               ca_response = p, ca_done = k\<rparr>]\<rparr>)"
| wserve: "w_c2s w = chunk @ rest \<Longrightarrow> wire_receive lib es chunk (w_sin w) (w_server w) = Inr (buf, ch, out, evs) \<Longrightarrow>
     \<forall>m \<in> set out. proto_ok lib rpc_codec m \<Longrightarrow> send_all lib es out = Inr bytes \<Longrightarrow>
     wire_step lib ec es handler w (w\<lparr>w_server := ch, w_c2s := rest, w_sin := buf, w_s2c := w_s2c w @ bytes,
       w_pending := w_pending w @ evs\<rparr>)"
| wfinish: "w_pending w = xs @ Dispatched sv me rq i # ys \<Longrightarrow> doneCallback (handler sv me rq) i = out \<Longrightarrow>
     \<forall>m \<in> set out. proto_ok lib rpc_codec m \<Longrightarrow> send_all lib es out = Inr bytes \<Longrightarrow>
     wire_step lib ec es handler w (w\<lparr>w_pending := xs @ ys, w_s2c := w_s2c w @ bytes\<rparr>)"
| wanswer: "w_s2c w = chunk @ rest \<Longrightarrow> wire_receive lib ec chunk (w_cin w) (w_client w) = Inr (buf, ch, out, evs) \<Longrightarrow>
     \<forall>m \<in> set out. proto_ok lib rpc_codec m \<Longrightarrow> send_all lib ec out = Inr bytes \<Longrightarrow>
     wire_step lib ec es handler w (w\<lparr>w_client := ch, w_s2c := rest, w_cin := buf, w_c2s := w_c2s w @ bytes,
       w_log := w_log w @ evs\<rparr>)"

definition wire_init :: "services \<Rightarrow> 64 word \<Rightarrow> 64 word \<Rightarrow> wire_sys" where
  "wire_init services i j = \<lparr>w_client = new_RpcChannel i, w_server = setServices services (new_RpcChannel j),
     w_c2s = [], w_s2c = [], w_cin = new_Buffer kInitialSize, w_sin = new_Buffer kInitialSize,
     w_pending = [], w_calls = [], w_log = []\<rparr>"

section \<open>Refinement\<close>

text \<open>
  What one direction holds: the bytes in the receiver's buffer and those under way are the
  frames of \<open>ms\<close>, and the buffer does not hold a whole frame.
\<close>

definition carries :: "rpc_message message_lib \<Rightarrow> buffer \<Rightarrow> string \<Rightarrow> rpc_message list \<Rightarrow> bool" where
  "carries lib buf bytes ms \<longleftrightarrow> buffer_inv buf \<and> contents buf @ bytes = concat (map (frame_of lib rpc_codec) ms) \<and>
     (\<forall>m \<in> set ms. proto_ok lib rpc_codec m) \<and> (ms \<noteq> [] \<longrightarrow> length (contents buf) < length (frame_of lib rpc_codec (hd ms)))"

lemma frame_of_nonempty: "frame_of lib rpc_codec m \<noteq> []"
  by (simp add: frame_of_def frame_body_def Let_def rpc_codec_def new_ProtobufCodecLite_def rpctag_def)

definition wire_rel :: "rpc_message message_lib \<Rightarrow> wire_sys \<Rightarrow> rpc_sys \<Rightarrow> bool" where
  "wire_rel lib w s \<longleftrightarrow> y_client s = w_client w \<and> y_server s = w_server w \<and> y_pending s = w_pending w \<and>
     y_calls s = w_calls w \<and> y_log s = w_log w \<and>
     carries lib (w_sin w) (w_c2s w) (y_c2s s) \<and> carries lib (w_cin w) (w_s2c w) (y_s2c s)"

lemma send_all_frames:
  "\<forall>m \<in> set ms. proto_ok lib rpc_codec m \<Longrightarrow> send_all lib e ms = Inr (concat (map (frame_of lib rpc_codec) ms))"
  by (induction ms) (simp_all add: proto_ok_def codec_send_frame)

lemma carries_send:
  assumes "carries lib buf bytes ms" and "\<forall>m \<in> set out. proto_ok lib rpc_codec m" and "send_all lib e out = Inr fs"
  shows "carries lib buf (bytes @ fs) (ms @ out)"
proof -
  have "fs = concat (map (frame_of lib rpc_codec) out)" using send_all_frames [OF assms(2)] assms(3) by simp
  moreover have "contents buf @ bytes @ fs = concat (map (frame_of lib rpc_codec) ms) @ fs"
    using assms(1) by (simp add: carries_def flip: append_assoc)
  ultimately show ?thesis using assms(1,2) by (cases ms; cases out) (auto simp: carries_def frame_of_nonempty)
qed

lemma carries_receive:
  assumes "carries lib buf (chunk @ rest) ms"
  shows "\<exists>k buf'. wire_receive lib e chunk buf ch = Inr (buf', channel_onEvents (map CodecMessage (take k ms)) ch) \<and>
    carries lib buf' rest (drop k ms) \<and> received lib rpc_codec ms k (contents buf') (contents buf @ chunk)"
proof -
  note c = assms [unfolded carries_def]
  from append_bytes_returns [of buf chunk] c obtain b1 where
    b1: "append_bytes chunk buf = Inr b1" "buffer_inv b1" "contents b1 = contents buf @ chunk" by (auto elim!: returnsE)
  have "concat (map (frame_of lib rpc_codec) ms) = (contents buf @ chunk) @ rest" using c by simp
  from decode_prefix [OF rpc_codec_ok _ this] c obtain k r where
    k: "decode lib rpc_codec (contents buf @ chunk) = (map CodecMessage (take k ms), r)"
    "received lib rpc_codec ms k r (contents buf @ chunk)" by blast
  from codec_onMessage_decodes [OF rpc_codec_ok(1) b1(2), of lib e] k(1) obtain b2 where
    b2: "codec_onMessage lib rpc_codec e b1 = Inr (map CodecMessage (take k ms), b2)" "buffer_inv b2" "contents b2 = r"
    using b1(3) by (auto elim!: returnsE)
  have "concat (map (frame_of lib rpc_codec) (take k ms)) @ r @ rest = concat (map (frame_of lib rpc_codec) ms)"
    using k(2) c by (simp add: received_def flip: append_assoc)
  also have "\<dots> = concat (map (frame_of lib rpc_codec) (take k ms)) @ concat (map (frame_of lib rpc_codec) (drop k ms))"
    by (simp flip: concat_append map_append)
  finally have "carries lib b2 rest (drop k ms)"
    using b2 c k(2) by (auto simp: carries_def received_def hd_drop_conv_nth dest: in_set_dropD)
  moreover have "wire_receive lib e chunk buf ch = Inr (b2, channel_onEvents (map CodecMessage (take k ms)) ch)"
    using b1(1) b2(1) by (simp add: wire_receive_def channel_onMessage_def flip: rpc_codec_def)
  ultimately show ?thesis using k(2) b2(3) by blast
qed

text \<open>The messages completed by one piece of the stream are handled by as many steps.\<close>

lemma serve_many:
  assumes "y_c2s s = ms @ rest" and "channel_onEvents (map CodecMessage ms) (y_server s) = (ch, out, evs)"
  shows "reaches (rpc_step handler) s (s\<lparr>y_server := ch, y_c2s := rest, y_s2c := y_s2c s @ out, y_pending := y_pending s @ evs\<rparr>)"
  using assms
proof (induction ms arbitrary: s out evs)
  case Nil
  then have "s\<lparr>y_server := ch, y_c2s := rest, y_s2c := y_s2c s @ out, y_pending := y_pending s @ evs\<rparr> = s" by (cases s) simp
  then show ?case by (metis reaches.refl)
next
  case (Cons m ms)
  obtain ch1 out1 ev1 where m: "onRpcMessage m (y_server s) = (ch1, out1, ev1)" by (metis prod_cases3)
  obtain out2 ev2 where ms: "channel_onEvents (map CodecMessage ms) ch1 = (ch, out2, ev2)" "out = out1 @ out2" "evs = ev1 @ ev2"
    using Cons.prems(2) m by (auto split: prod.splits)
  let ?t = "s\<lparr>y_server := ch1, y_c2s := ms @ rest, y_s2c := y_s2c s @ out1, y_pending := y_pending s @ ev1\<rparr>"
  have "rpc_step handler s ?t" using rpc_step.serve [of s m "ms @ rest"] Cons.prems(1) m by simp
  note first = reaches_one [of "rpc_step handler", OF this]
  show ?case using reaches_trans [OF Cons.IH [of ?t out2 ev2] first] ms by simp
qed

lemma answer_many:
  assumes "y_s2c s = ms @ rest" and "channel_onEvents (map CodecMessage ms) (y_client s) = (ch, out, evs)"
  shows "reaches (rpc_step handler) s (s\<lparr>y_client := ch, y_s2c := rest, y_c2s := y_c2s s @ out, y_log := y_log s @ evs\<rparr>)"
  using assms
proof (induction ms arbitrary: s out evs)
  case Nil
  then have "s\<lparr>y_client := ch, y_s2c := rest, y_c2s := y_c2s s @ out, y_log := y_log s @ evs\<rparr> = s" by (cases s) simp
  then show ?case by (metis reaches.refl)
next
  case (Cons m ms)
  obtain ch1 out1 ev1 where m: "onRpcMessage m (y_client s) = (ch1, out1, ev1)" by (metis prod_cases3)
  obtain out2 ev2 where ms: "channel_onEvents (map CodecMessage ms) ch1 = (ch, out2, ev2)" "out = out1 @ out2" "evs = ev1 @ ev2"
    using Cons.prems(2) m by (auto split: prod.splits)
  let ?t = "s\<lparr>y_client := ch1, y_s2c := ms @ rest, y_c2s := y_c2s s @ out1, y_log := y_log s @ ev1\<rparr>"
  have "rpc_step handler s ?t" using rpc_step.answer [of s m "ms @ rest"] Cons.prems(1) m by simp
  note first = reaches_one [of "rpc_step handler", OF this]
  show ?case using reaches_trans [OF Cons.IH [of ?t out2 ev2] first] ms by simp
qed

lemma wire_simulated:
  assumes "wire_step lib ec es handler w w'" and "wire_rel lib w s"
  shows "\<exists>s'. reaches (rpc_step handler) s s' \<and> wire_rel lib w' s'"
  using assms(1)
proof cases
  case (wcall sv me rq p k ch out bytes)
  let ?t = "s\<lparr>y_client := ch, y_c2s := y_c2s s @ out,
    y_calls := y_calls s @ [\<lparr>ca_id = rc_id (y_client s), ca_service = sv, ca_method = me, ca_request = rq, ca_response = p, ca_done = k\<rparr>]\<rparr>"
  have "rpc_step handler s ?t" by (rule rpc_step.call) (use wcall assms(2) in \<open>simp_all add: wire_rel_def\<close>)
  moreover have "wire_rel lib w' ?t" using wcall assms(2) by (simp add: wire_rel_def carries_send)
  ultimately show ?thesis using reaches_one [of "rpc_step handler"] by blast
next
  case (wserve chunk rest buf ch out evs bytes)
  from assms(2) wserve(2) have "carries lib (w_sin w) (chunk @ rest) (y_c2s s)" by (simp add: wire_rel_def)
  from carries_receive [OF this, of es "w_server w"] wserve(3) obtain k where
    k: "channel_onEvents (map CodecMessage (take k (y_c2s s))) (w_server w) = (ch, out, evs)" "carries lib buf rest (drop k (y_c2s s))"
    by auto
  let ?t = "s\<lparr>y_server := ch, y_c2s := drop k (y_c2s s), y_s2c := y_s2c s @ out, y_pending := y_pending s @ evs\<rparr>"
  have "reaches (rpc_step handler) s ?t" by (rule serve_many [of s "take k (y_c2s s)"]) (use k assms(2) in \<open>simp_all add: wire_rel_def\<close>)
  moreover have "wire_rel lib w' ?t" using wserve k assms(2) by (simp add: wire_rel_def carries_send)
  ultimately show ?thesis by blast
next
  case (wfinish xs sv me rq i ys out bytes)
  let ?t = "s\<lparr>y_pending := xs @ ys, y_s2c := y_s2c s @ doneCallback (handler sv me rq) i\<rparr>"
  have "rpc_step handler s ?t" by (rule rpc_step.finish) (use wfinish assms(2) in \<open>simp add: wire_rel_def\<close>)
  moreover have "wire_rel lib w' ?t" using wfinish assms(2) by (simp add: wire_rel_def carries_send)
  ultimately show ?thesis using reaches_one [of "rpc_step handler"] by blast
next
  case (wanswer chunk rest buf ch out evs bytes)
  from assms(2) wanswer(2) have "carries lib (w_cin w) (chunk @ rest) (y_s2c s)" by (simp add: wire_rel_def)
  from carries_receive [OF this, of ec "w_client w"] wanswer(3) obtain k where
    k: "channel_onEvents (map CodecMessage (take k (y_s2c s))) (w_client w) = (ch, out, evs)" "carries lib buf rest (drop k (y_s2c s))"
    by auto
  let ?t = "s\<lparr>y_client := ch, y_s2c := drop k (y_s2c s), y_c2s := y_c2s s @ out, y_log := y_log s @ evs\<rparr>"
  have "reaches (rpc_step handler) s ?t" by (rule answer_many [of s "take k (y_s2c s)"]) (use k assms(2) in \<open>simp_all add: wire_rel_def\<close>)
  moreover have "wire_rel lib w' ?t" using wanswer k assms(2) by (simp add: wire_rel_def carries_send)
  ultimately show ?thesis by blast
qed

interpretation wire: simulation "wire_step lib ec es handler" "rpc_step handler" "wire_rel lib" for lib ec es handler
  by unfold_locales (rule wire_simulated)

lemma wire_init_rel:
  "\<exists>s. rpc_start services s \<and> wire_rel lib (wire_init services i j) s"
proof -
  let ?s = "\<lparr>y_client = new_RpcChannel i, y_server = setServices services (new_RpcChannel j),
     y_c2s = [], y_s2c = [], y_pending = [], y_calls = [], y_log = []\<rparr>"
  have "rpc_start services ?s" unfolding rpc_start_def by blast
  moreover have "wire_rel lib (wire_init services i j) ?s"
    by (simp add: wire_rel_def wire_init_def carries_def new_Buffer_inv)
  ultimately show ?thesis by blast
qed

text \<open>When no byte is under way, no message is.\<close>

lemma carries_nothing: "carries lib buf [] ms \<Longrightarrow> ms = [] \<and> contents buf = []"
  by (cases ms) (auto simp: carries_def)

lemma wire_reachable:
  assumes "reaches (wire_step lib ec es handler) (wire_init services i j) w"
  shows "\<exists>s0 s. rpc_start services s0 \<and> reaches (rpc_step handler) s0 s \<and> wire_rel lib w s"
  using wire_init_rel wire.reaches_simulated [OF assms] by metis

text \<open>Whatever arrives is handled without a fault.\<close>

lemma carries_returns: "carries lib buf (chunk @ rest) ms \<Longrightarrow> returns (wire_receive lib e chunk buf ch) (\<lambda>x. True)"
  using carries_receive [of lib buf chunk rest ms e ch] by auto

end
