(* ===== verification/Net_Connector.thy ===== *)
theory Net_Connector
  imports Net_Epoll Errno "HOL-Library.Multiset"
begin

text \<open>
  \<open>net/Connector.h\<close> and \<open>net/Connector.cpp\<close>: connecting to a server, with retries. The connector keeps
  its channel and the poller it registers with; what it asks the loop to do later is kept
  as queued functors and timers (a timer is its delay in whole seconds, which is what
  \<open>runAfter\<close> keeps of it), and the descriptors it opened, closed and handed to the new
  connection are recorded. The answers of the kernel are arguments. The second half runs a
  connector on a loop: events, then the functors queued so far, round by round.
\<close>

section \<open>The connector\<close>

datatype k_states = kDisconnected | kConnecting | kConnected

datatype k_functor = FStartInLoop | FStopInLoop | FResetChannel

record connector =
  k_state :: k_states
  k_connect :: bool
  k_channel :: "channel option"
  k_retryDelayMs :: int
  k_epoll :: epoll
  k_queue :: "k_functor list"
  k_timers :: "int list"
  k_open :: "int list"
  k_created :: "int list"
  k_closed :: "int list"
  k_handed :: "int list"

definition kMaxRetryDelayMs :: int where
  "kMaxRetryDelayMs = 30 * 1000"

definition kInitRetryDelayMs :: int where
  "kInitRetryDelayMs = 500"

definition new_Connector :: "epoll \<Rightarrow> connector" where
  "new_Connector ep = \<lparr>k_state = kDisconnected, k_connect = False, k_channel = None,
     k_retryDelayMs = kInitRetryDelayMs, k_epoll = ep, k_queue = [], k_timers = [],
     k_open = [], k_created = [], k_closed = [], k_handed = []\<rparr>"

definition destroy_Connector :: "connector \<Rightarrow> unit res" where
  "destroy_Connector k = cassert (k_channel k = None) (Inr ())"

definition k_enqueue :: "k_functor \<Rightarrow> connector \<Rightarrow> connector" where
  "k_enqueue f k = k\<lparr>k_queue := k_queue k @ [f]\<rparr>"

definition k_close :: "int \<Rightarrow> connector \<Rightarrow> connector" where
  "k_close fd k = (if 0 < fd then k\<lparr>k_open := remove1 fd (k_open k), k_closed := k_closed k @ [fd]\<rparr> else k)"

definition retry :: "int \<Rightarrow> connector \<Rightarrow> connector" where
  "retry sockfd k =
     (let k1 = (k_close sockfd k)\<lparr>k_state := kDisconnected\<rparr> in
      if k_connect k1
      then k1\<lparr>k_timers := k_timers k1 @ [k_retryDelayMs k1 div 1000],
              k_retryDelayMs := min (k_retryDelayMs k1 * 2) kMaxRetryDelayMs\<rparr>
      else k1)"

text \<open>\<open>ptr\<close> is the address of the new channel.\<close>

definition connecting :: "nat \<Rightarrow> int \<Rightarrow> connector \<Rightarrow> connector res" where
  "connecting ptr sockfd k =
     cassert (k_channel k = None)
       (bindR (enableWriting True (setErrorCallback (setWriteCallback (new_Channel ptr sockfd))) (k_epoll k))
         (\<lambda>(c, ep). Inr (k\<lparr>k_state := kConnecting, k_channel := Some c, k_epoll := ep\<rparr>)))"

datatype connect_class = Connecting | Retry | GiveUp

fun connect_class_of :: "errno option \<Rightarrow> connect_class" where
  "connect_class_of None = Connecting"
| "connect_class_of (Some EINTR) = Connecting"
| "connect_class_of (Some EISCONN) = Connecting"
| "connect_class_of (Some EINPROGRESS) = Connecting"
| "connect_class_of (Some EAGAIN) = Retry"
| "connect_class_of (Some EADDRINUSE) = Retry"
| "connect_class_of (Some EADDRNOTAVAIL) = Retry"
| "connect_class_of (Some ENETUNREACH) = Retry"
| "connect_class_of (Some ECONNREFUSED) = Retry"
| "connect_class_of (Some e) = GiveUp"

text \<open>
  What the kernel answers: the descriptor of \<open>socket\<close> (\<open>None\<close> when it fails), the error of \<open>connect\<close>,
  the address of a new channel.
\<close>

record connect_env =
  ce_fd :: "int option"
  ce_error :: "errno option"
  ce_ptr :: nat

definition connector_connect :: "connect_env \<Rightarrow> connector \<Rightarrow> connector res" where
  "connector_connect env k =
     (case ce_fd env of
        None \<Rightarrow> Inl FatalAbort
      | Some sockfd \<Rightarrow>
          let k1 = k\<lparr>k_open := k_open k @ [sockfd], k_created := k_created k @ [sockfd]\<rparr> in
          case connect_class_of (ce_error env) of
            Connecting \<Rightarrow> connecting (ce_ptr env) sockfd k1
          | Retry \<Rightarrow> Inr (retry sockfd k1)
          | GiveUp \<Rightarrow> Inr (k_close sockfd k1))"

definition connector_startInLoop :: "connect_env \<Rightarrow> connector \<Rightarrow> connector res" where
  "connector_startInLoop env k =
     cassert (k_state k = kDisconnected) (if k_connect k then connector_connect env k else Inr k)"

text \<open>\<open>runInLoop\<close> calls at once in the loop thread and queues elsewhere.\<close>

definition connector_start :: "bool \<Rightarrow> connect_env \<Rightarrow> connector \<Rightarrow> connector res" where
  "connector_start here env k =
     (let k1 = k\<lparr>k_connect := True\<rparr> in
      if here then connector_startInLoop env k1 else Inr (k_enqueue FStartInLoop k1))"

definition connector_restart :: "connect_env \<Rightarrow> connector \<Rightarrow> connector res" where
  "connector_restart env k = connector_startInLoop env
     (k\<lparr>k_state := kDisconnected, k_retryDelayMs := kInitRetryDelayMs, k_connect := True\<rparr>)"

definition connector_stop :: "connector \<Rightarrow> connector" where
  "connector_stop k = k_enqueue FStopInLoop (k\<lparr>k_connect := False\<rparr>)"

text \<open>
  \<open>disableAll\<close> on the channel. When its descriptor is closed, adding it to the epoll set
  fails with \<open>EBADF\<close>, which \<open>Epoll::update\<close> reports as fatal.
\<close>

definition k_disableAll :: "connector \<Rightarrow> channel \<Rightarrow> (channel \<times> epoll) res" where
  "k_disableAll k c =
     (if ch_fd c \<notin> set (k_open k) \<and> ch_index c \<noteq> kAdded then Inl FatalAbort
      else disableAll True c (k_epoll k))"

definition removeAndResetChannel :: "connector \<Rightarrow> (int \<times> connector) res" where
  "removeAndResetChannel k =
     (case k_channel k of
        None \<Rightarrow> Inl MemoryError
      | Some c \<Rightarrow>
          bindR (k_disableAll k c) (\<lambda>(c1, ep1).
          bindR (channel_remove True c1 ep1) (\<lambda>(c2, ep2).
            Inr (ch_fd c2, k_enqueue FResetChannel (k\<lparr>k_channel := Some c2, k_epoll := ep2\<rparr>)))))"

definition resetChannel :: "connector \<Rightarrow> connector" where
  "resetChannel k = k\<lparr>k_channel := None\<rparr>"

definition connector_stopInLoop :: "connector \<Rightarrow> connector res" where
  "connector_stopInLoop k =
     (if k_state k = kConnecting
      then bindR (removeAndResetChannel (k\<lparr>k_state := kDisconnected\<rparr>)) (\<lambda>(sockfd, k1). Inr (retry sockfd k1))
      else Inr k)"

text \<open>
  The callbacks of the channel: \<open>soerr\<close> is whether \<open>SO_ERROR\<close> reports an error (also when the
  descriptor is closed), \<open>selfc\<close> whether the socket is connected to itself. The test of
  \<open>m_state\<close> after the assignment of \<open>kConnected\<close> is always true.
\<close>

definition connector_handleWrite :: "bool \<Rightarrow> bool \<Rightarrow> connector \<Rightarrow> connector res" where
  "connector_handleWrite soerr selfc k =
     cassert (k_state k = kConnecting \<or> k_state k = kDisconnected)
       (bindR (removeAndResetChannel k) (\<lambda>(sockfd, k1).
          if soerr \<or> selfc then Inr (retry sockfd k1)
          else Inr (k1\<lparr>k_state := kConnected, k_open := remove1 sockfd (k_open k1), k_handed := k_handed k1 @ [sockfd]\<rparr>)))"

definition connector_handleError :: "connector \<Rightarrow> connector res" where
  "connector_handleError k =
     (if k_state k = kConnecting
      then bindR (removeAndResetChannel k) (\<lambda>(sockfd, k1). Inr (retry sockfd k1))
      else Inr k)"

fun connector_callbacks :: "bool \<Rightarrow> bool \<Rightarrow> channel_cb list \<Rightarrow> connector \<Rightarrow> connector res" where
  "connector_callbacks soerr selfc [] k = Inr k"
| "connector_callbacks soerr selfc (ErrorCb # cbs) k =
     bindR (connector_handleError k) (connector_callbacks soerr selfc cbs)"
| "connector_callbacks soerr selfc (WriteCb # cbs) k =
     bindR (connector_handleWrite soerr selfc k) (connector_callbacks soerr selfc cbs)"
| "connector_callbacks soerr selfc (_ # cbs) k = connector_callbacks soerr selfc cbs k"

text \<open>A poll result for the connector's channel.\<close>

definition connector_event :: "event_mask \<Rightarrow> bool \<Rightarrow> bool \<Rightarrow> connector \<Rightarrow> connector res" where
  "connector_event revents soerr selfc k =
     (case k_channel k of
        None \<Rightarrow> Inl MemoryError
      | Some c \<Rightarrow> connector_callbacks soerr selfc (handleEvent True (setRevents revents c)) k)"

section \<open>A connector on its loop\<close>

text \<open>
  A round of the loop: the events of one poll (also the timers that were armed before
  the round), then the functors queued up to the end of the events. \<open>start\<close> is called
  once and before \<open>stop\<close>; \<open>restart\<close> is called by the client when an established connection is lost and it was
  not stopped. The kernel returns descriptors that nothing uses.
\<close>

record k_sys =
  ks_k :: connector
  ks_batch :: "k_functor list"
  ks_armed :: "int list"
  ks_events :: bool
  ks_started :: bool

datatype k_op =
    KStart | KStop | KWritable bool bool | KError | KTimer nat connect_env | KFunctors | KRun connect_env
  | KNextRound | KRestart connect_env

definition fresh_env :: "connect_env \<Rightarrow> connector \<Rightarrow> bool" where
  "fresh_env env k \<longleftrightarrow> (case ce_fd env of None \<Rightarrow> False
     | Some fd \<Rightarrow> 0 < fd \<and> fd \<notin> set (k_open k) \<and> channelMap (k_epoll k) fd = None \<and> interest (k_epoll k) fd = None)"

definition k_registered :: "connector \<Rightarrow> bool" where
  "k_registered k = (case k_channel k of None \<Rightarrow> False | Some c \<Rightarrow> ch_index c = kAdded)"

fun k_functor_run :: "k_functor \<Rightarrow> connect_env \<Rightarrow> connector \<Rightarrow> connector res" where
  "k_functor_run FStartInLoop env k = connector_startInLoop env k"
| "k_functor_run FStopInLoop env k = connector_stopInLoop k"
| "k_functor_run FResetChannel env k = Inr (resetChannel k)"

definition on_k :: "k_sys \<Rightarrow> connector res \<Rightarrow> k_sys res" where
  "on_k s r = bindR r (\<lambda>k. Inr (s\<lparr>ks_k := k\<rparr>))"

text \<open>\<open>None\<close>: the operation cannot happen now.\<close>

fun k_exec :: "k_op \<Rightarrow> k_sys \<Rightarrow> k_sys res option" where
  "k_exec KStart s =
     (if ks_started s then None
      else Some (on_k (s\<lparr>ks_started := True\<rparr>) (connector_start False \<lparr>ce_fd = None, ce_error = None, ce_ptr = 0\<rparr> (ks_k s))))"
| "k_exec KStop s = (if ks_started s then Some (Inr (s\<lparr>ks_k := connector_stop (ks_k s)\<rparr>)) else None)"
| "k_exec (KWritable soerr selfc) s =
     (if ks_events s \<and> k_registered (ks_k s) then Some (on_k s (connector_event EPOLLOUT soerr selfc (ks_k s))) else None)"
| "k_exec KError s =
     (if ks_events s \<and> k_registered (ks_k s) then Some (on_k s (connector_event EPOLLERR False False (ks_k s))) else None)"
| "k_exec (KTimer i env) s =
     (if ks_events s \<and> i < length (ks_armed s) \<and> fresh_env env (ks_k s)
      then Some (on_k (s\<lparr>ks_armed := take i (ks_armed s) @ drop (Suc i) (ks_armed s)\<rparr>) (connector_startInLoop env (ks_k s)))
      else None)"
| "k_exec KFunctors s =
     (if ks_events s then Some (Inr (s\<lparr>ks_events := False, ks_batch := k_queue (ks_k s), ks_k := (ks_k s)\<lparr>k_queue := []\<rparr>\<rparr>))
      else None)"
| "k_exec (KRun env) s =
     (case ks_batch s of
        [] \<Rightarrow> None
      | f # fs \<Rightarrow> if fresh_env env (ks_k s) then Some (on_k (s\<lparr>ks_batch := fs\<rparr>) (k_functor_run f env (ks_k s))) else None)"
| "k_exec KNextRound s =
     (if \<not> ks_events s \<and> ks_batch s = []
      then Some (Inr (s\<lparr>ks_events := True, ks_armed := ks_armed s @ k_timers (ks_k s), ks_k := (ks_k s)\<lparr>k_timers := []\<rparr>\<rparr>))
      else None)"
| "k_exec (KRestart env) s =
     (if k_state (ks_k s) = kConnected \<and> k_channel (ks_k s) = None \<and> k_connect (ks_k s) \<and> fresh_env env (ks_k s)
      then Some (on_k s (connector_restart env (ks_k s))) else None)"

definition k_start_state :: "epoll \<Rightarrow> k_sys" where
  "k_start_state ep = \<lparr>ks_k = new_Connector ep, ks_batch = [], ks_armed = [], ks_events = True, ks_started = False\<rparr>"

definition k_step :: "k_sys \<Rightarrow> k_sys \<Rightarrow> bool" where
  "k_step s t \<longleftrightarrow> (\<exists>op. k_exec op s = Some (Inr t))"

section \<open>What each operation does\<close>

definition k_channel_ok :: "connector \<Rightarrow> bool" where
  "k_channel_ok k = (case k_channel k of
       None \<Rightarrow> k_open k = []
     | Some c \<Rightarrow> ch_writeCallback c \<and> ch_errorCallback c \<and> \<not> ch_readCallback c \<and> \<not> ch_closeCallback c \<and> \<not> ch_tied c \<and>
         (if ch_index c = kAdded
          then k_open k = [ch_fd c] \<and> 0 < ch_fd c \<and> channelMap (k_epoll k) (ch_fd c) = Some (ch_ptr c) \<and>
            interest (k_epoll k) (ch_fd c) = Some (ch_events c, ch_ptr c)
          else ch_index c = kNew \<and> k_open k = []))"

definition k_fine :: "connector \<Rightarrow> bool" where
  "k_fine k \<longleftrightarrow> k_channel_ok k \<and> (k_state k = kConnecting \<longleftrightarrow> k_registered k) \<and>
     mset (k_created k) = mset (k_closed k) + mset (k_handed k) + mset (k_open k) \<and>
     kInitRetryDelayMs \<le> k_retryDelayMs k \<and> k_retryDelayMs k \<le> kMaxRetryDelayMs"

lemmas k_fine_defs = k_fine_def k_channel_ok_def k_registered_def
lemmas delay_defs = kInitRetryDelayMs_def kMaxRetryDelayMs_def

lemma enable_new_channel:
  assumes "channelMap ep fd = None" and "interest ep fd = None"
  shows "enableWriting True (setErrorCallback (setWriteCallback (new_Channel ptr fd))) ep =
    Inr ((setErrorCallback (setWriteCallback (new_Channel ptr fd)))\<lparr>ch_events := kWriteEvent, ch_addedToLoop := True, ch_index := kAdded\<rparr>,
      ep\<lparr>channelMap := (channelMap ep)(fd \<mapsto> ptr), interest := (interest ep)(fd \<mapsto> (kWriteEvent, ptr))\<rparr>)"
  using assms by (simp add: enableWriting_def channel_update_def updateChannel_def assertInLoopThread_def epoll_update_def
      new_Channel_def setErrorCallback_def setWriteCallback_def setIndex_def kNew_def Let_def)

lemma retry_simps [simp]:
  "k_channel (retry fd k) = k_channel k" "k_queue (retry fd k) = k_queue k" "k_connect (retry fd k) = k_connect k"
  "k_state (retry fd k) = kDisconnected" "k_epoll (retry fd k) = k_epoll k" "k_handed (retry fd k) = k_handed k"
  "k_created (retry fd k) = k_created k" "k_open (retry fd k) = k_open (k_close fd k)" "k_closed (retry fd k) = k_closed (k_close fd k)"
  "k_timers (retry fd k) = k_timers k @ (if k_connect k then [k_retryDelayMs k div 1000] else [])"
  "k_retryDelayMs (retry fd k) = (if k_connect k then min (k_retryDelayMs k * 2) kMaxRetryDelayMs else k_retryDelayMs k)"
  by (simp_all add: retry_def k_close_def Let_def)

text \<open>An attempt either registers a channel or ends with the descriptor closed and at most one timer set.\<close>

lemma connect_outcome:
  assumes "k_fine k" and "k_channel k = None" and "k_state k = kDisconnected" and "fresh_env env k"
  shows "\<exists>k'. connector_connect env k = Inr k' \<and> k_fine k' \<and> k_queue k' = k_queue k \<and> k_connect k' = k_connect k \<and>
    (k_state k' = kConnecting \<and> k_timers k' = k_timers k \<or>
     k_state k' = kDisconnected \<and> k_channel k' = None \<and> (k_timers k' = k_timers k \<or> (\<exists>d. k_timers k' = k_timers k @ [d])))"
proof -
  from assms(4) obtain fd where fd: "ce_fd env = Some fd" "0 < fd" "channelMap (k_epoll k) fd = None" "interest (k_epoll k) fd = None"
    by (auto simp: fresh_env_def split: option.splits)
  let ?k1 = "k\<lparr>k_open := k_open k @ [fd], k_created := k_created k @ [fd]\<rparr>"
  have none: "k_open k = []" using assms(1,2) by (simp add: k_fine_defs)
  show ?thesis
  proof (cases "connect_class_of (ce_error env)")
    case Connecting
    have "connector_connect env k = connecting (ce_ptr env) fd ?k1" using Connecting fd by (simp add: connector_connect_def Let_def)
    then show ?thesis
      using assms(1,2) none fd enable_new_channel [OF fd(3,4), of "ce_ptr env"]
      by (auto simp: connecting_def k_fine_defs new_Channel_def setErrorCallback_def setWriteCallback_def)
  next
    case Retry
    have "connector_connect env k = Inr (retry fd ?k1)" using Retry fd by (simp add: connector_connect_def Let_def)
    moreover have "k_fine (retry fd ?k1)" using assms(1,2) none fd(2) by (auto simp: k_fine_defs k_close_def delay_defs)
    ultimately show ?thesis using assms(2) by auto
  next
    case GiveUp
    have "connector_connect env k = Inr (k_close fd ?k1)" using GiveUp fd by (simp add: connector_connect_def Let_def)
    moreover have "k_fine (k_close fd ?k1)" using assms(1,2,3) none fd(2) by (auto simp: k_fine_defs k_close_def)
    ultimately show ?thesis using assms(2,3) fd(2) by (auto simp: k_close_def)
  qed
qed

lemma remove_outcome:
  assumes "k_fine k" and "k_registered k"
  shows "\<exists>c k'. k_channel k = Some c \<and> removeAndResetChannel (k\<lparr>k_state := st\<rparr>) = Inr (ch_fd c, k') \<and>
    k_channel k' = Some (c\<lparr>ch_events := kNoneEvent, ch_addedToLoop := False, ch_index := kNew\<rparr>) \<and>
    k_queue k' = k_queue k @ [FResetChannel] \<and> k_connect k' = k_connect k \<and> k_timers k' = k_timers k \<and> k_state k' = st \<and>
    k_open k' = [ch_fd c] \<and> 0 < ch_fd c \<and> k_created k' = k_created k \<and> k_closed k' = k_closed k \<and>
    k_handed k' = k_handed k \<and> k_retryDelayMs k' = k_retryDelayMs k"
proof -
  from assms(2) obtain c where c: "k_channel k = Some c" "ch_index c = kAdded" by (auto simp: k_registered_def split: option.splits)
  with assms(1) have ok: "k_open k = [ch_fd c]" "0 < ch_fd c" "channelMap (k_epoll k) (ch_fd c) = Some (ch_ptr c)"
    "interest (k_epoll k) (ch_fd c) = Some (ch_events c, ch_ptr c)" by (simp_all add: k_fine_defs)
  let ?ep1 = "(k_epoll k)\<lparr>interest := (interest (k_epoll k))(ch_fd c := None)\<rparr>"
  let ?c1 = "c\<lparr>ch_events := kNoneEvent, ch_addedToLoop := True, ch_index := kDeleted\<rparr>"
  have d: "k_disableAll (k\<lparr>k_state := st\<rparr>) c = Inr (?c1, ?ep1)"
    using ok c(2) by (simp add: k_disableAll_def disableAll_def channel_update_def updateChannel_def assertInLoopThread_def
        epoll_update_def isNoneEvent_def setIndex_def index_defs Let_def)
  have r: "channel_remove True ?c1 ?ep1 = Inr (c\<lparr>ch_events := kNoneEvent, ch_addedToLoop := False, ch_index := kNew\<rparr>,
      ?ep1\<lparr>channelMap := (channelMap (k_epoll k))(ch_fd c := None)\<rparr>)"
    using ok by (simp add: channel_remove_def removeChannel_def assertInLoopThread_def isNoneEvent_def setIndex_def index_defs Let_def)
  show ?thesis using c(1) d r ok by (simp add: removeAndResetChannel_def k_enqueue_def)
qed

text \<open>
  Leaving the state \<open>kConnecting\<close>: the channel is taken out and its reset queued, and the
  descriptor is closed (with a timer when the connector still wants to connect) or handed over.
\<close>

definition k_left :: "connector \<Rightarrow> connector \<Rightarrow> bool" where
  "k_left k k' \<longleftrightarrow> k_fine k' \<and> (\<exists>c. k_channel k' = Some c \<and> ch_index c = kNew) \<and>
     k_queue k' = k_queue k @ [FResetChannel] \<and> k_connect k' = k_connect k \<and>
     (k_state k' = kConnected \<and> k_timers k' = k_timers k \<or>
      k_state k' = kDisconnected \<and> (if k_connect k then \<exists>d. k_timers k' = k_timers k @ [d] else k_timers k' = k_timers k))"

lemma retry_left:
  assumes "k_fine k" and "k_registered k" and "removeAndResetChannel (k\<lparr>k_state := st\<rparr>) = Inr (fd, k1)"
  shows "k_left k (retry fd k1)"
proof -
  from assms(1,2) obtain c0 where c0: "k_channel k = Some c0" "ch_writeCallback c0" "ch_errorCallback c0" "\<not> ch_readCallback c0"
    "\<not> ch_closeCallback c0" "\<not> ch_tied c0" "k_open k = [ch_fd c0]"
    by (auto simp: k_fine_defs split: option.splits if_splits)
  with remove_outcome [OF assms(1,2), of st] assms show ?thesis
    by (auto simp: k_left_def k_fine_defs k_close_def index_defs delay_defs)
qed

lemma handleWrite_left:
  assumes "k_fine k" and "k_registered k"
  shows "\<exists>k'. connector_handleWrite soerr selfc k = Inr k' \<and> k_left k k'"
proof -
  from remove_outcome [OF assms, of "k_state k"] obtain c k1 where
    k1: "k_channel k = Some c" "removeAndResetChannel k = Inr (ch_fd c, k1)"
      "k_channel k1 = Some (c\<lparr>ch_events := kNoneEvent, ch_addedToLoop := False, ch_index := kNew\<rparr>)"
      "k_queue k1 = k_queue k @ [FResetChannel]" "k_connect k1 = k_connect k" "k_timers k1 = k_timers k" "k_open k1 = [ch_fd c]"
      "k_created k1 = k_created k" "k_closed k1 = k_closed k" "k_handed k1 = k_handed k" "k_retryDelayMs k1 = k_retryDelayMs k"
    by auto
  have st: "k_state k = kConnecting" using assms by (simp add: k_fine_def)
  show ?thesis
  proof (cases "soerr \<or> selfc")
    case True
    have "k_left k (retry (ch_fd c) k1)" by (rule retry_left [OF assms, of "k_state k"]) (use k1(2) in simp)
    with True k1(2) st show ?thesis by (auto simp: connector_handleWrite_def)
  next
    case False
    let ?k' = "k1\<lparr>k_state := kConnected, k_open := remove1 (ch_fd c) (k_open k1), k_handed := k_handed k1 @ [ch_fd c]\<rparr>"
    have "k_left k ?k'" using assms k1 by (auto simp: k_left_def k_fine_defs index_defs split: option.splits if_splits)
    with False k1(2) st show ?thesis by (auto simp: connector_handleWrite_def)
  qed
qed

lemma handleError_left:
  assumes "k_fine k" and "k_registered k"
  shows "\<exists>k'. connector_handleError k = Inr k' \<and> k_left k k'"
proof -
  have st: "k_state k = kConnecting" using assms by (simp add: k_fine_def)
  from remove_outcome [OF assms, of "k_state k"] obtain fd k1 where k1: "removeAndResetChannel k = Inr (fd, k1)" by auto
  have "k_left k (retry fd k1)" by (rule retry_left [OF assms, of "k_state k"]) (use k1 in simp)
  with k1 st show ?thesis by (simp add: connector_handleError_def)
qed

lemma stopInLoop_left:
  assumes "k_fine k" and "k_registered k"
  shows "\<exists>k'. connector_stopInLoop k = Inr k' \<and> k_left k k'"
proof -
  have st: "k_state k = kConnecting" using assms by (simp add: k_fine_def)
  from remove_outcome [OF assms, of kDisconnected] obtain fd k1 where
    k1: "removeAndResetChannel (k\<lparr>k_state := kDisconnected\<rparr>) = Inr (fd, k1)" by auto
  have "k_left k (retry fd k1)" by (rule retry_left [OF assms k1])
  with k1 st show ?thesis by (simp add: connector_stopInLoop_def)
qed

lemma event_left:
  assumes "k_fine k" and "k_registered k"
  shows "\<exists>k'. connector_event EPOLLOUT soerr selfc k = Inr k' \<and> k_left k k'"
    and "\<exists>k'. connector_event EPOLLERR soerr selfc k = Inr k' \<and> k_left k k'"
proof -
  from assms obtain c where c: "k_channel k = Some c" "ch_writeCallback c" "ch_errorCallback c" "\<not> ch_tied c" "\<not> ch_readCallback c"
    by (auto simp: k_fine_defs split: option.splits)
  have "handleEvent True (setRevents EPOLLOUT c) = [WriteCb]"
    using c by (simp add: handleEvent_def handleEventWithGuard_def setRevents_def has_def epoll_bits Let_def)
  then show "\<exists>k'. connector_event EPOLLOUT soerr selfc k = Inr k' \<and> k_left k k'"
    using handleWrite_left [OF assms, of soerr selfc] c(1) by (auto simp: connector_event_def)
  have "handleEvent True (setRevents EPOLLERR c) = [ErrorCb]"
    using c by (simp add: handleEvent_def handleEventWithGuard_def setRevents_def has_def epoll_bits Let_def)
  then show "\<exists>k'. connector_event EPOLLERR soerr selfc k = Inr k' \<and> k_left k k'"
    using handleError_left [OF assms] c(1) by (auto simp: connector_event_def)
qed

section \<open>The invariant\<close>

definition k_pend :: "k_sys \<Rightarrow> k_functor list" where
  "k_pend s = ks_batch s @ k_queue (ks_k s)"

text \<open>Attempts that are due: a queued start, an armed timer or a timer just set.\<close>

definition k_starts :: "k_sys \<Rightarrow> nat" where
  "k_starts s = count_list (k_pend s) FStartInLoop + length (ks_armed s) + length (k_timers (ks_k s))"

definition k_resets_ok :: "k_sys \<Rightarrow> bool" where
  "k_resets_ok s \<longleftrightarrow>
     (if k_channel (ks_k s) = None \<or> k_registered (ks_k s) then FResetChannel \<notin> set (k_pend s)
      else count_list (k_pend s) FResetChannel = 1 \<and> FStartInLoop \<notin> set (k_pend s) \<and> ks_armed s = [] \<and>
        (ks_events s \<or> FResetChannel \<in> set (ks_batch s) \<or> k_timers (ks_k s) = []))"

definition k_inv :: "k_sys \<Rightarrow> bool" where
  "k_inv s \<longleftrightarrow> k_fine (ks_k s) \<and> k_resets_ok s \<and> k_starts s \<le> 1 \<and>
     (\<not> ks_started s \<longrightarrow> k_starts s = 0 \<and> k_state (ks_k s) = kDisconnected \<and> k_channel (ks_k s) = None \<and> k_pend s = []) \<and>
     (k_state (ks_k s) \<noteq> kDisconnected \<longrightarrow> k_starts s = 0) \<and>
     (FStopInLoop \<in> set (k_pend s) \<longrightarrow> \<not> k_connect (ks_k s)) \<and>
     (ks_events s \<longrightarrow> ks_batch s = [])"

lemmas k_inv_defs = k_inv_def k_resets_ok_def k_starts_def k_pend_def

lemma k_fine_cong:
  "k_fine (k\<lparr>k_queue := q\<rparr>) = k_fine k" "k_fine (k\<lparr>k_timers := ts\<rparr>) = k_fine k" "k_fine (k\<lparr>k_connect := b\<rparr>) = k_fine k"
  "k_registered (k\<lparr>k_queue := q\<rparr>) = k_registered k" "k_registered (k\<lparr>k_timers := ts\<rparr>) = k_registered k"
  "k_registered (k\<lparr>k_connect := b\<rparr>) = k_registered k"
  by (simp_all add: k_fine_defs split: option.splits)

text \<open>A queued or due start finds the connector idle and without a channel.\<close>

lemma due_start_idle:
  assumes "k_inv s" and "FStartInLoop \<in> set (k_pend s) \<or> ks_armed s \<noteq> []"
  shows "k_state (ks_k s) = kDisconnected" and "k_channel (ks_k s) = None"
proof -
  have "0 < k_starts s" using assms(2) by (auto simp: k_starts_def count_list_0_iff)
  then show st: "k_state (ks_k s) = kDisconnected" using assms(1) by (auto simp: k_inv_def)
  then have "\<not> k_registered (ks_k s)" using assms(1) by (auto simp: k_inv_def k_fine_def)
  then show "k_channel (ks_k s) = None" using assms by (auto simp: k_inv_def k_resets_ok_def split: if_splits)
qed

lemma start_attempt:
  assumes "k_inv s" and idle: "k_state (ks_k s) = kDisconnected" "k_channel (ks_k s) = None" and "fresh_env env (ks_k s)"
  shows "\<exists>k'. connector_startInLoop env (ks_k s) = Inr k' \<and> k_fine k' \<and> k_queue k' = k_queue (ks_k s) \<and> k_connect k' = k_connect (ks_k s) \<and>
    (k_state k' = kConnecting \<and> k_timers k' = k_timers (ks_k s) \<or>
     k_state k' = kDisconnected \<and> k_channel k' = None \<and>
       (k_timers k' = k_timers (ks_k s) \<or> (\<exists>d. k_timers k' = k_timers (ks_k s) @ [d])))"
  using connect_outcome [OF _ idle(2,1) assms(4)] assms idle
  by (cases "k_connect (ks_k s)") (auto simp: connector_startInLoop_def k_inv_def)

text \<open>The end of an attempt: from a state with no other attempt due.\<close>

lemma attempt_inv:
  assumes "k_inv s" and "ks_started t" and "k_fine (ks_k t)"
    and "k_pend t = xs" and "FResetChannel \<notin> set xs" and "FStartInLoop \<notin> set xs" and "ks_armed t = []"
    and "FStopInLoop \<in> set xs \<longrightarrow> \<not> k_connect (ks_k t)" and "ks_events t \<longrightarrow> ks_batch t = []"
    and "k_state (ks_k t) = kConnecting \<and> k_timers (ks_k t) = [] \<or>
      k_state (ks_k t) = kDisconnected \<and> k_channel (ks_k t) = None \<and> length (k_timers (ks_k t)) \<le> 1"
  shows "k_inv t"
  using assms(2-) by (auto simp: k_inv_def k_resets_ok_def k_starts_def k_fine_def)

text \<open>The same for leaving \<open>kConnecting\<close>.\<close>

lemma left_inv:
  assumes "k_inv s" and "k_registered (ks_k s)" and "k_left (ks_k s) k'" and "t = s\<lparr>ks_k := k', ks_batch := fs\<rparr>"
    and "set fs \<subseteq> set (ks_batch s)" and "ks_events s \<or> \<not> k_connect (ks_k s)"
  shows "k_inv t"
proof -
  have st: "k_state (ks_k s) = kConnecting" using assms(1,2) by (simp add: k_inv_def k_fine_def)
  with assms(1) have none: "k_starts s = 0" by (simp add: k_inv_def)
  then have starts: "FStartInLoop \<notin> set (k_pend s)" "ks_armed s = []" "k_timers (ks_k s) = []"
    by (auto simp: k_starts_def count_list_0_iff)
  have resets: "FResetChannel \<notin> set (k_pend s)" using assms(1,2) by (simp add: k_inv_def k_resets_ok_def)
  have started: "ks_started s" using assms(1) st by (auto simp: k_inv_def)
  have nr: "k_channel k' \<noteq> None" "\<not> k_registered k'" using assms(3) by (auto simp: k_left_def k_registered_def index_defs)
  have pend: "set (k_pend t) \<subseteq> insert FResetChannel (set (k_pend s))" "count_list (k_pend t) FResetChannel = 1"
    using assms(3,4,5) resets by (auto simp: k_pend_def k_left_def count_list_0_iff)
  have stop: "FStopInLoop \<in> set (k_pend t) \<longrightarrow> \<not> k_connect k'"
    using pend(1) assms(1,3) by (auto simp: k_inv_def k_left_def)
  have timers: "length (k_timers k') \<le> 1" "k_state k' \<noteq> kDisconnected \<longrightarrow> k_timers k' = []" "\<not> k_connect (ks_k s) \<longrightarrow> k_timers k' = []"
    using assms(3) starts(3) by (auto simp: k_left_def split: if_splits)
  have "count_list (k_pend t) FStartInLoop = 0" using pend(1) starts(1) by (auto simp: count_list_0_iff)
  moreover have "FStartInLoop \<notin> set (k_pend t)" using pend(1) starts(1) by auto
  ultimately show ?thesis
    using assms(1,3,4,5,6) starts started nr pend(2) stop timers
    by (auto simp: k_inv_def k_resets_ok_def k_starts_def k_left_def)
qed

definition no_fault :: "k_sys res \<Rightarrow> bool" where
  "no_fault r = returns r k_inv"

lemma due_start_inv:
  assumes "k_inv s" and due: "FStartInLoop \<in> set (k_pend s) \<or> ks_armed s \<noteq> []" and "fresh_env env (ks_k s)"
    and "t = s\<lparr>ks_batch := fs, ks_armed := as\<rparr>" and "k_starts t = 0" and "set (k_pend t) \<subseteq> set (k_pend s)"
    and "ks_events s \<longrightarrow> fs = []"
  shows "no_fault (on_k t (connector_startInLoop env (ks_k s)))"
proof -
  note idle = due_start_idle [OF assms(1) due]
  from start_attempt [OF assms(1) idle assms(3)] obtain k' where k': "connector_startInLoop env (ks_k s) = Inr k'" "k_fine k'"
    "k_queue k' = k_queue (ks_k s)" "k_connect k' = k_connect (ks_k s)"
    "k_state k' = kConnecting \<and> k_timers k' = k_timers (ks_k s) \<or> k_state k' = kDisconnected \<and> k_channel k' = None \<and>
       (k_timers k' = k_timers (ks_k s) \<or> (\<exists>d. k_timers k' = k_timers (ks_k s) @ [d]))" by blast
  have started: "ks_started s" using assms(1) due by (auto simp: k_inv_def k_starts_def count_list_0_iff)
  have "FStartInLoop \<notin> set (k_pend t)" "ks_armed t = []" "k_timers (ks_k t) = []"
    using assms(5) by (auto simp: k_starts_def count_list_0_iff)
  moreover have "FResetChannel \<notin> set (k_pend t)" using assms(1,6) idle(2) by (auto simp: k_inv_def k_resets_ok_def)
  moreover have "FStopInLoop \<in> set (k_pend t) \<longrightarrow> \<not> k_connect k'" using assms(1,6) k'(4) by (auto simp: k_inv_def)
  moreover have "k_pend (t\<lparr>ks_k := k'\<rparr>) = k_pend t" using k'(3) assms(4) by (simp add: k_pend_def)
  ultimately have "k_inv (t\<lparr>ks_k := k'\<rparr>)"
    using k' started assms(4,7) by (intro attempt_inv [OF assms(1), of _ "k_pend t"]) auto
  with k'(1) show ?thesis by (simp add: no_fault_def on_k_def)
qed

lemma exec_start: "k_inv s \<Longrightarrow> k_exec KStart s = Some r \<Longrightarrow> no_fault r"
  by (auto simp: no_fault_def on_k_def connector_start_def k_enqueue_def k_inv_defs k_fine_cong Let_def
      count_list_0_iff split: if_splits)

lemma exec_stop: "k_inv s \<Longrightarrow> k_exec KStop s = Some r \<Longrightarrow> no_fault r"
  by (auto simp: no_fault_def connector_stop_def k_enqueue_def k_inv_defs k_fine_cong split: if_splits)

lemma exec_event:
  assumes "k_inv s" and "k_exec op s = Some r" and "op = KWritable soerr selfc \<or> op = KError"
  shows "no_fault r"
proof -
  from assms(2,3) have g: "ks_events s" "k_registered (ks_k s)" by (auto split: if_splits)
  have fine: "k_fine (ks_k s)" using assms(1) by (simp add: k_inv_def)
  obtain k' where r: "r = Inr (s\<lparr>ks_k := k'\<rparr>)" "k_left (ks_k s) k'"
  proof (cases "op = KError")
    case True
    with event_left(2) [OF fine g(2), of False False] that assms(2) g show ?thesis by (auto simp: on_k_def)
  next
    case False
    with event_left(1) [OF fine g(2), of soerr selfc] that assms(2,3) g show ?thesis by (auto simp: on_k_def)
  qed
  have "k_inv (s\<lparr>ks_k := k'\<rparr>)" using g(1) by (intro left_inv [OF assms(1) g(2) r(2), of _ "ks_batch s"]) auto
  with r(1) show ?thesis by (simp add: no_fault_def)
qed

lemma exec_timer:
  assumes "k_inv s" and "k_exec (KTimer i env) s = Some r"
  shows "no_fault r"
proof -
  from assms(2) have g: "ks_events s" "i < length (ks_armed s)" "fresh_env env (ks_k s)"
    and r: "r = on_k (s\<lparr>ks_armed := take i (ks_armed s) @ drop (Suc i) (ks_armed s)\<rparr>) (connector_startInLoop env (ks_k s))"
    by (auto split: if_splits)
  let ?t = "s\<lparr>ks_batch := ks_batch s, ks_armed := take i (ks_armed s) @ drop (Suc i) (ks_armed s)\<rparr>"
  have "k_starts ?t < k_starts s" using g(2) by (simp add: k_starts_def k_pend_def)
  then have "k_starts ?t = 0" using assms(1) by (simp add: k_inv_def)
  have due: "FStartInLoop \<in> set (k_pend s) \<or> ks_armed s \<noteq> []" using g(2) by auto
  have sub: "set (k_pend ?t) \<subseteq> set (k_pend s)" by (simp add: k_pend_def)
  have ev: "ks_events s \<longrightarrow> ks_batch s = []" using assms(1) by (simp add: k_inv_def)
  have "no_fault (on_k ?t (connector_startInLoop env (ks_k s)))"
    by (rule due_start_inv [OF assms(1) due g(3) HOL.refl \<open>k_starts ?t = 0\<close> sub ev])
  with r show ?thesis by simp
qed

lemma exec_functors: "k_inv s \<Longrightarrow> k_exec KFunctors s = Some r \<Longrightarrow> no_fault r"
  by (auto simp: no_fault_def k_inv_defs k_fine_cong count_list_0_iff split: if_splits)

lemma exec_next: "k_inv s \<Longrightarrow> k_exec KNextRound s = Some r \<Longrightarrow> no_fault r"
  by (auto simp: no_fault_def k_inv_defs k_fine_cong split: if_splits)

lemma exec_run:
  assumes "k_inv s" and "k_exec (KRun env) s = Some r"
  shows "no_fault r"
proof -
  from assms(2) obtain f fs where f: "ks_batch s = f # fs" "fresh_env env (ks_k s)"
    and r: "r = on_k (s\<lparr>ks_batch := fs\<rparr>) (k_functor_run f env (ks_k s))" by (auto split: list.splits if_splits)
  have ev: "\<not> ks_events s" using assms(1) f(1) by (auto simp: k_inv_def)
  show ?thesis
  proof (cases f)
    case FStartInLoop
    let ?t = "s\<lparr>ks_batch := fs, ks_armed := ks_armed s\<rparr>"
    have "k_starts ?t < k_starts s" using f(1) FStartInLoop by (simp add: k_starts_def k_pend_def)
    then have "k_starts ?t = 0" using assms(1) by (simp add: k_inv_def)
    have due: "FStartInLoop \<in> set (k_pend s) \<or> ks_armed s \<noteq> []" using f(1) FStartInLoop by (simp add: k_pend_def)
    have sub: "set (k_pend ?t) \<subseteq> set (k_pend s)" using f(1) by (auto simp: k_pend_def)
    have ev': "ks_events s \<longrightarrow> fs = []" using ev by simp
    have "no_fault (on_k ?t (connector_startInLoop env (ks_k s)))"
      by (rule due_start_inv [OF assms(1) due f(2) HOL.refl \<open>k_starts ?t = 0\<close> sub ev'])
    with r FStartInLoop show ?thesis by simp
  next
    case FStopInLoop
    then have nc: "\<not> k_connect (ks_k s)" using assms(1) f(1) by (auto simp: k_inv_def k_pend_def)
    have fine: "k_fine (ks_k s)" using assms(1) by (simp add: k_inv_def)
    show ?thesis
    proof (cases "k_registered (ks_k s)")
      case True
      from stopInLoop_left [OF fine True] obtain k' where k': "connector_stopInLoop (ks_k s) = Inr k'" "k_left (ks_k s) k'" by blast
      have "k_inv (s\<lparr>ks_batch := fs, ks_k := k'\<rparr>)" using f(1) nc by (intro left_inv [OF assms(1) True k'(2), of _ fs]) auto
      with r FStopInLoop k'(1) show ?thesis by (simp add: no_fault_def on_k_def)
    next
      case False
      then have "connector_stopInLoop (ks_k s) = Inr (ks_k s)" using fine by (auto simp: k_fine_def connector_stopInLoop_def)
      with r FStopInLoop assms(1) f(1) show ?thesis
        by (auto simp: no_fault_def on_k_def k_inv_defs split: if_splits)
    qed
  next
    case FResetChannel
    have "\<not> k_registered (ks_k s)" "k_channel (ks_k s) \<noteq> None"
      using assms(1) f(1) FResetChannel by (auto simp: k_inv_defs split: if_splits)
    moreover from this have "k_state (ks_k s) \<noteq> kConnecting" "k_open (ks_k s) = []"
      using assms(1) by (auto simp: k_inv_def k_fine_defs split: option.splits if_splits)
    ultimately show ?thesis
      using assms(1) f(1) FResetChannel r
      by (auto simp: no_fault_def on_k_def resetChannel_def k_inv_defs k_fine_defs count_list_0_iff split: if_splits)
  qed
qed

lemma exec_restart:
  assumes "k_inv s" and "k_exec (KRestart env) s = Some r"
  shows "no_fault r"
proof -
  from assms(2) have g: "k_state (ks_k s) = kConnected" "k_channel (ks_k s) = None" "k_connect (ks_k s)" "fresh_env env (ks_k s)"
    and r: "r = on_k s (connector_restart env (ks_k s))" by (auto split: if_splits)
  let ?k = "(ks_k s)\<lparr>k_state := kDisconnected, k_retryDelayMs := kInitRetryDelayMs, k_connect := True\<rparr>"
  have fine: "k_fine ?k" using assms(1) g by (auto simp: k_inv_def k_fine_defs delay_defs)
  have env: "fresh_env env ?k" using g(4) by (simp add: fresh_env_def split: option.splits)
  from connect_outcome [OF fine _ _ env] g(2) obtain k' where k': "connector_connect env ?k = Inr k'" "k_fine k'"
    "k_queue k' = k_queue (ks_k s)" "k_connect k'"
    "k_state k' = kConnecting \<and> k_timers k' = k_timers (ks_k s) \<or> k_state k' = kDisconnected \<and> k_channel k' = None \<and>
       (k_timers k' = k_timers (ks_k s) \<or> (\<exists>d. k_timers k' = k_timers (ks_k s) @ [d]))" by fastforce
  have none: "k_starts s = 0" "ks_started s" using assms(1) g(1) by (auto simp: k_inv_def)
  then have "FStartInLoop \<notin> set (k_pend s)" "ks_armed s = []" "k_timers (ks_k s) = []" by (auto simp: k_starts_def count_list_0_iff)
  moreover have "FResetChannel \<notin> set (k_pend s)" "FStopInLoop \<notin> set (k_pend s)"
    using assms(1) g by (auto simp: k_inv_def k_resets_ok_def)
  moreover have "k_pend (s\<lparr>ks_k := k'\<rparr>) = k_pend s" using k'(3) by (simp add: k_pend_def)
  ultimately have "k_inv (s\<lparr>ks_k := k'\<rparr>)"
    using k' none(2) assms(1) by (intro attempt_inv [OF assms(1), of _ "k_pend s"]) (auto simp: k_inv_def)
  with r k'(1) show ?thesis by (simp add: no_fault_def on_k_def connector_restart_def connector_startInLoop_def)
qed

lemma k_exec_inv:
  assumes "k_inv s" and "k_exec op s = Some r"
  shows "no_fault r"
proof (cases op)
  case KStart
  with assms show ?thesis using exec_start by blast
next
  case KStop
  with assms show ?thesis using exec_stop by blast
next
  case (KWritable soerr selfc)
  then show ?thesis using exec_event [OF assms] by blast
next
  case KError
  then show ?thesis using exec_event [OF assms] by blast
next
  case (KTimer i env)
  with assms show ?thesis using exec_timer by blast
next
  case KFunctors
  with assms show ?thesis using exec_functors by blast
next
  case (KRun env)
  with assms show ?thesis using exec_run by blast
next
  case KNextRound
  with assms show ?thesis using exec_next by blast
next
  case (KRestart env)
  with assms show ?thesis using exec_restart by blast
qed

lemma k_start_inv: "k_inv (k_start_state ep)"
  by (simp add: k_start_state_def new_Connector_def k_inv_defs k_fine_defs delay_defs)

interpretation connector: invariant_system "\<lambda>s. \<exists>ep. s = k_start_state ep" k_step k_inv
  by unfold_locales (auto simp: k_start_inv k_step_def no_fault_def dest!: k_exec_inv)

section \<open>Claims\<close>



text \<open>
  C33. A refused connection ends the process: when the poll reports the socket writable and in
  error at once, as it does for a connection that failed, \<open>handleError\<close> removes the channel
  and closes the descriptor, \<open>handleWrite\<close> goes on in the state \<open>kDisconnected\<close> and registers the
  closed descriptor again, which \<open>Epoll::update\<close> reports as fatal.
\<close>

theorem refused_connection_aborts:
  assumes "k_fine k" and "k_registered k"
  shows "connector_event (EPOLLOUT OR EPOLLERR OR EPOLLHUP) soerr selfc k = Inl FatalAbort"
proof -
  from assms obtain c where c: "k_channel k = Some c" "ch_writeCallback c" "ch_errorCallback c" "\<not> ch_tied c" "\<not> ch_readCallback c"
    "\<not> ch_closeCallback c" by (auto simp: k_fine_defs split: option.splits)
  have cbs: "handleEvent True (setRevents (EPOLLOUT OR EPOLLERR OR EPOLLHUP) c) = [ErrorCb, WriteCb]"
    using c by (simp add: handleEvent_def handleEventWithGuard_def setRevents_def has_def epoll_bits Let_def)
  from remove_outcome [OF assms, of "k_state k"] c(1) obtain k1 where
    k1: "removeAndResetChannel k = Inr (ch_fd c, k1)"
      "k_channel k1 = Some (c\<lparr>ch_events := kNoneEvent, ch_addedToLoop := False, ch_index := kNew\<rparr>)"
      "k_open k1 = [ch_fd c]" "0 < ch_fd c" by auto
  have "k_state k = kConnecting" using assms by (simp add: k_fine_def)
  then have e: "connector_handleError k = Inr (retry (ch_fd c) k1)" using k1(1) by (simp add: connector_handleError_def)
  have "k_disableAll (retry (ch_fd c) k1) (c\<lparr>ch_events := kNoneEvent, ch_addedToLoop := False, ch_index := kNew\<rparr>) = Inl FatalAbort"
    using k1(3,4) by (simp add: k_disableAll_def k_close_def index_defs)
  then have "connector_handleWrite soerr selfc (retry (ch_fd c) k1) = Inl FatalAbort"
    using k1(2) by (simp add: connector_handleWrite_def removeAndResetChannel_def)
  with e cbs c(1) show ?thesis by (simp add: connector_event_def)
qed

text \<open>A connector that just began to connect.\<close>

definition connecting_example :: "connector res" where
  "connecting_example = connector_start True \<lparr>ce_fd = Some 7, ce_error = Some EINPROGRESS, ce_ptr = 1\<rparr> (new_Connector new_Epoll)"

theorem refused_connection_aborts_witness:
  "bindR connecting_example (connector_event (EPOLLOUT OR EPOLLERR OR EPOLLHUP) True False) = Inl FatalAbort"
proof -
  let ?k = "(new_Connector new_Epoll)\<lparr>k_connect := True\<rparr>"
  have "k_fine ?k" "k_channel ?k = None" "k_state ?k = kDisconnected"
    "fresh_env \<lparr>ce_fd = Some 7, ce_error = Some EINPROGRESS, ce_ptr = 1\<rparr> ?k"
    by (simp_all add: new_Connector_def k_fine_defs delay_defs fresh_env_def new_Epoll_def)
  from connect_outcome [OF this] obtain k' where
    k': "connector_connect \<lparr>ce_fd = Some 7, ce_error = Some EINPROGRESS, ce_ptr = 1\<rparr> ?k = Inr k'" "k_fine k'" by blast
  then have "k_state k' = kConnecting"
    by (auto simp: connector_connect_def connecting_def new_Connector_def new_Epoll_def enable_new_channel)
  with k'(2) have "k_registered k'" by (simp add: k_fine_def)
  have ex: "connecting_example = Inr k'"
    using k'(1) by (simp add: connecting_example_def connector_start_def connector_startInLoop_def new_Connector_def)
  show ?thesis unfolding ex bindR_Inr by (rule refused_connection_aborts [OF k'(2) \<open>k_registered k'\<close>])
qed

text \<open>
  A retry after half a second is a timer with no delay. When another timer expires in the
  same round, the new attempt begins before the old channel is reset, and the assertion
  of \<open>connecting\<close> fails.
\<close>

lemma first_retry_race:
  assumes "k_fine k" and "k_registered k" and "k_connect k" and "k_retryDelayMs k = 500" and "connect_class_of (ce_error env) = Connecting"
    and "ce_fd env = Some fd"
  shows "\<exists>k'. connector_event EPOLLOUT True False k = Inr k' \<and> k_timers k' = k_timers k @ [0] \<and>
    connector_startInLoop env k' = Inl AssertFailed"
proof -
  from remove_outcome [OF assms(1,2), of "k_state k"] obtain c k1 where
    k1: "k_channel k = Some c" "removeAndResetChannel k = Inr (ch_fd c, k1)" "k_connect k1 = k_connect k"
      "k_timers k1 = k_timers k" "k_retryDelayMs k1 = k_retryDelayMs k" "k_channel k1 \<noteq> None" by auto
  have c: "ch_writeCallback c" "\<not> ch_tied c" using assms(1) k1(1) by (auto simp: k_fine_defs)
  have "handleEvent True (setRevents EPOLLOUT c) = [WriteCb]"
    using c by (simp add: handleEvent_def handleEventWithGuard_def setRevents_def has_def epoll_bits Let_def)
  moreover have "k_state k = kConnecting" using assms(1,2) by (simp add: k_fine_def)
  ultimately have "connector_event EPOLLOUT True False k = Inr (retry (ch_fd c) k1)"
    using k1(1,2) by (simp add: connector_event_def connector_handleWrite_def)
  moreover have "connector_startInLoop env (retry (ch_fd c) k1) = Inl AssertFailed"
    using assms(3,5,6) k1(3,6) by (auto simp: connector_startInLoop_def connector_connect_def connecting_def cassert_def Let_def)
  ultimately show ?thesis using assms(3,4) k1(3,4,5) by auto
qed

end
