(* ===== verification/Net_Server.thy ===== *)
theory Net_Server
  imports Net_Connector Net_Address
begin

text \<open>
  \<open>net/Acceptor\<close>, \<open>net/EventLoopThread\<close>, \<open>net/EventLoopThreadPool\<close>, \<open>net/TcpServer\<close> and \<open>net/TcpClient\<close>: who
  owns the connections of a process. Loops and connections are named by their addresses.
  What an operation makes a loop do is appended to a list of calls; the answers of the
  kernel are arguments. The assertions that a call is made in the loop thread are taken
  as given: every operation here is called by the thread of its own loop, or queued to it.
\<close>

section \<open>Accepting\<close>

record acceptor =
  ac_listenning :: bool
  ac_idleFd :: int
  ac_callback :: bool
  ac_closed :: "int list"
  ac_passed :: "int list"

definition new_Acceptor :: "int \<Rightarrow> acceptor res" where
  "new_Acceptor idle = cassert (0 \<le> idle)
     (Inr \<lparr>ac_listenning = False, ac_idleFd = idle, ac_callback = False, ac_closed = [], ac_passed = []\<rparr>)"

definition acceptor_listen :: "acceptor \<Rightarrow> acceptor" where
  "acceptor_listen a = a\<lparr>ac_listenning := True\<rparr>"

definition ac_close :: "int \<Rightarrow> acceptor \<Rightarrow> acceptor" where
  "ac_close fd a = (if 0 < fd then a\<lparr>ac_closed := ac_closed a @ [fd]\<rparr> else a)"

definition destroy_Acceptor :: "acceptor \<Rightarrow> acceptor" where
  "destroy_Acceptor a = ac_close (ac_idleFd a) a"

text \<open>\<open>again\<close> is what the second \<open>accept\<close> returns (-1 when it fails), \<open>reopened\<close> the new idle descriptor.\<close>

definition acceptor_handleRead :: "errno + int \<Rightarrow> int \<Rightarrow> int \<Rightarrow> acceptor \<Rightarrow> acceptor res" where
  "acceptor_handleRead answer again reopened a =
     bindR (socket_accept answer) (\<lambda>r.
       case r of
         Inr connfd \<Rightarrow>
           if ac_callback a then Inr (a\<lparr>ac_passed := ac_passed a @ [connfd]\<rparr>) else Inr (ac_close connfd a)
       | Inl e \<Rightarrow>
           if e = EMFILE
           then (let a1 = ac_close (ac_idleFd a) a; a2 = ac_close again (a1\<lparr>ac_idleFd := again\<rparr>) in
                 Inr (a2\<lparr>ac_idleFd := reopened\<rparr>))
           else Inr a)"

section \<open>Loops of a server\<close>

text \<open>\<open>EventLoopThread\<close>: the thread publishes its loop; \<open>startLoop\<close> waits for it.\<close>

record loop_thread =
  lt_running :: bool
  lt_loop :: "nat option"
  lt_exit :: bool

definition new_EventLoopThread :: loop_thread where
  "new_EventLoopThread = \<lparr>lt_running = False, lt_loop = None, lt_exit = False\<rparr>"

definition threadFunc_publish :: "nat \<Rightarrow> loop_thread \<Rightarrow> loop_thread" where
  "threadFunc_publish loop t = t\<lparr>lt_loop := Some loop\<rparr>"

definition threadFunc_end :: "loop_thread \<Rightarrow> loop_thread" where
  "threadFunc_end t = t\<lparr>lt_loop := None\<rparr>"

definition startLoop :: "nat \<Rightarrow> loop_thread \<Rightarrow> (nat \<times> loop_thread) res" where
  "startLoop loop t = cassert (\<not> lt_running t)
     (let t1 = threadFunc_publish loop (t\<lparr>lt_running := True\<rparr>) in
      case lt_loop t1 of None \<Rightarrow> Inl MemoryError | Some l \<Rightarrow> Inr (l, t1))"

text \<open>The destructor: whether it tells the loop to quit and joins the thread.\<close>

definition destroy_EventLoopThread :: "loop_thread \<Rightarrow> bool \<times> loop_thread" where
  "destroy_EventLoopThread t = (lt_loop t \<noteq> None, t\<lparr>lt_exit := True\<rparr>)"

record loop_pool =
  tp_baseLoop :: nat
  tp_name :: string
  tp_started :: bool
  tp_numThreads :: int
  tp_next :: nat
  tp_threads :: "loop_thread list"
  tp_loops :: "nat list"

definition new_EventLoopThreadPool :: "nat \<Rightarrow> string \<Rightarrow> loop_pool" where
  "new_EventLoopThreadPool base name = \<lparr>tp_baseLoop = base, tp_name = name, tp_started = False,
     tp_numThreads = 0, tp_next = 0, tp_threads = [], tp_loops = []\<rparr>"

definition pool_setThreadNum :: "int \<Rightarrow> loop_pool \<Rightarrow> loop_pool" where
  "pool_setThreadNum n p = p\<lparr>tp_numThreads := n\<rparr>"

text \<open>The loop of \<open>start\<close> from index \<open>i\<close>: \<open>addr i\<close> is the address of the \<open>i\<close>-th thread's loop.\<close>

function pool_spawn :: "(int \<Rightarrow> nat) \<Rightarrow> int \<Rightarrow> loop_pool \<Rightarrow> loop_pool res" where
  "pool_spawn addr i p =
     (if i < tp_numThreads p
      then (case startLoop (addr i) new_EventLoopThread of
              Inl f \<Rightarrow> Inl f
            | Inr (l, t) \<Rightarrow> pool_spawn addr (i + 1) (p\<lparr>tp_threads := tp_threads p @ [t], tp_loops := tp_loops p @ [l]\<rparr>))
      else Inr p)"
  by pat_completeness auto
termination
  by (relation "measure (\<lambda>(addr, i, p). nat (tp_numThreads p - i))") auto

declare pool_spawn.simps [simp del]

text \<open>The second component: whether the base loop is passed to the initialisation callback.\<close>

definition pool_start :: "(int \<Rightarrow> nat) \<Rightarrow> bool \<Rightarrow> loop_pool \<Rightarrow> (loop_pool \<times> bool) res" where
  "pool_start addr cb p = cassert (\<not> tp_started p)
     (bindR (pool_spawn addr 0 (p\<lparr>tp_started := True\<rparr>)) (\<lambda>p1. Inr (p1, tp_numThreads p1 = 0 \<and> cb)))"

definition getNextLoop :: "loop_pool \<Rightarrow> (nat \<times> loop_pool) res" where
  "getNextLoop p = cassert (tp_started p)
     (if tp_loops p = [] then Inr (tp_baseLoop p, p)
      else let loop = tp_loops p ! tp_next p; next = tp_next p + 1 in
        Inr (loop, p\<lparr>tp_next := if length (tp_loops p) \<le> next then 0 else next\<rparr>))"

definition getLoopForHash :: "nat \<Rightarrow> loop_pool \<Rightarrow> nat" where
  "getLoopForHash hashCode p =
     (if tp_loops p \<noteq> [] then tp_loops p ! (hashCode mod length (tp_loops p)) else tp_baseLoop p)"

definition getAllLoops :: "loop_pool \<Rightarrow> nat list res" where
  "getAllLoops p = cassert (tp_started p) (Inr (if tp_loops p = [] then [tp_baseLoop p] else tp_loops p))"

section \<open>The server\<close>

record server_conn =
  sc_ptr :: nat
  sc_name :: string
  sc_loop :: nat
  sc_fd :: int

datatype server_call = Establish server_conn | Destroy server_conn | RemoveInLoop server_conn | Listen

record tcp_server =
  ts_loop :: nat
  ts_ipPort :: string
  ts_name :: string
  ts_pool :: loop_pool
  ts_listenning :: bool
  ts_started :: int
  ts_nextConnId :: nat
  ts_connectionMap :: "string \<rightharpoonup> server_conn"
  ts_calls :: "(nat \<times> server_call) list"

definition new_TcpServer :: "nat \<Rightarrow> string \<Rightarrow> string \<Rightarrow> tcp_server" where
  "new_TcpServer loop ipPort name = \<lparr>ts_loop = loop, ts_ipPort = ipPort, ts_name = name,
     ts_pool = new_EventLoopThreadPool loop name, ts_listenning = False, ts_started = 0, ts_nextConnId = 1,
     ts_connectionMap = Map.empty, ts_calls = []\<rparr>"

definition ts_call :: "nat \<Rightarrow> server_call \<Rightarrow> tcp_server \<Rightarrow> tcp_server" where
  "ts_call loop c s = s\<lparr>ts_calls := ts_calls s @ [(loop, c)]\<rparr>"

definition server_setThreadNum :: "int \<Rightarrow> tcp_server \<Rightarrow> tcp_server res" where
  "server_setThreadNum n s = cassert (0 \<le> n) (Inr (s\<lparr>ts_pool := pool_setThreadNum n (ts_pool s)\<rparr>))"

definition server_start :: "(int \<Rightarrow> nat) \<Rightarrow> bool \<Rightarrow> tcp_server \<Rightarrow> tcp_server res" where
  "server_start addr cb s =
     (let s1 = s\<lparr>ts_started := ts_started s + 1\<rparr> in
      if ts_started s = 0
      then bindR (pool_start addr cb (ts_pool s1)) (\<lambda>(p, init).
        cassert (\<not> ts_listenning s1) (Inr (ts_call (ts_loop s1) Listen (s1\<lparr>ts_pool := p\<rparr>))))
      else Inr s1)"

text \<open>\<open>-%s#%d\<close>; the buffer of 64 bytes holds any address and number.\<close>

definition conn_name :: "tcp_server \<Rightarrow> nat \<Rightarrow> string" where
  "conn_name s i = ts_name s @ ''-'' @ ts_ipPort s @ ''#'' @ dec_digits i"

definition server_newConnection :: "nat \<Rightarrow> int \<Rightarrow> tcp_server \<Rightarrow> tcp_server res" where
  "server_newConnection ptr sockfd s =
     bindR (getNextLoop (ts_pool s)) (\<lambda>(ioLoop, p).
       let connName = conn_name s (ts_nextConnId s);
           conn = \<lparr>sc_ptr = ptr, sc_name = connName, sc_loop = ioLoop, sc_fd = sockfd\<rparr> in
       Inr (ts_call ioLoop (Establish conn)
         (s\<lparr>ts_pool := p, ts_nextConnId := ts_nextConnId s + 1, ts_connectionMap := (ts_connectionMap s)(connName \<mapsto> conn)\<rparr>)))"

definition server_removeConnection :: "server_conn \<Rightarrow> tcp_server \<Rightarrow> tcp_server" where
  "server_removeConnection conn s = ts_call (ts_loop s) (RemoveInLoop conn) s"

definition server_removeConnectionInLoop :: "server_conn \<Rightarrow> tcp_server \<Rightarrow> tcp_server res" where
  "server_removeConnectionInLoop conn s =
     cassert (ts_connectionMap s (sc_name conn) \<noteq> None)
       (Inr (ts_call (sc_loop conn) (Destroy conn)
         (s\<lparr>ts_connectionMap := (ts_connectionMap s)(sc_name conn := None)\<rparr>)))"

text \<open>The destructor, on a list of the connections in the map.\<close>

definition destroy_TcpServer :: "server_conn list \<Rightarrow> tcp_server \<Rightarrow> tcp_server" where
  "destroy_TcpServer conns s = fold (\<lambda>c t. ts_call (sc_loop c) (Destroy c) t) conns (s\<lparr>ts_connectionMap := Map.empty\<rparr>)"

section \<open>The client\<close>

record tcp_client =
  tc_connector :: connector
  tc_retry :: bool
  tc_connect :: bool
  tc_nextConnId :: nat
  tc_connection :: "nat option"
  tc_name :: string
  tc_calls :: "(nat \<times> string) list"

definition new_TcpClient :: "epoll \<Rightarrow> string \<Rightarrow> tcp_client" where
  "new_TcpClient ep name = \<lparr>tc_connector = new_Connector ep, tc_retry = False, tc_connect = True, tc_nextConnId = 1,
     tc_connection = None, tc_name = name, tc_calls = []\<rparr>"

definition tc_call :: "nat \<Rightarrow> string \<Rightarrow> tcp_client \<Rightarrow> tcp_client" where
  "tc_call conn what c = c\<lparr>tc_calls := tc_calls c @ [(conn, what)]\<rparr>"

definition client_enableRetry :: "tcp_client \<Rightarrow> tcp_client" where
  "client_enableRetry c = c\<lparr>tc_retry := True\<rparr>"

definition client_connect :: "bool \<Rightarrow> connect_env \<Rightarrow> tcp_client \<Rightarrow> tcp_client res" where
  "client_connect here env c =
     bindR (connector_start here env (tc_connector c)) (\<lambda>k. Inr (c\<lparr>tc_connect := True, tc_connector := k\<rparr>))"

definition client_disconnect :: "tcp_client \<Rightarrow> tcp_client" where
  "client_disconnect c =
     (let c1 = c\<lparr>tc_connect := False\<rparr> in
      case tc_connection c1 of None \<Rightarrow> c1 | Some conn \<Rightarrow> tc_call conn ''shutdown'' c1)"

definition client_stop :: "tcp_client \<Rightarrow> tcp_client" where
  "client_stop c = c\<lparr>tc_connect := False, tc_connector := connector_stop (tc_connector c)\<rparr>"

definition client_newConnection :: "nat \<Rightarrow> tcp_client \<Rightarrow> tcp_client" where
  "client_newConnection conn c =
     tc_call conn ''connectEstablished'' (c\<lparr>tc_nextConnId := tc_nextConnId c + 1, tc_connection := Some conn\<rparr>)"

definition client_removeConnection :: "connect_env \<Rightarrow> nat \<Rightarrow> tcp_client \<Rightarrow> tcp_client res" where
  "client_removeConnection env conn c =
     cassert (tc_connection c = Some conn)
       (let c1 = tc_call conn ''connectDestroyed'' (c\<lparr>tc_connection := None\<rparr>) in
        if tc_retry c1 \<and> tc_connect c1
        then bindR (connector_restart env (tc_connector c1)) (\<lambda>k. Inr (c1\<lparr>tc_connector := k\<rparr>))
        else Inr c1)"

text \<open>\<open>unique\<close>: whether the client holds the only reference to its connection.\<close>

definition destroy_TcpClient :: "bool \<Rightarrow> tcp_client \<Rightarrow> tcp_client" where
  "destroy_TcpClient unique c = (case tc_connection c of
       Some conn \<Rightarrow> (let c1 = tc_call conn ''setCloseCallback'' c in if unique then tc_call conn ''forceClose'' c1 else c1)
     | None \<Rightarrow> c\<lparr>tc_connector := connector_stop (tc_connector c)\<rparr>)"

section \<open>A running server\<close>

text \<open>
  Connections are accepted; each may close once, which queues its removal to the server's
  loop; the loop runs the removals in order. \<open>sy_accepted\<close> and \<open>sy_removed\<close> record the history.
\<close>

record server_sys =
  sy_server :: tcp_server
  sy_pending :: "server_conn list"
  sy_accepted :: "server_conn list"
  sy_removed :: "server_conn list"

datatype server_op = SAccept nat int | SClose server_conn | SRemove

fun server_exec :: "server_op \<Rightarrow> server_sys \<Rightarrow> server_sys res option" where
  "server_exec (SAccept ptr fd) y = Some (bindR (server_newConnection ptr fd (sy_server y)) (\<lambda>s.
     case ts_connectionMap s (conn_name (sy_server y) (ts_nextConnId (sy_server y))) of
       None \<Rightarrow> Inl MemoryError
     | Some c \<Rightarrow> Inr (y\<lparr>sy_server := s, sy_accepted := sy_accepted y @ [c]\<rparr>)))"
| "server_exec (SClose c) y =
     (if c \<in> set (sy_accepted y) \<and> c \<notin> set (sy_pending y) \<and> c \<notin> set (sy_removed y)
      then Some (Inr (y\<lparr>sy_server := server_removeConnection c (sy_server y), sy_pending := sy_pending y @ [c]\<rparr>)) else None)"
| "server_exec SRemove y =
     (case sy_pending y of
        [] \<Rightarrow> None
      | c # cs \<Rightarrow> Some (bindR (server_removeConnectionInLoop c (sy_server y)) (\<lambda>s.
          Inr (y\<lparr>sy_server := s, sy_pending := cs, sy_removed := sy_removed y @ [c]\<rparr>))))"

definition server_step :: "server_sys \<Rightarrow> server_sys \<Rightarrow> bool" where
  "server_step y z \<longleftrightarrow> (\<exists>op. server_exec op y = Some (Inr z))"

definition started_server :: "nat \<Rightarrow> string \<Rightarrow> string \<Rightarrow> int \<Rightarrow> (int \<Rightarrow> nat) \<Rightarrow> tcp_server res" where
  "started_server loop ipPort name n addr =
     bindR (server_setThreadNum n (new_TcpServer loop ipPort name)) (server_start addr False)"

text \<open>The loop the \<open>i\<close>-th accepted connection is given.\<close>

definition nth_loop :: "loop_pool \<Rightarrow> nat \<Rightarrow> nat" where
  "nth_loop p i = (if tp_loops p = [] then tp_baseLoop p else tp_loops p ! (i mod length (tp_loops p)))"

definition pool_at :: "loop_pool \<Rightarrow> nat \<Rightarrow> bool" where
  "pool_at p i \<longleftrightarrow> tp_started p \<and> (tp_loops p \<noteq> [] \<longrightarrow> tp_next p = i mod length (tp_loops p))"

lemma getNextLoop_round_robin:
  assumes "pool_at p i"
  shows "\<exists>p'. getNextLoop p = Inr (nth_loop p i, p') \<and> pool_at p' (Suc i) \<and> tp_loops p' = tp_loops p \<and> tp_baseLoop p' = tp_baseLoop p"
proof -
  have "length (tp_loops p) \<le> Suc (i mod length (tp_loops p)) \<longleftrightarrow> Suc (i mod length (tp_loops p)) = length (tp_loops p)"
    if "tp_loops p \<noteq> []"
  proof -
    have "i mod length (tp_loops p) < length (tp_loops p)" using that by simp
    then show ?thesis by linarith
  qed
  with assms show ?thesis
    by (cases "tp_loops p = []") (simp_all add: getNextLoop_def pool_at_def nth_loop_def Let_def mod_Suc)
qed

lemma pool_spawn_loops:
  "pool_spawn addr i p = Inr p' \<Longrightarrow> tp_loops p' = tp_loops p @ map addr [i..tp_numThreads p - 1] \<and>
     tp_started p' = tp_started p \<and> tp_next p' = tp_next p \<and> tp_baseLoop p' = tp_baseLoop p"
proof (induction addr i p arbitrary: p' rule: pool_spawn.induct)
  case (1 addr i p)
  show ?case
  proof (cases "i < tp_numThreads p")
    case True
    let ?q = "p\<lparr>tp_threads := tp_threads p @ [threadFunc_publish (addr i) (new_EventLoopThread\<lparr>lt_running := True\<rparr>)],
      tp_loops := tp_loops p @ [addr i]\<rparr>"
    have st: "startLoop (addr i) new_EventLoopThread =
        Inr (addr i, threadFunc_publish (addr i) (new_EventLoopThread\<lparr>lt_running := True\<rparr>))"
      by (simp add: startLoop_def new_EventLoopThread_def threadFunc_publish_def)
    have "pool_spawn addr (i + 1) ?q = Inr p'" using 1(2) True st by (simp add: pool_spawn.simps [of addr i p])
    with 1(1) [OF True st HOL.refl] True show ?thesis by (simp add: upto_rec1)
  next
    case False
    with 1(2) show ?thesis by (simp add: pool_spawn.simps [of addr i p])
  qed
qed

lemma pool_spawn_returns: "\<exists>p'. pool_spawn addr i p = Inr p'"
proof (induction addr i p rule: pool_spawn.induct)
  case (1 addr i p)
  show ?case
  proof (cases "i < tp_numThreads p")
    case True
    have st: "startLoop (addr i) new_EventLoopThread =
        Inr (addr i, threadFunc_publish (addr i) (new_EventLoopThread\<lparr>lt_running := True\<rparr>))"
      by (simp add: startLoop_def new_EventLoopThread_def threadFunc_publish_def)
    with 1 [OF True st HOL.refl] True show ?thesis by (simp add: pool_spawn.simps [of addr i p])
  qed (simp add: pool_spawn.simps [of addr i p])
qed

text \<open>Starting a server sets its loops up once.\<close>

lemma started_server_ok:
  assumes "0 \<le> n"
  shows "\<exists>s. started_server loop ipPort name n addr = Inr s \<and> pool_at (ts_pool s) 0 \<and> tp_loops (ts_pool s) = map addr [0..n - 1] \<and>
    tp_baseLoop (ts_pool s) = loop \<and> ts_connectionMap s = Map.empty \<and> ts_nextConnId s = 1 \<and> ts_calls s = [(loop, Listen)]"
proof -
  let ?p = "(new_EventLoopThreadPool loop name)\<lparr>tp_numThreads := n, tp_started := True\<rparr>"
  obtain p' where p': "pool_spawn addr 0 ?p = Inr p'" using pool_spawn_returns by blast
  from pool_spawn_loops [OF this] have "tp_loops p' = map addr [0..n - 1]" "tp_started p'" "tp_next p' = 0" "tp_baseLoop p' = loop"
    by (simp_all add: new_EventLoopThreadPool_def)
  with p' assms show ?thesis
    by (simp add: started_server_def server_setThreadNum_def server_start_def pool_start_def pool_setThreadNum_def
        new_TcpServer_def new_EventLoopThreadPool_def ts_call_def pool_at_def Let_def)
qed

definition established :: "tcp_server \<Rightarrow> server_conn list" where
  "established s = concat (map (\<lambda>(l, c). case c of Establish x \<Rightarrow> [x] | _ \<Rightarrow> []) (ts_calls s))"

definition destroyed :: "tcp_server \<Rightarrow> server_conn list" where
  "destroyed s = concat (map (\<lambda>(l, c). case c of Destroy x \<Rightarrow> [x] | _ \<Rightarrow> []) (ts_calls s))"

definition sys_inv :: "(nat \<Rightarrow> nat) \<Rightarrow> server_sys \<Rightarrow> bool" where
  "sys_inv lp y \<longleftrightarrow> (let s = sy_server y; n = length (sy_accepted y) in
     pool_at (ts_pool s) n \<and> nth_loop (ts_pool s) = lp \<and> ts_nextConnId s = n + 1 \<and>
     map sc_name (sy_accepted y) = map (conn_name s) [1..<n + 1] \<and> map sc_loop (sy_accepted y) = map lp [0..<n] \<and>
     established s = sy_accepted y \<and> destroyed s = sy_removed y \<and>
     distinct (sy_removed y @ sy_pending y) \<and> set (sy_removed y @ sy_pending y) \<subseteq> set (sy_accepted y) \<and>
     (\<forall>nm. ts_connectionMap s nm = find (\<lambda>c. sc_name c = nm \<and> c \<notin> set (sy_removed y)) (sy_accepted y)))"

lemma conn_name_inject [simp]: "conn_name s i = conn_name s j \<longleftrightarrow> i = j"
  by (simp add: conn_name_def)

lemma conn_name_cong: "ts_name s = ts_name t \<Longrightarrow> ts_ipPort s = ts_ipPort t \<Longrightarrow> conn_name s = conn_name t"
  by (simp add: conn_name_def fun_eq_iff)

lemma names_distinct: "sys_inv lp y \<Longrightarrow> distinct (map sc_name (sy_accepted y))"
  by (simp add: sys_inv_def Let_def distinct_map inj_on_def)

lemma find_append: "find P (xs @ ys) = (case find P xs of None \<Rightarrow> find P ys | Some x \<Rightarrow> Some x)"
  by (induction xs) auto

lemma find_unique:
  assumes "distinct (map f xs)" and "x \<in> set xs" and "P x"
  shows "find (\<lambda>y. f y = f x \<and> P y) xs = Some x"
  using assms by (induction xs) auto

lemma accept_inv:
  assumes "sys_inv lp y"
  shows "\<exists>z. server_exec (SAccept ptr fd) y = Some (Inr z) \<and> sys_inv lp z"
proof -
  let ?s = "sy_server y" and ?n = "length (sy_accepted y)"
  note inv = assms [unfolded sys_inv_def Let_def]
  from getNextLoop_round_robin [of "ts_pool ?s" ?n] inv obtain p' where
    p': "getNextLoop (ts_pool ?s) = Inr (lp ?n, p')" "pool_at p' (Suc ?n)" "tp_loops p' = tp_loops (ts_pool ?s)"
      "tp_baseLoop p' = tp_baseLoop (ts_pool ?s)" by auto
  let ?nm = "conn_name ?s (?n + 1)"
  let ?c = "\<lparr>sc_ptr = ptr, sc_name = ?nm, sc_loop = lp ?n, sc_fd = fd\<rparr>"
  let ?t = "ts_call (lp ?n) (Establish ?c) (?s\<lparr>ts_pool := p', ts_nextConnId := ?n + 2, ts_connectionMap := (ts_connectionMap ?s)(?nm \<mapsto> ?c)\<rparr>)"
  let ?z = "y\<lparr>sy_server := ?t, sy_accepted := sy_accepted y @ [?c]\<rparr>"
  have ex: "server_exec (SAccept ptr fd) y = Some (Inr ?z)"
    using p'(1) inv by (simp add: server_newConnection_def ts_call_def Let_def)
  have names: "conn_name ?t = conn_name ?s" by (rule conn_name_cong) (simp_all add: ts_call_def)
  have "set (map sc_name (sy_accepted y)) = conn_name ?s ` {1..<?n + 1}" using inv by (metis set_map set_upt)
  then have nm: "?nm \<notin> sc_name ` set (sy_accepted y)" by auto
  have fresh: "?c \<notin> set (sy_removed y)" using nm inv by force
  have none: "find (\<lambda>c. sc_name c = ?nm \<and> c \<notin> set (sy_removed y)) (sy_accepted y) = None"
    using nm by (force simp: find_None_iff)
  have loops: "nth_loop p' = lp" using inv p'(3,4) by (auto simp: nth_loop_def fun_eq_iff)
  have "sys_inv lp ?z"
    unfolding sys_inv_def Let_def using inv p'(2) names fresh none loops
    by (auto simp: ts_call_def established_def destroyed_def find_append split: option.splits)
  with ex show ?thesis by blast
qed

lemma close_inv:
  assumes "sys_inv lp y" and "server_exec (SClose c) y = Some r"
  shows "\<exists>z. r = Inr z \<and> sys_inv lp z"
proof -
  let ?t = "server_removeConnection c (sy_server y)"
  let ?z = "y\<lparr>sy_server := ?t, sy_pending := sy_pending y @ [c]\<rparr>"
  from assms(2) have c: "c \<in> set (sy_accepted y)" "c \<notin> set (sy_pending y)" "c \<notin> set (sy_removed y)" and r: "r = Inr ?z"
    by (auto split: if_splits)
  have "conn_name ?t = conn_name (sy_server y)"
    by (rule conn_name_cong) (simp_all add: server_removeConnection_def ts_call_def)
  moreover have "established ?t = established (sy_server y)" "destroyed ?t = destroyed (sy_server y)"
    by (simp_all add: server_removeConnection_def ts_call_def established_def destroyed_def)
  moreover have "ts_pool ?t = ts_pool (sy_server y)" "ts_nextConnId ?t = ts_nextConnId (sy_server y)"
    "ts_connectionMap ?t = ts_connectionMap (sy_server y)" by (simp_all add: server_removeConnection_def ts_call_def)
  ultimately have "sys_inv lp ?z" using assms(1) c by (simp add: sys_inv_def Let_def del: upt_Suc)
  with r show ?thesis by blast
qed

lemma remove_inv:
  assumes "sys_inv lp y" and "server_exec SRemove y = Some r"
  shows "\<exists>z. r = Inr z \<and> sys_inv lp z"
proof -
  let ?s = "sy_server y"
  note inv = assms(1) [unfolded sys_inv_def Let_def]
  from assms(2) obtain c cs where c: "sy_pending y = c # cs" by (auto split: list.splits)
  have live: "c \<in> set (sy_accepted y)" "c \<notin> set (sy_removed y)" using inv c by auto
  note d = names_distinct [OF assms(1)]
  have "ts_connectionMap ?s (sc_name c) = Some c"
    using inv find_unique [OF d live(1), of "\<lambda>x. x \<notin> set (sy_removed y)"] live(2) by simp
  let ?t = "ts_call (sc_loop c) (Destroy c) (?s\<lparr>ts_connectionMap := (ts_connectionMap ?s)(sc_name c := None)\<rparr>)"
  let ?z = "y\<lparr>sy_server := ?t, sy_pending := cs, sy_removed := sy_removed y @ [c]\<rparr>"
  have r: "r = Inr ?z"
    using assms(2) c \<open>ts_connectionMap ?s (sc_name c) = Some c\<close> by (simp add: server_removeConnectionInLoop_def)
  have names: "conn_name ?t = conn_name ?s" by (rule conn_name_cong) (simp_all add: ts_call_def)
  have same: "x = c" if "x \<in> set (sy_accepted y)" "sc_name x = sc_name c" for x
    using d that live(1) by (simp add: distinct_map inj_on_def)
  have "((ts_connectionMap ?s)(sc_name c := None)) nm =
      find (\<lambda>x. sc_name x = nm \<and> x \<notin> insert c (set (sy_removed y))) (sy_accepted y)" for nm
  proof (cases "nm = sc_name c")
    case True
    then have "find (\<lambda>x. sc_name x = nm \<and> x \<notin> insert c (set (sy_removed y))) (sy_accepted y) = None"
      using same by (auto simp: find_None_iff)
    with True show ?thesis by simp
  next
    case False
    then have "find (\<lambda>x. sc_name x = nm \<and> x \<notin> insert c (set (sy_removed y))) (sy_accepted y)
        = find (\<lambda>x. sc_name x = nm \<and> x \<notin> set (sy_removed y)) (sy_accepted y)" by (intro find_cong) auto
    with False inv show ?thesis by simp
  qed
  then have "sys_inv lp ?z"
    unfolding sys_inv_def Let_def using inv c live names
    by (auto simp: ts_call_def established_def destroyed_def)
  with r show ?thesis by blast
qed

lemma server_exec_inv:
  assumes "sys_inv lp y" and "server_exec op y = Some r"
  shows "\<exists>z. r = Inr z \<and> sys_inv lp z"
proof (cases op)
  case (SAccept ptr fd)
  with assms show ?thesis using accept_inv [OF assms(1), of ptr fd] by auto
next
  case (SClose c)
  with assms show ?thesis using close_inv by blast
next
  case SRemove
  with assms show ?thesis using remove_inv by blast
qed

definition server_at_start :: "(nat \<Rightarrow> nat) \<Rightarrow> server_sys \<Rightarrow> bool" where
  "server_at_start lp y \<longleftrightarrow> (\<exists>loop ipPort name n addr s. 0 \<le> n \<and> started_server loop ipPort name n addr = Inr s \<and>
     y = \<lparr>sy_server = s, sy_pending = [], sy_accepted = [], sy_removed = []\<rparr> \<and> lp = nth_loop (ts_pool s))"

lemma server_start_inv:
  assumes "server_at_start lp y"
  shows "sys_inv lp y"
proof -
  from assms obtain loop ipPort name n addr s where s: "0 \<le> n" "started_server loop ipPort name n addr = Inr s"
    and y: "y = \<lparr>sy_server = s, sy_pending = [], sy_accepted = [], sy_removed = []\<rparr>" "lp = nth_loop (ts_pool s)"
    unfolding server_at_start_def by blast
  from started_server_ok [OF s(1), of loop ipPort name addr] s(2) show ?thesis
    by (auto simp: y sys_inv_def Let_def established_def destroyed_def)
qed

interpretation server: invariant_system "server_at_start lp" server_step "sys_inv lp" for lp
  by unfold_locales (auto simp: server_step_def dest: server_exec_inv server_start_inv)



text \<open>When descriptors run out, the idle one makes room to accept and close the connection.\<close>

lemma emfile_refuses_connection:
  assumes "0 < ac_idleFd a" and "0 < again"
  shows "\<exists>a'. acceptor_handleRead (Inl EMFILE) again reopened a = Inr a' \<and> ac_idleFd a' = reopened \<and>
    ac_closed a' = ac_closed a @ [ac_idleFd a, again] \<and> ac_passed a' = ac_passed a"
  using assms by (simp add: acceptor_handleRead_def socket_accept_def ac_close_def Let_def)

text \<open>A client that was stopped or disconnected does not reconnect.\<close>

lemma no_reconnect_after_stop:
  assumes "tc_connection c = Some conn" and "d = client_stop c \<or> d = client_disconnect c"
  shows "\<exists>e. client_removeConnection env conn d = Inr e \<and> tc_connector e = tc_connector d \<and> tc_connection e = None"
  using assms by (auto simp: client_removeConnection_def client_stop_def client_disconnect_def tc_call_def Let_def)

end
