(* ===== verification/Utils_LogStream.thy ===== *)
theory Utils_LogStream
  imports Decimal "HOL-Library.Signed_Division"
begin

text \<open>
  \<open>utils/LogBuffer.h\<close> and \<open>utils/LogStream.cpp\<close>: the fixed buffer a log line is built in and the
  output operators. The buffer is an array with a write position; every store is checked
  against the array, so that a line that does not fit shows as a \<open>MemoryError\<close>. \<open>%lf\<close> and the
  float arithmetic are arguments: \<open>operator<<(double)\<close> gets the formatted text,
  \<open>operator<<(float)\<close> the two integers its casts compute.
\<close>

section \<open>LogBuffer\<close>

definition normalBuffer :: nat where
  "normalBuffer = 4000"

definition maxBuffer :: nat where
  "maxBuffer = 4000 * 1000"

definition nul :: char where
  "nul = CHR 0x00"

record log_buffer =
  lb_data :: "char list"
  lb_pos :: nat

definition new_LogBuffer :: "nat \<Rightarrow> log_buffer" where
  "new_LogBuffer n = \<lparr>lb_data = replicate n nul, lb_pos = 0\<rparr>"

definition lb_reset :: "log_buffer \<Rightarrow> log_buffer" where
  "lb_reset b = b\<lparr>lb_pos := 0\<rparr>"

definition lb_bzero :: "log_buffer \<Rightarrow> log_buffer" where
  "lb_bzero b = b\<lparr>lb_data := replicate (length (lb_data b)) nul\<rparr>"

definition store_at :: "string \<Rightarrow> log_buffer \<Rightarrow> log_buffer res" where
  "store_at xs b =
     (if lb_pos b + length xs \<le> length (lb_data b)
      then Inr (b\<lparr>lb_data := blit (lb_pos b) xs (lb_data b)\<rparr>) else Inl MemoryError)"

definition appendLen :: "nat \<Rightarrow> log_buffer \<Rightarrow> log_buffer" where
  "appendLen len b = b\<lparr>lb_pos := lb_pos b + len\<rparr>"

definition lb_append :: "string \<Rightarrow> log_buffer \<Rightarrow> log_buffer res" where
  "lb_append xs b =
     (if int (length (lb_data b)) - 1 - int (lb_pos b) > int (length xs)
      then bindR (store_at xs b) (\<lambda>b1. Inr (appendLen (length xs) b1)) else Inr b)"

definition appendString :: "string \<Rightarrow> log_buffer \<Rightarrow> log_buffer res" where
  "appendString xs b = bindR (store_at xs b) (\<lambda>b1. Inr (appendLen (length xs) b1))"

definition lb_avail :: "log_buffer \<Rightarrow> int" where
  "lb_avail b = int (length (lb_data b)) - int (lb_pos b)"

text \<open>What \<open>data()\<close> and \<open>length()\<close> give to the output: the bytes up to the write position.\<close>

definition lb_text :: "log_buffer \<Rightarrow> string" where
  "lb_text b = take (lb_pos b) (lb_data b)"

section \<open>Numbers\<close>

definition digits_table :: string where
  "digits_table = ''9876543210123456789''"

function convert_loop :: "int \<Rightarrow> string" where
  "convert_loop i =
     (let lsd = i smod 10; i1 = i sdiv 10; c = digits_table ! nat (9 + lsd) in
      if i1 \<noteq> 0 then c # convert_loop i1 else [c])"
  by pat_completeness auto

termination
proof (relation "measure (\<lambda>i. nat \<bar>i\<bar>)", goal_cases)
  case (2 i x xa xb)
  then have "xa = i sdiv 10" "xa \<noteq> 0" by auto
  then have "\<bar>xa\<bar> = \<bar>i\<bar> div 10" "i \<noteq> 0" by (auto simp: signed_divide_int_def abs_mult sgn_if)
  then show ?case by auto
qed simp

definition convert :: "int \<Rightarrow> string" where
  "convert value = rev (convert_loop value @ (if value < 0 then ''-'' else []))"

definition digitsHex :: string where
  "digitsHex = ''0123456789ABCDEF''"

function convertHex_loop :: "nat \<Rightarrow> string" where
  "convertHex_loop i =
     (let lsd = i mod 16; i1 = i div 16; c = digitsHex ! lsd in
      if i1 \<noteq> 0 then c # convertHex_loop i1 else [c])"
  by pat_completeness auto

termination
  by (relation "measure id") auto

definition convertHex :: "64 word \<Rightarrow> string" where
  "convertHex value = rev (convertHex_loop (unat value))"

declare convert_loop.simps [simp del] convertHex_loop.simps [simp del]

section \<open>Output operators\<close>

text \<open>\<open>strlen\<close> stops at the first NUL.\<close>

definition c_text :: "string \<Rightarrow> string" where
  "c_text s = takeWhile (\<lambda>c. c \<noteq> nul) s"

definition stream_cstr :: "string \<Rightarrow> log_buffer \<Rightarrow> log_buffer res" where
  "stream_cstr p b = appendString (c_text p) b"

definition stream_ustr :: "string \<Rightarrow> log_buffer \<Rightarrow> log_buffer res" where
  "stream_ustr p b = stream_cstr p b"

definition stream_string :: "string \<Rightarrow> log_buffer \<Rightarrow> log_buffer res" where
  "stream_string s b = stream_cstr s b"

definition stream_bool :: "bool \<Rightarrow> log_buffer \<Rightarrow> log_buffer res" where
  "stream_bool value b = (if value then stream_cstr ''true'' b else stream_cstr ''false'' b)"

text \<open>\<open>convert(m_logBuffer.current(), value)\<close> stores the digits and a final NUL.\<close>

definition put_converted :: "string \<Rightarrow> log_buffer \<Rightarrow> log_buffer res" where
  "put_converted text b = bindR (store_at (text @ [nul]) b) (\<lambda>b1. Inr (appendLen (length text) b1))"

definition stream_char :: "8 word \<Rightarrow> log_buffer \<Rightarrow> log_buffer res" where
  "stream_char value b = put_converted (convert (sint value)) b"

definition stream_uchar :: "8 word \<Rightarrow> log_buffer \<Rightarrow> log_buffer res" where
  "stream_uchar value b = put_converted (convert (uint value)) b"

definition stream_short :: "16 word \<Rightarrow> log_buffer \<Rightarrow> log_buffer res" where
  "stream_short value b = put_converted (convert (sint value)) b"

definition stream_ushort :: "16 word \<Rightarrow> log_buffer \<Rightarrow> log_buffer res" where
  "stream_ushort value b = put_converted (convert (uint value)) b"

definition stream_int :: "32 word \<Rightarrow> log_buffer \<Rightarrow> log_buffer res" where
  "stream_int value b = put_converted (convert (sint value)) b"

definition stream_uint :: "32 word \<Rightarrow> log_buffer \<Rightarrow> log_buffer res" where
  "stream_uint value b = put_converted (convert (uint value)) b"

definition stream_long :: "64 word \<Rightarrow> log_buffer \<Rightarrow> log_buffer res" where
  "stream_long value b = put_converted (convert (sint value)) b"

definition stream_ulong :: "64 word \<Rightarrow> log_buffer \<Rightarrow> log_buffer res" where
  "stream_ulong value b = put_converted (convert (uint value)) b"

definition stream_longlong :: "64 word \<Rightarrow> log_buffer \<Rightarrow> log_buffer res" where
  "stream_longlong value b = put_converted (convert (sint value)) b"

definition stream_ulonglong :: "64 word \<Rightarrow> log_buffer \<Rightarrow> log_buffer res" where
  "stream_ulonglong value b = put_converted (convert (uint value)) b"

text \<open>
  \<open>snprintf(current(), n, ...)\<close> stores at most \<open>n - 1\<close> characters and a NUL, and returns the
  length of the whole text, by which the position moves.
\<close>

definition put_snprintf :: "nat \<Rightarrow> string \<Rightarrow> log_buffer \<Rightarrow> log_buffer res" where
  "put_snprintf n text b =
     bindR (store_at (take (n - 1) text @ [nul]) b) (\<lambda>b1. Inr (appendLen (length text) b1))"

definition iFloatMaxStrLen :: nat where
  "iFloatMaxStrLen = 16"

definition iDoubleMaxStrLen :: nat where
  "iDoubleMaxStrLen = 32"

text \<open>\<open>%.6d\<close>: at least six digits after the sign.\<close>

definition six_digits :: "int \<Rightarrow> string" where
  "six_digits n =
     (let ds = dec_digits (nat \<bar>n\<bar>) in
      (if n < 0 then ''-'' else []) @ replicate (6 - length ds) CHR ''0'' @ ds)"

definition stream_float :: "int \<Rightarrow> int \<Rightarrow> log_buffer \<Rightarrow> log_buffer res" where
  "stream_float iValue millionths b =
     put_snprintf iFloatMaxStrLen (show_int iValue @ ''.'' @ six_digits millionths) b"

definition stream_double :: "string \<Rightarrow> log_buffer \<Rightarrow> log_buffer res" where
  "stream_double formatted b = put_snprintf iDoubleMaxStrLen formatted b"

definition stream_pointer :: "64 word \<Rightarrow> log_buffer \<Rightarrow> log_buffer res" where
  "stream_pointer p b =
     bindR (store_at (''0x'' @ convertHex p @ [nul]) b) (\<lambda>b1. Inr (appendLen (length (convertHex p) + 2) b1))"

section \<open>The text of numbers\<close>

lemma sdiv_smod_10:
  "\<bar>i sdiv 10\<bar> = \<bar>i\<bar> div (10::int)" "i smod 10 = sgn i * (\<bar>i\<bar> mod 10)"
  by (auto simp: signed_divide_int_def signed_modulo_int_def abs_mult sgn_if)

lemma digits_table_nth:
  assumes "-10 < d" and "d < (10::int)"
  shows "digits_table ! nat (9 + d) = char_of (48 + nat \<bar>d\<bar>)"
proof -
  have "d \<in> {-9, -8, -7, -6, -5, -4, -3, -2, -1, 0, 1, 2, 3, 4, 5, 6, 7, 8, 9}"
    using assms unfolding insert_iff empty_iff by presburger
  then show ?thesis
    by (elim insertE emptyE) (simp_all add: digits_table_def char_of_eq_iff eq_commute [of _ "char_of _"])
qed

lemma convert_loop_digits: "convert_loop i = rev (dec_digits (nat \<bar>i\<bar>))"
proof (induction i rule: convert_loop.induct)
  case (1 i)
  have ab: "nat \<bar>i sdiv 10\<bar> = nat \<bar>i\<bar> div 10" by (simp add: sdiv_smod_10 nat_div_distrib)
  have z: "i sdiv 10 = 0 \<longleftrightarrow> nat \<bar>i\<bar> < 10"
    by (metis abs_eq_0 div_pos_pos_trivial sdiv_smod_10(1) ab div_less div_eq_0_iff nat_0_iff abs_le_zero_iff zero_neq_numeral)
  have "- 10 < i smod 10" "i smod 10 < 10" "nat \<bar>i smod 10\<bar> = nat \<bar>i\<bar> mod 10"
    by (auto simp: sdiv_smod_10 sgn_if abs_mult nat_mod_distrib)
  then have "digits_table ! nat (9 + i smod 10) = char_of (48 + nat \<bar>i\<bar> mod 10)"
    using digits_table_nth by simp
  with 1 z ab show ?case
    by (subst convert_loop.simps, subst dec_digits.simps) (simp add: Let_def)
qed

lemma convert_show_int: "convert value = show_int value"
  by (simp add: convert_def convert_loop_digits show_int_def)

definition hex_value :: "string \<Rightarrow> nat" where
  "hex_value ds = foldl (\<lambda>v c. 16 * v + find_char c digitsHex) 0 ds"

lemma digitsHex_nth: "d < 16 \<Longrightarrow> find_char (digitsHex ! d) digitsHex = d"
proof -
  have "\<forall>d \<in> {0..<16}. find_char (digitsHex ! d) digitsHex = d" by code_simp
  then show "d < 16 \<Longrightarrow> find_char (digitsHex ! d) digitsHex = d" by simp
qed

lemma convertHex_loop_value: "hex_value (rev (convertHex_loop n)) = n"
proof (induction n rule: convertHex_loop.induct)
  case (1 i)
  have d: "find_char (digitsHex ! (i mod 16)) digitsHex = i mod 16" by (rule digitsHex_nth) simp
  show ?case
  proof (cases "i div 16 = 0")
    case True
    with d show ?thesis by (subst convertHex_loop.simps) (simp add: Let_def hex_value_def)
  next
    case False
    with 1 have "hex_value (rev (convertHex_loop (i div 16))) = i div 16" by simp
    with False d show ?thesis
      by (subst convertHex_loop.simps) (simp add: Let_def hex_value_def)
  qed
qed

section \<open>The text of a line\<close>

text \<open>The overloads a statement may use, and the text each is meant to print.\<close>

datatype log_item =
    LBool bool | LChar "8 word" | LUChar "8 word" | LShort "16 word" | LUShort "16 word"
  | LInt "32 word" | LUInt "32 word" | LLong "64 word" | LULong "64 word"
  | LLongLong "64 word" | LULongLong "64 word" | LCStr string | LUStr string | LString string
  | LFloat int int | LDouble string | LPointer "64 word"

fun stream_item :: "log_item \<Rightarrow> log_buffer \<Rightarrow> log_buffer res" where
  "stream_item (LBool v) = stream_bool v"
| "stream_item (LChar v) = stream_char v"
| "stream_item (LUChar v) = stream_uchar v"
| "stream_item (LShort v) = stream_short v"
| "stream_item (LUShort v) = stream_ushort v"
| "stream_item (LInt v) = stream_int v"
| "stream_item (LUInt v) = stream_uint v"
| "stream_item (LLong v) = stream_long v"
| "stream_item (LULong v) = stream_ulong v"
| "stream_item (LLongLong v) = stream_longlong v"
| "stream_item (LULongLong v) = stream_ulonglong v"
| "stream_item (LCStr s) = stream_cstr s"
| "stream_item (LUStr s) = stream_ustr s"
| "stream_item (LString s) = stream_string s"
| "stream_item (LFloat i m) = stream_float i m"
| "stream_item (LDouble s) = stream_double s"
| "stream_item (LPointer p) = stream_pointer p"

fun stream_items :: "log_item list \<Rightarrow> log_buffer \<Rightarrow> log_buffer res" where
  "stream_items [] b = Inr b"
| "stream_items (x # xs) b = bindR (stream_item x b) (stream_items xs)"

fun item_text :: "log_item \<Rightarrow> string" where
  "item_text (LBool v) = (if v then ''true'' else ''false'')"
| "item_text (LChar v) = show_int (sint v)"
| "item_text (LUChar v) = show_int (uint v)"
| "item_text (LShort v) = show_int (sint v)"
| "item_text (LUShort v) = show_int (uint v)"
| "item_text (LInt v) = show_int (sint v)"
| "item_text (LUInt v) = show_int (uint v)"
| "item_text (LLong v) = show_int (sint v)"
| "item_text (LULong v) = show_int (uint v)"
| "item_text (LLongLong v) = show_int (sint v)"
| "item_text (LULongLong v) = show_int (uint v)"
| "item_text (LCStr s) = c_text s"
| "item_text (LUStr s) = c_text s"
| "item_text (LString s) = c_text s"
| "item_text (LFloat i m) = show_int i @ ''.'' @ six_digits m"
| "item_text (LDouble s) = s"
| "item_text (LPointer p) = ''0x'' @ convertHex p"

text \<open>Floating-point numbers are cut when they are longer than the space \<open>snprintf\<close> is given.\<close>

fun item_fits :: "log_item \<Rightarrow> bool" where
  "item_fits (LFloat i m) = (length (show_int i @ ''.'' @ six_digits m) < iFloatMaxStrLen)"
| "item_fits (LDouble s) = (length s < iDoubleMaxStrLen)"
| "item_fits x = True"

definition log_text :: "log_item list \<Rightarrow> string" where
  "log_text xs = concat (map item_text xs)"

lemma store_text:
  assumes "lb_pos b + length xs + length ys \<le> length (lb_data b)"
  shows "bindR (store_at (xs @ ys) b) (\<lambda>b1. Inr (appendLen (length xs) b1)) =
      Inr (b\<lparr>lb_data := blit (lb_pos b) (xs @ ys) (lb_data b), lb_pos := lb_pos b + length xs\<rparr>)"
    and "lb_text (b\<lparr>lb_data := blit (lb_pos b) (xs @ ys) (lb_data b), lb_pos := lb_pos b + length xs\<rparr>) = lb_text b @ xs"
    and "length (blit (lb_pos b) (xs @ ys) (lb_data b)) = length (lb_data b)"
  using assms by (simp_all add: store_at_def appendLen_def lb_text_def blit_def)

text \<open>All operators share one contract: with room for the text and a NUL they append the text.\<close>

definition appends :: "string \<Rightarrow> log_buffer \<Rightarrow> log_buffer res \<Rightarrow> bool" where
  "appends xs b r \<longleftrightarrow>
     (lb_pos b + length xs < length (lb_data b) \<longrightarrow>
        returns r (\<lambda>b1. lb_text b1 = lb_text b @ xs \<and> lb_pos b1 = lb_pos b + length xs \<and>
                         length (lb_data b1) = length (lb_data b)))"

lemma appends_store:
  assumes "length ys \<le> 1"
  shows "appends xs b (bindR (store_at (xs @ ys) b) (\<lambda>b1. Inr (appendLen (length xs) b1)))"
  using store_text [of b xs ys] assms by (auto simp: appends_def)

lemma appends_appendString: "appends xs b (appendString xs b)"
  using appends_store [of "[]" xs b] by (simp add: appendString_def)

lemma appends_converted: "appends xs b (put_converted xs b)"
  using appends_store [of "[nul]" xs b] by (simp add: put_converted_def)

lemma appends_snprintf: "length xs < n \<Longrightarrow> appends xs b (put_snprintf n xs b)"
  using appends_store [of "[nul]" xs b] by (simp add: put_snprintf_def)

lemma appends_pointer: "appends (''0x'' @ convertHex p) b (stream_pointer p b)"
  using appends_store [of "[nul]" "''0x'' @ convertHex p" b] by (simp add: stream_pointer_def)

lemmas stream_defs = stream_bool_def stream_char_def stream_uchar_def stream_short_def stream_ushort_def
  stream_int_def stream_uint_def stream_long_def stream_ulong_def stream_longlong_def stream_ulonglong_def
  stream_cstr_def stream_ustr_def stream_string_def stream_float_def stream_double_def

lemma appends_item: "item_fits x \<Longrightarrow> appends (item_text x) b (stream_item x b)"
  by (cases x)
    (auto simp: stream_defs c_text_def nul_def convert_show_int
      intro!: appends_pointer [simplified] appends_converted appends_snprintf
        appends_appendString [of "''true''"] appends_appendString [of "''false''"] appends_appendString)

lemma stream_items_text:
  assumes "list_all item_fits xs" and "lb_pos b + length (log_text xs) < length (lb_data b)"
  shows "returns (stream_items xs b) (\<lambda>b1. lb_text b1 = lb_text b @ log_text xs \<and>
           lb_pos b1 = lb_pos b + length (log_text xs) \<and> length (lb_data b1) = length (lb_data b))"
  using assms
proof (induction xs arbitrary: b)
  case Nil
  then show ?case by (simp add: log_text_def)
next
  case (Cons x xs)
  have "appends (item_text x) b (stream_item x b)" using Cons.prems by (intro appends_item) simp
  then obtain b1 where b1: "stream_item x b = Inr b1" "lb_text b1 = lb_text b @ item_text x"
      "lb_pos b1 = lb_pos b + length (item_text x)" "length (lb_data b1) = length (lb_data b)"
    using Cons.prems(2) by (auto simp: appends_def log_text_def returns_iff)
  have "returns (stream_items xs b1) (\<lambda>b2. lb_text b2 = lb_text b1 @ log_text xs \<and>
      lb_pos b2 = lb_pos b1 + length (log_text xs) \<and> length (lb_data b2) = length (lb_data b1))"
    using Cons.prems b1 by (intro Cons.IH) (simp_all add: log_text_def)
  then show ?case by (simp add: b1 log_text_def add.assoc)
qed



text \<open>Nothing checks the room that is left: a longer string is copied over the end of the array.\<close>

lemma long_string_overflows:
  "normalBuffer < length (c_text s) \<Longrightarrow> stream_string s (new_LogBuffer normalBuffer) = Inl MemoryError"
  by (simp add: stream_string_def stream_cstr_def appendString_def store_at_def new_LogBuffer_def)

text \<open>
  A float of eight or more digits before the point is cut after 15 characters, but the position
  moves by the length of the whole text: the line then holds a NUL in place of the 16th.
\<close>

lemma float_leaves_nul:
  assumes "length (show_int i @ ''.'' @ six_digits m) = 16"
  shows "\<exists>b. stream_float i m (new_LogBuffer normalBuffer) = Inr b \<and>
     lb_text b = take 15 (show_int i @ ''.'' @ six_digits m) @ [nul]"
  using assms
  by (auto simp: stream_float_def put_snprintf_def store_at_def new_LogBuffer_def normalBuffer_def
      iFloatMaxStrLen_def appendLen_def lb_text_def blit_def)

lemma negative_fraction: "six_digits (- 500000) = ''-500000''"
  by (simp add: six_digits_def dec_digits.simps char_of_eq_iff)

end
