(* ===== verification/Core_String.thy ===== *)
theory Core_String
  imports Youth_Prelude "HOL-Library.Sublist"
begin

text \<open>
  \<open>core/StringFunction.cc\<close>. \<open>std::string::find\<close> and \<open>rfind\<close> are searches for the first and the
  last occurrence; their \<open>npos\<close> is \<open>None\<close> except in \<open>endsWith\<close>, which compares the
  result as a \<open>size_t\<close>. The loops of \<open>split\<close>, \<open>remove\<close> and \<open>replace\<close> need not end; they are
  partial functions whose value is \<open>None\<close> when the loop runs for ever.
\<close>

section \<open>std::string\<close>

definition str_find :: "string \<Rightarrow> nat \<Rightarrow> string \<Rightarrow> nat option" where
  "str_find s pos text =
     (if pos \<le> length text then map_option (\<lambda>i. pos + i) (search_at s (drop pos text)) else None)"

fun rsearch_at :: "'a list \<Rightarrow> 'a list \<Rightarrow> nat option" where
  "rsearch_at pat [] = (if pat = [] then Some 0 else None)"
| "rsearch_at pat (x # xs) =
     (case rsearch_at pat xs of
        Some i \<Rightarrow> Some (Suc i)
      | None \<Rightarrow> if prefixb pat (x # xs) then Some 0 else None)"

definition size_t_of :: "nat option \<Rightarrow> 64 word" where
  "size_t_of r = (case r of None \<Rightarrow> - 1 | Some i \<Rightarrow> word_of_nat i)"

text \<open>\<open>substr(pos)\<close> and \<open>substr(pos, n)\<close> throw when the position is behind the end.\<close>

definition substr :: "nat \<Rightarrow> nat option \<Rightarrow> string \<Rightarrow> string res" where
  "substr pos n text =
     (if pos \<le> length text
      then Inr (case n of None \<Rightarrow> drop pos text | Some k \<Rightarrow> take k (drop pos text))
      else Inl UncaughtException)"

definition to_lower :: "char \<Rightarrow> char" where
  "to_lower c = (if 65 \<le> (of_char c :: nat) \<and> (of_char c :: nat) \<le> 90 then char_of (of_char c + 32 :: nat) else c)"

definition to_upper :: "char \<Rightarrow> char" where
  "to_upper c = (if 97 \<le> (of_char c :: nat) \<and> (of_char c :: nat) \<le> 122 then char_of (of_char c - 32 :: nat) else c)"

section \<open>The functions\<close>

partial_function (option) split_loop ::
  "string \<Rightarrow> string \<Rightarrow> nat \<Rightarrow> nat option \<Rightarrow> string list \<Rightarrow> string list res option" where
  "split_loop text s pos1 pos2 result =
     (case pos2 of
        None \<Rightarrow> Some (bindR (substr pos1 None text) (\<lambda>last. Inr (result @ [last])))
      | Some p \<Rightarrow>
          (case substr pos1 (Some (p - pos1)) text of
             Inl e \<Rightarrow> Some (Inl e)
           | Inr piece \<Rightarrow>
               split_loop text s (p + length s) (str_find s (p + length s) text) (result @ [piece])))"

definition split :: "string \<Rightarrow> string \<Rightarrow> string list res option" where
  "split text s = split_loop text s 0 (str_find s 0 text) []"

partial_function (option) remove_str :: "string \<Rightarrow> string \<Rightarrow> string option" where
  "remove_str text s =
     (case str_find s 0 text of
        None \<Rightarrow> Some text
      | Some p \<Rightarrow> remove_str (take p text @ drop (p + length s) text) s)"

partial_function (option) replace_str :: "string \<Rightarrow> string \<Rightarrow> string \<Rightarrow> string option" where
  "replace_str text s r =
     (case str_find s 0 text of
        None \<Rightarrow> Some text
      | Some p \<Rightarrow> replace_str (take p text @ r @ drop (p + length s) text) s r)"

definition trimmed :: "string \<Rightarrow> string" where
  "trimmed text =
     (let str = dropWhile isspace text in rev (dropWhile isspace (rev str)))"

definition toLower :: "string \<Rightarrow> string" where
  "toLower text = map to_lower text"

definition toUpper :: "string \<Rightarrow> string" where
  "toUpper text = map to_upper text"

definition startsWith :: "string \<Rightarrow> string \<Rightarrow> bool" where
  "startsWith text str \<longleftrightarrow> str_find str 0 text = Some 0"

definition endsWith :: "string \<Rightarrow> string \<Rightarrow> bool" where
  "endsWith text str \<longleftrightarrow>
     size_t_of (rsearch_at str text) = word_of_nat (length text) - word_of_nat (length str)"

definition contains :: "string \<Rightarrow> string \<Rightarrow> bool" where
  "contains text str \<longleftrightarrow> str_find str 0 text \<noteq> None"

fun isLower :: "string \<Rightarrow> bool" where
  "isLower [] = True"
| "isLower (c # cs) =
     (if (of_char c :: nat) < 97 \<or> (of_char c :: nat) > 122 then False else isLower cs)"

fun isUpper :: "string \<Rightarrow> bool" where
  "isUpper [] = True"
| "isUpper (c # cs) =
     (if (of_char c :: nat) < 65 \<or> (of_char c :: nat) > 90 then False else isUpper cs)"

section \<open>Occurrences\<close>

lemma search_at_bound: "search_at pat s = Some i \<Longrightarrow> i + length pat \<le> length s"
  using search_at_Some by blast

lemma search_at_split:
  assumes "search_at pat s = Some i"
  shows "s = take i s @ pat @ drop (i + length pat) s"
proof -
  have "drop i s = take (length pat) (drop i s) @ drop (length pat) (drop i s)"
    by (rule append_take_drop_id [symmetric])
  with search_at_Some [OF assms] show ?thesis by (metis append_take_drop_id drop_drop add.commute)
qed

lemma contains_iff: "contains t str \<longleftrightarrow> sublist str t"
proof
  assume "contains t str"
  then obtain i where "search_at str t = Some i" by (auto simp: contains_def str_find_def)
  from search_at_split [OF this] show "sublist str t" unfolding sublist_def by blast
next
  assume "sublist str t"
  then obtain a b where "t = a @ str @ b" by (auto simp: sublist_def)
  then have "take (length str) (drop (length a) t) = str" by simp
  then show "contains t str"
    using search_at_None [of str t "length a"] by (auto simp: contains_def str_find_def)
qed

lemma first_occurrence_before:
  assumes "search_at s t = Some i" and "s \<noteq> []"
  shows "\<not> sublist s (take i t)"
proof
  assume "sublist s (take i t)"
  then obtain a b where ab: "take i t = a @ s @ b" by (auto simp: sublist_def)
  have "length (take i t) = i" using search_at_bound [OF assms(1)] by simp
  with ab have i: "i = length a + length s + length b" by simp
  have "t = a @ s @ b @ drop i t" using ab by (metis append.assoc append_take_drop_id)
  then have "take (length s) (drop (length a) t) = s"
    by (metis append_eq_conv_conj)
  moreover have "length a < i" using i assms(2) by simp
  ultimately show False using search_at_Some [OF assms(1)] by blast
qed

lemma startsWith_iff: "startsWith t str \<longleftrightarrow> prefix str t"
proof -
  have "search_at str t = Some 0 \<longleftrightarrow> prefixb str t"
    by (cases t; cases str) (auto split: if_splits)
  then show ?thesis by (simp add: startsWith_def str_find_def prefixb_append prefix_def)
qed


section \<open>split\<close>

definition join :: "string \<Rightarrow> string list \<Rightarrow> string" where
  "join s ps = (case ps of [] \<Rightarrow> [] | p # qs \<Rightarrow> p @ concat (map (\<lambda>q. s @ q) qs))"

lemma split_loop_returns:
  assumes "s \<noteq> []" and "pos \<le> length t"
  shows "\<exists>qs. split_loop t s pos (str_find s pos t) rs = Some (Inr (rs @ qs)) \<and> qs \<noteq> [] \<and>
           join s qs = drop pos t \<and> (\<forall>q \<in> set qs. \<not> sublist s q)"
  using assms(2)
proof (induction "length t - pos" arbitrary: pos rs rule: less_induct)
  case less
  show ?case
  proof (cases "search_at s (drop pos t)")
    case None
    with less.prems have "split_loop t s pos (str_find s pos t) rs = Some (Inr (rs @ [drop pos t]))"
      by (simp add: str_find_def substr_def split_loop.simps)
    moreover have "\<not> sublist s (drop pos t)"
      using None contains_iff [of "drop pos t" s] by (simp add: contains_def str_find_def)
    ultimately show ?thesis by (intro exI [of _ "[drop pos t]"]) (simp add: join_def)
  next
    case (Some i)
    let ?piece = "take i (drop pos t)" and ?pos = "pos + i + length s"
    have le: "?pos \<le> length t" using search_at_bound [OF Some] less.prems by simp
    moreover have "length t - ?pos < length t - pos" using le assms(1) by (cases s) auto
    ultimately obtain qs where qs:
      "split_loop t s ?pos (str_find s ?pos t) (rs @ [?piece]) = Some (Inr ((rs @ [?piece]) @ qs))"
      "qs \<noteq> []" "join s qs = drop ?pos t" "\<forall>q \<in> set qs. \<not> sublist s q"
      using less.hyps [of ?pos "rs @ [?piece]"] by auto
    have "split_loop t s pos (str_find s pos t) rs = Some (Inr (rs @ ?piece # qs))"
      using Some less.prems qs(1)
      by (subst split_loop.simps) (simp add: str_find_def [of s pos] substr_def)
    moreover have "join s (?piece # qs) = drop pos t"
      using search_at_split [OF Some] qs(2,3)
      by (cases qs) (simp_all add: join_def add.commute add.left_commute)
    moreover have "\<not> sublist s ?piece" by (rule first_occurrence_before [OF Some assms(1)])
    ultimately show ?thesis using qs(4) by (intro exI [of _ "?piece # qs"]) simp
  qed
qed

lemma search_at_Nil [simp]: "search_at [] xs = Some 0"
  by (cases xs) simp_all

lemma split_loop_empty_separator:
  assumes "split_loop t s pos pos2 rs = Some r"
  shows "s = [] \<longrightarrow> pos \<le> length t \<longrightarrow> pos2 \<noteq> Some pos"
  by (rule split_loop.raw_induct
      [where P = "\<lambda>t s pos pos2 rs r. s = [] \<longrightarrow> pos \<le> length t \<longrightarrow> pos2 \<noteq> Some pos", OF _ assms])
    (fastforce simp: str_find_def substr_def)

text \<open>
  C34. \<open>split\<close> with a separator that is not empty returns, without an exception; its pieces joined
  by the separator are the text again, and no piece contains the separator. With an empty
  separator it never returns, whatever the text.
\<close>

theorem split_roundtrip:
  "(s \<noteq> [] \<longrightarrow>
      (\<exists>ps. split t s = Some (Inr ps) \<and> join s ps = t \<and> ps \<noteq> [] \<and> (\<forall>p \<in> set ps. \<not> contains p s))) \<and>
   split t [] = None"
proof
  show "s \<noteq> [] \<longrightarrow>
      (\<exists>ps. split t s = Some (Inr ps) \<and> join s ps = t \<and> ps \<noteq> [] \<and> (\<forall>p \<in> set ps. \<not> contains p s))"
    using split_loop_returns [of s 0 t "[]"] by (auto simp: split_def contains_iff)
  have "str_find [] 0 t = Some 0" by (simp add: str_find_def)
  then show "split t [] = None"
    using split_loop_empty_separator [of t "[]" 0 "Some 0" "[]"]
    by (cases "split t []") (auto simp: split_def)
qed

theorem split_roundtrip_witness:
  "\<exists>ps. split ''a=b=='' ''='' = Some (Inr ps) \<and> join ''='' ps = ''a=b==''"
  using split_roundtrip [of "''=''" "''a=b==''"] by auto

text \<open>For a separator of one character, joining and splitting are inverse to each other.\<close>

lemma search_at_char:
  "search_at [c] t = (if c \<in> set t then Some (find_char c t) else None)"
  by (induction t) auto

lemma split_loop_join:
  assumes "ps \<noteq> []" and "\<forall>p \<in> set ps. c \<notin> set p" and "drop pos t = join [c] ps" and "pos \<le> length t"
  shows "split_loop t [c] pos (str_find [c] pos t) rs = Some (Inr (rs @ ps))"
  using assms
proof (induction ps arbitrary: pos rs)
  case Nil
  then show ?case by simp
next
  case (Cons p ps)
  show ?case
  proof (cases ps)
    case Nil
    with Cons.prems have "drop pos t = p" "c \<notin> set p" by (simp_all add: join_def)
    with Cons.prems(4) Nil show ?thesis
      by (simp add: str_find_def search_at_char substr_def split_loop.simps)
  next
    case (Cons q qs)
    have d: "drop pos t = p @ c # join [c] ps" using Cons.prems(3) Cons by (simp add: join_def)
    have fc: "find_char c (drop pos t) = length p"
      using Cons.prems(2) by (simp add: d find_char_append)
    have "length (drop pos t) = length p + 1 + length (join [c] ps)" by (simp add: d)
    then have le: "Suc (pos + length p) \<le> length t" by simp
    have dr: "drop (Suc (pos + length p)) t = join [c] ps"
      using d by (metis add_Suc_right append_Cons append_Nil append_assoc append_eq_conv_conj drop_drop add.commute length_append_singleton)
    have tk: "take (length p) (drop pos t) = p" by (simp add: d)
    have "split_loop t [c] (Suc (pos + length p)) (str_find [c] (Suc (pos + length p)) t) (rs @ [p])
        = Some (Inr ((rs @ [p]) @ ps))"
      by (rule Cons.IH) (use Cons Cons.prems(2) dr le in auto)
    with tk fc d Cons.prems(4) show ?thesis
      by (subst split_loop.simps) (simp add: str_find_def [of _ pos] search_at_char substr_def)
  qed
qed

lemma split_join:
  assumes "ps \<noteq> []" and "\<forall>p \<in> set ps. c \<notin> set p"
  shows "split (join [c] ps) [c] = Some (Inr ps)"
  using split_loop_join [OF assms, of 0 "join [c] ps" "[]"] by (simp add: split_def)

section \<open>remove and replace\<close>

text \<open>
  \<open>remove\<close> is \<open>replace\<close> with nothing. Both search from the beginning after every change, so what
  they leave behind never contains the pattern, also where a removal creates a new occurrence.
\<close>

lemma replace_step:
  assumes "search_at s t = Some i"
  shows "length (take i t @ r @ drop (i + length s) t) = length t + length r - length s"
  using search_at_bound [OF assms] by simp

lemma replace_str_shrinks:
  assumes "length r < length s"
  shows "\<exists>u. replace_str t s r = Some u \<and> \<not> sublist s u"
proof (induction "length t" arbitrary: t rule: less_induct)
  case less
  show ?case
  proof (cases "search_at s t")
    case None
    then have "\<not> sublist s t" using contains_iff [of t s] by (simp add: contains_def str_find_def)
    with None show ?thesis by (simp add: replace_str.simps [of t] str_find_def)
  next
    case (Some i)
    have "length (take i t @ r @ drop (i + length s) t) < length t"
      using replace_step [OF Some, of r] search_at_bound [OF Some] assms by simp
    from less [OF this] Some show ?thesis by (simp add: replace_str.simps [of t] str_find_def)
  qed
qed

lemma remove_is_replace:
  assumes "remove_str t s = Some u"
  shows "replace_str t s [] = Some u"
  by (rule remove_str.raw_induct [where P = "\<lambda>t s u. replace_str t s [] = Some u", OF _ assms])
    (subst replace_str.simps, auto split: option.splits)

lemma replace_is_remove:
  assumes "replace_str t s r = Some u"
  shows "r = [] \<longrightarrow> remove_str t s = Some u"
  by (rule replace_str.raw_induct [where P = "\<lambda>t s r u. r = [] \<longrightarrow> remove_str t s = Some u", OF _ assms])
    (subst remove_str.simps, auto split: option.splits)

lemma remove_eq_replace: "remove_str t s = replace_str t s []"
  by (metis option.exhaust remove_is_replace replace_is_remove)

lemma remove_str_subseq:
  assumes "remove_str t s = Some u"
  shows "subseq u t"
proof (rule remove_str.raw_induct [where P = "\<lambda>t s u. subseq u t", OF _ assms])
  fix rem t s u
  assume IH: "\<And>t s u. rem t s = Some u \<Longrightarrow> subseq u t"
    and st: "(case str_find s 0 t of None \<Rightarrow> Some t
              | Some p \<Rightarrow> rem (take p t @ drop (p + length s) t) s) = Some u"
  show "subseq u t"
  proof (cases "str_find s 0 t")
    case None
    with st show ?thesis by simp
  next
    case (Some p)
    with st have "subseq u (take p t @ drop (p + length s) t)" by (simp add: IH)
    moreover have "subseq (take p t @ drop (p + length s) t) (take p t @ drop p t)"
      using suffix_drop [of "length s" "drop p t"]
      by (simp only: subseq_append' drop_drop suffix_imp_subseq add.commute)
    ultimately show ?thesis by (metis append_take_drop_id subseq_order.trans)
  qed
qed

lemma replace_str_diverges:
  assumes "replace_str t s r = Some u"
  shows "sublist s r \<longrightarrow> \<not> sublist s t"
proof (rule replace_str.raw_induct [where P = "\<lambda>t s r u. sublist s r \<longrightarrow> \<not> sublist s t", OF _ assms])
  fix rep t s r u
  assume IH: "\<And>t s r u. rep t s r = Some u \<Longrightarrow> sublist s r \<longrightarrow> \<not> sublist s t"
    and st: "(case str_find s 0 t of None \<Rightarrow> Some t
              | Some p \<Rightarrow> rep (take p t @ r @ drop (p + length s) t) s r) = Some u"
  show "sublist s r \<longrightarrow> \<not> sublist s t"
  proof (cases "str_find s 0 t")
    case None
    then show ?thesis using contains_iff [of t s] by (simp add: contains_def)
  next
    case (Some p)
    with st IH have "sublist s r \<longrightarrow> \<not> sublist s (take p t @ r @ drop (p + length s) t)" by simp
    then show ?thesis by (meson sublist_appendI sublist_order.order.trans)
  qed
qed



section \<open>Trimming, case and ends\<close>

lemma trimmed_spec:
  "\<exists>a b. t = a @ trimmed t @ b \<and> list_all isspace (a @ b) \<and>
     (trimmed t \<noteq> [] \<longrightarrow> \<not> isspace (hd (trimmed t)) \<and> \<not> isspace (last (trimmed t)))"
proof -
  let ?u = "dropWhile isspace t"
  have t: "t = takeWhile isspace t @ ?u" by simp
  have "rev ?u = takeWhile isspace (rev ?u) @ dropWhile isspace (rev ?u)" by simp
  then have u: "?u = trimmed t @ rev (takeWhile isspace (rev ?u))"
    by (metis rev_append rev_rev_ident trimmed_def)
  have l: "trimmed t \<noteq> [] \<Longrightarrow> \<not> isspace (last (trimmed t))"
    using hd_dropWhile [of isspace "rev ?u"] by (metis last_rev rev_is_Nil_conv trimmed_def)
  have h: "\<not> isspace (hd (trimmed t))" if "trimmed t \<noteq> []"
  proof -
    have "hd (trimmed t) = hd ?u" using that u by (metis hd_append)
    moreover have "?u \<noteq> []" using that u by (metis append_is_Nil_conv)
    ultimately show ?thesis using hd_dropWhile [of isspace t] by simp
  qed
  have "list_all isspace (takeWhile isspace t @ rev (takeWhile isspace (rev ?u)))"
    by (auto simp: list_all_iff dest: set_takeWhileD)
  moreover have "t = takeWhile isspace t @ trimmed t @ rev (takeWhile isspace (rev ?u))"
    using t u by simp
  ultimately show ?thesis using l h by blast
qed

lemma toLower_toUpper_idem [simp]: "toLower (toLower t) = toLower t" "toUpper (toUpper t) = toUpper t"
  by (auto simp: toLower_def toUpper_def to_lower_def to_upper_def)

lemma rsearch_at_bound: "rsearch_at pat s = Some i \<Longrightarrow> i + length pat \<le> length s"
proof (induction s arbitrary: i)
  case Nil
  then show ?case by (auto split: if_splits)
next
  case (Cons x xs)
  have "prefixb pat (x # xs) \<Longrightarrow> length pat \<le> Suc (length xs)"
    by (metis length_Cons length_take min.cobounded2 prefixb_iff min_def nat_le_linear)
  with Cons show ?case by (fastforce split: option.splits if_splits)
qed

lemma rsearch_at_prefix: "rsearch_at pat s = Some i \<Longrightarrow> prefixb pat (drop i s)"
  by (induction s arbitrary: i) (auto split: option.splits if_splits)

lemma rsearch_at_suffix: "rsearch_at pat (a @ pat) = Some (length a)"
proof (induction a)
  case Nil
  show ?case
  proof (cases pat)
    case (Cons x xs)
    then have "rsearch_at pat xs = None" using rsearch_at_bound [of pat xs] by (cases "rsearch_at pat xs") auto
    with Cons show ?thesis by (simp add: prefixb_iff)
  qed simp
next
  case (Cons x a)
  then show ?case by simp
qed

text \<open>
  \<open>endsWith\<close> compares \<open>rfind\<close> with a difference of sizes that wraps. It decides whether the text
  ends in the string, except that it also accepts every string that is one character longer
  than the text: \<open>npos\<close> and the wrapped difference \<open>-1\<close> are the same value.
\<close>

lemma endsWith_iff:
  assumes "length t < 2 ^ 63" and "length s < 2 ^ 63"
  shows "endsWith t s \<longleftrightarrow> suffix s t \<or> length s = length t + 1"
proof -
  have w: "(word_of_nat a :: 64 word) = word_of_nat b \<longleftrightarrow> a = b" if "a \<le> 2 ^ 63" "b \<le> 2 ^ 63" for a b
    using that by (simp add: word_of_nat_eq_iff take_bit_nat_eq_self)
  show ?thesis
  proof (cases "rsearch_at s t")
    case None
    have "endsWith t s \<longleftrightarrow> word_of_nat (length s) = (word_of_nat (length t + 1) :: 64 word)"
      unfolding endsWith_def size_t_of_def None by (auto simp: algebra_simps)
    moreover have "\<not> suffix s t" using None by (auto simp: suffix_def rsearch_at_suffix)
    ultimately show ?thesis using assms w [of "length s" "length t + 1"] by simp
  next
    case (Some i)
    have le: "i + length s \<le> length t" by (rule rsearch_at_bound [OF Some])
    have "endsWith t s \<longleftrightarrow> word_of_nat (i + length s) = (word_of_nat (length t) :: 64 word)"
      unfolding endsWith_def size_t_of_def Some by (auto simp: algebra_simps)
    also have "\<dots> \<longleftrightarrow> i + length s = length t" using le assms by (simp add: w del: of_nat_add)
    also have "\<dots> \<longleftrightarrow> suffix s t"
    proof
      assume "i + length s = length t"
      with rsearch_at_prefix [OF Some] have "drop i t = s" by (auto simp: prefixb_iff)
      then show "suffix s t" using suffix_drop by blast
    next
      assume "suffix s t"
      with Some show "i + length s = length t" by (auto simp: suffix_def rsearch_at_suffix)
    qed
    finally show ?thesis using le by auto
  qed
qed

end
