(* ===== verification/Core_Files.thy ===== *)
theory Core_Files
  imports Core_String Core_DateTime Decimal "HOL-Library.Multiset"
begin

unbundle bit_operations_syntax

text \<open>
  \<open>core/Dir\<close> and \<open>core/FileInfo\<close>. A path is its text; the operations of
  \<open>std::filesystem::path\<close> the sources use are written out for it (\<open>/\<close> is the only separator).
  The file system is a list of paths with their nodes; what \<open>std::filesystem\<close> throws is an
  \<open>UncaughtException\<close>. \<open>std::sort\<close> is a sort by key: the facts about it only speak of the order of
  keys, as the order of equal elements is unspecified.
\<close>

section \<open>Paths\<close>

definition find_last_of :: "char \<Rightarrow> string \<Rightarrow> nat option" where
  "find_last_of c s = (if c \<in> set s then Some (length s - 1 - find_char c (rev s)) else None)"

definition path_filename :: "string \<Rightarrow> string" where
  "path_filename p = (case find_last_of CHR ''/'' p of None \<Rightarrow> p | Some i \<Rightarrow> drop (i + 1) p)"

definition parent_path :: "string \<Rightarrow> string" where
  "parent_path p = (case find_last_of CHR ''/'' p of None \<Rightarrow> [] | Some 0 \<Rightarrow> ''/'' | Some i \<Rightarrow> take i p)"

definition is_absolute :: "string \<Rightarrow> bool" where
  "is_absolute p \<longleftrightarrow> p \<noteq> [] \<and> hd p = CHR ''/''"

definition path_join :: "string \<Rightarrow> string \<Rightarrow> string" where
  "path_join p q =
     (if is_absolute q then q
      else if p = [] \<or> last p = CHR ''/'' then p @ q
      else p @ ''/'' @ q)"

text \<open>
  The extension of a file name begins at its last dot, unless that is its first character or the
  name is \<open>..\<close>. Two paths are equal when they have the same root and the same elements, where a
  final slash counts as an empty last element.
\<close>

definition path_extension :: "string \<Rightarrow> string" where
  "path_extension p = (let name = path_filename p in
     case find_last_of CHR ''.'' name of
       None \<Rightarrow> []
     | Some i \<Rightarrow> if i = 0 \<or> name = ''..'' then [] else drop i name)"

definition path_stem :: "string \<Rightarrow> string" where
  "path_stem p = (let name = path_filename p in take (length name - length (path_extension p)) name)"

fun path_elements :: "string \<Rightarrow> string \<Rightarrow> string list" where
  "path_elements [] acc = (if acc = [] then [] else [acc])"
| "path_elements (c # cs) acc =
     (if c = CHR ''/'' then (if acc = [] then path_elements cs [] else acc # path_elements cs [])
      else path_elements cs (acc @ [c]))"

definition path_eq :: "string \<Rightarrow> string \<Rightarrow> bool" where
  "path_eq p q \<longleftrightarrow> is_absolute p = is_absolute q \<and> path_elements p [] = path_elements q [] \<and>
     (path_elements p [] = [] \<or> (last p = CHR ''/'') = (last q = CHR ''/''))"

section \<open>The file system\<close>

datatype node_kind = Directory | Regular | BlockFile | CharacterFile | Fifo | SocketFile | OtherNode

record fs_node =
  fn_kind :: node_kind
  fn_size :: int
  fn_modified :: datetime
  fn_perms :: nat

type_synonym file_sys = "(string \<times> fs_node) list"

text \<open>A trailing slash does not change what a path names.\<close>

definition strip_slash :: "string \<Rightarrow> string" where
  "strip_slash p = (if 1 < length p \<and> last p = CHR ''/'' then butlast p else p)"

definition fs_lookup :: "file_sys \<Rightarrow> string \<Rightarrow> fs_node option" where
  "fs_lookup fs p = map_of fs (strip_slash p)"

definition fs_exists :: "file_sys \<Rightarrow> string \<Rightarrow> bool" where
  "fs_exists fs p \<longleftrightarrow> fs_lookup fs p \<noteq> None"

definition is_kind :: "node_kind \<Rightarrow> file_sys \<Rightarrow> string \<Rightarrow> bool" where
  "is_kind k fs p \<longleftrightarrow> (case fs_lookup fs p of None \<Rightarrow> False | Some n \<Rightarrow> fn_kind n = k)"

definition new_dir_node :: "datetime \<Rightarrow> fs_node" where
  "new_dir_node now = \<lparr>fn_kind = Directory, fn_size = 0, fn_modified = now, fn_perms = 511\<rparr>"

text \<open>\<open>create_directory\<close>: false when it is there already, an exception when the parent is missing or the path is no directory.\<close>

definition create_directory :: "datetime \<Rightarrow> string \<Rightarrow> file_sys \<Rightarrow> (bool \<times> file_sys) res" where
  "create_directory now p fs =
     (if is_kind Directory fs p then Inr (False, fs)
      else if fs_exists fs p \<or> \<not> is_kind Directory fs (parent_path p) then Inl UncaughtException
      else Inr (True, (strip_slash p, new_dir_node now) # fs))"

definition below :: "string \<Rightarrow> string \<Rightarrow> bool" where
  "below p q \<longleftrightarrow> q = p \<or> prefix (path_join p []) q \<and> p \<noteq> []"

text \<open>\<open>remove_all\<close> returns the number of removed entries.\<close>

definition remove_all :: "string \<Rightarrow> file_sys \<Rightarrow> nat \<times> file_sys" where
  "remove_all p fs = (length (filter (\<lambda>e. below p (fst e)) fs), filter (\<lambda>e. \<not> below p (fst e)) fs)"

definition fs_remove_file :: "string \<Rightarrow> file_sys \<Rightarrow> bool \<times> file_sys" where
  "fs_remove_file p fs = (fs_exists fs p, filter (\<lambda>e. fst e \<noteq> strip_slash p) fs)"

definition dir_entries :: "file_sys \<Rightarrow> string \<Rightarrow> string list" where
  "dir_entries fs p = filter (\<lambda>q. q \<noteq> p \<and> path_join p (path_filename q) = q) (map fst fs)"

section \<open>FileInfo\<close>

definition fi_fileName :: "string \<Rightarrow> string" where
  "fi_fileName p = path_filename p"

definition fi_isDir :: "file_sys \<Rightarrow> string \<Rightarrow> bool" where
  "fi_isDir fs p = is_kind Directory fs p"

definition fi_isFile :: "file_sys \<Rightarrow> string \<Rightarrow> bool" where
  "fi_isFile fs p = is_kind Regular fs p"

definition fi_isHidden :: "string \<Rightarrow> bool" where
  "fi_isHidden p = (let name = path_filename p in if name = [] then False else hd name = CHR ''.'')"

definition fi_size :: "file_sys \<Rightarrow> string \<Rightarrow> int" where
  "fi_size fs p = (if fi_isDir fs p then 0 else (case fs_lookup fs p of None \<Rightarrow> 0 | Some n \<Rightarrow> fn_size n))"

definition fi_lastModified :: "file_sys \<Rightarrow> string \<Rightarrow> datetime" where
  "fi_lastModified fs p = (case fs_lookup fs p of None \<Rightarrow> DateTime 0 | Some n \<Rightarrow> fn_modified n)"

definition makeAbsolute :: "string \<Rightarrow> string \<Rightarrow> bool \<times> string" where
  "makeAbsolute cwd p =
     (if is_absolute p then (True, p)
      else (let absolutePath = path_join cwd p in (is_absolute absolutePath, absolutePath)))"

definition fi_absoluteFilePath :: "string \<Rightarrow> string \<Rightarrow> string" where
  "fi_absoluteFilePath cwd p = snd (makeAbsolute cwd p)"

definition fi_absolutePath :: "string \<Rightarrow> string \<Rightarrow> string" where
  "fi_absolutePath cwd p = parent_path (fi_absoluteFilePath cwd p)"

definition fi_makeAbsolute :: "string \<Rightarrow> string \<Rightarrow> bool \<times> string" where
  "fi_makeAbsolute cwd m_path =
     (if is_absolute m_path then (True, m_path)
      else (let m_path1 = path_join cwd m_path in (is_absolute m_path1, m_path1)))"

definition fi_absoluteDir :: "string \<Rightarrow> string \<Rightarrow> string" where
  "fi_absoluteDir cwd p = fi_absolutePath cwd p"

definition fi_eq :: "string \<Rightarrow> string \<Rightarrow> bool" where
  "fi_eq p q = path_eq p q"

definition fi_swap :: "string \<times> string \<Rightarrow> string \<times> string" where
  "fi_swap pq = (snd pq, fst pq)"

definition fi_bundleName :: "string \<Rightarrow> string" where
  "fi_bundleName p = path_stem p"

definition fi_suffix :: "string \<Rightarrow> string" where
  "fi_suffix p = path_extension p"

definition fi_isBundle :: "string \<Rightarrow> bool" where
  "fi_isBundle p \<longleftrightarrow> path_extension p = ''.app''"

definition fi_isShortcut :: "string \<Rightarrow> bool" where
  "fi_isShortcut p \<longleftrightarrow> path_extension p = ''.lnk''"

definition fi_isRelative :: "string \<Rightarrow> bool" where
  "fi_isRelative p \<longleftrightarrow> \<not> is_absolute p"

definition root_path :: "string \<Rightarrow> string" where
  "root_path p = (if is_absolute p then ''/'' else [])"

definition fi_isRoot :: "string \<Rightarrow> bool" where
  "fi_isRoot p \<longleftrightarrow> is_absolute p \<and> path_eq (root_path p) p"

definition fi_isBlockFile :: "file_sys \<Rightarrow> string \<Rightarrow> bool" where
  "fi_isBlockFile fs p = is_kind BlockFile fs p"

definition fi_isCharacterFile :: "file_sys \<Rightarrow> string \<Rightarrow> bool" where
  "fi_isCharacterFile fs p = is_kind CharacterFile fs p"

definition fi_isFifo :: "file_sys \<Rightarrow> string \<Rightarrow> bool" where
  "fi_isFifo fs p = is_kind Fifo fs p"

definition fi_isSocket :: "file_sys \<Rightarrow> string \<Rightarrow> bool" where
  "fi_isSocket fs p = is_kind SocketFile fs p"

definition fi_isOther :: "file_sys \<Rightarrow> string \<Rightarrow> bool" where
  "fi_isOther fs p \<longleftrightarrow> fs_exists fs p \<and> \<not> is_kind Regular fs p \<and> \<not> is_kind Directory fs p"

text \<open>\<open>is_empty\<close> throws when there is nothing at the path.\<close>

definition fi_isEmptyFileOrDir :: "file_sys \<Rightarrow> string \<Rightarrow> bool res" where
  "fi_isEmptyFileOrDir fs p = (case fs_lookup fs p of
       None \<Rightarrow> Inl UncaughtException
     | Some n \<Rightarrow> Inr (if fn_kind n = Directory then dir_entries fs p = [] else fn_size n = 0))"

section \<open>Dir\<close>

datatype sort_type = SortType_None | SortType_Name | SortType_Time | SortType_Size | SortType_DirsFirst | SortType_DirsLast

definition FilterType_Dir :: "32 word" where
  "FilterType_Dir = 1"

definition FilterType_File :: "32 word" where
  "FilterType_File = 2"

definition FilterType_Hidden :: "32 word" where
  "FilterType_Hidden = 4"

definition FilterType_NoDot :: "32 word" where
  "FilterType_NoDot = 8"

definition FilterType_NoDotDot :: "32 word" where
  "FilterType_NoDotDot = 16"

definition FilterType_All :: "32 word" where
  "FilterType_All = FilterType_Dir OR FilterType_File"

definition dir_absolutePath :: "string \<Rightarrow> string \<Rightarrow> string" where
  "dir_absolutePath cwd m_path = snd (makeAbsolute cwd m_path)"

definition dir_absoluteFilePath :: "string \<Rightarrow> string \<Rightarrow> string \<Rightarrow> string" where
  "dir_absoluteFilePath cwd m_path filename = path_join (dir_absolutePath cwd m_path) filename"

fun Contains :: "string \<Rightarrow> string list \<Rightarrow> bool" where
  "Contains filename [] = False"
| "Contains filename (nameFilter # nameFilters) =
     (if contains filename nameFilter then True else Contains filename nameFilters)"

definition isFilterType :: "file_sys \<Rightarrow> string \<Rightarrow> 32 word \<Rightarrow> bool" where
  "isFilterType fs p filterType =
     (let filename = path_filename p;
          isHidden = (filename \<noteq> [] \<and> hd filename = CHR ''.'');
          has = (\<lambda>flag. filterType AND flag \<noteq> 0) in
      if has FilterType_NoDot \<and> filename = ''.'' then False
      else if has FilterType_NoDotDot \<and> filename = ''..'' then False
      else if has FilterType_Dir \<and> is_kind Directory fs p \<and> (has FilterType_Hidden \<longrightarrow> isHidden) then True
      else if has FilterType_File \<and> is_kind Regular fs p \<and> (has FilterType_Hidden \<longrightarrow> isHidden) then True
      else False)"

text \<open>
  The comparisons of strings are lexicographic by character code. \<open>isDir\<close> is compared as a
  number, so \<open>SortType_DirsFirst\<close> puts what is no directory first.
\<close>

definition name_key :: "string \<Rightarrow> nat list" where
  "name_key s = map of_char s"

fun lex_le :: "nat list \<Rightarrow> nat list \<Rightarrow> bool" where
  "lex_le [] ys = True"
| "lex_le (x # xs) [] = False"
| "lex_le (x # xs) (y # ys) = (x < y \<or> x = y \<and> lex_le xs ys)"

fun insert_by :: "('a \<Rightarrow> 'a \<Rightarrow> bool) \<Rightarrow> 'a \<Rightarrow> 'a list \<Rightarrow> 'a list" where
  "insert_by le x [] = [x]"
| "insert_by le x (y # ys) = (if le x y then x # y # ys else y # insert_by le x ys)"

fun sort_by :: "('a \<Rightarrow> 'a \<Rightarrow> bool) \<Rightarrow> 'a list \<Rightarrow> 'a list" where
  "sort_by le [] = []"
| "sort_by le (x # xs) = insert_by le x (sort_by le xs)"

fun entry_le :: "file_sys \<Rightarrow> sort_type \<Rightarrow> string \<Rightarrow> string \<Rightarrow> bool" where
  "entry_le fs SortType_None a b = True"
| "entry_le fs SortType_Name a b = lex_le (name_key (fi_fileName a)) (name_key (fi_fileName b))"
| "entry_le fs SortType_Time a b = (fi_lastModified fs a \<le> fi_lastModified fs b)"
| "entry_le fs SortType_Size a b = (fi_size fs a \<le> fi_size fs b)"
| "entry_le fs SortType_DirsFirst a b = (fi_isDir fs a \<le> fi_isDir fs b)"
| "entry_le fs SortType_DirsLast a b = (fi_isDir fs a \<ge> fi_isDir fs b)"

definition sort_entries :: "file_sys \<Rightarrow> sort_type \<Rightarrow> string list \<Rightarrow> string list" where
  "sort_entries fs sortType xs = (if sortType = SortType_None then xs else sort_by (entry_le fs sortType) xs)"

definition entryInfoList :: "file_sys \<Rightarrow> string \<Rightarrow> string list \<Rightarrow> 32 word \<Rightarrow> sort_type \<Rightarrow> string list res" where
  "entryInfoList fs m_path nameFilters filterType sortType =
     (if \<not> fs_exists fs m_path then Inr []
      else if \<not> is_kind Directory fs m_path then Inl UncaughtException
      else Inr (sort_entries fs sortType
              (filter (\<lambda>p. \<not> Contains p nameFilters \<and> isFilterType fs p filterType) (dir_entries fs m_path))))"

definition dir_cd :: "file_sys \<Rightarrow> string \<Rightarrow> string \<Rightarrow> bool \<times> string" where
  "dir_cd fs p m_path =
     (if \<not> fs_exists fs p then (False, m_path)
      else if is_kind Directory fs p then (True, p)
      else (False, m_path))"

definition dir_cdup :: "file_sys \<Rightarrow> string \<Rightarrow> bool \<times> string" where
  "dir_cdup fs m_path = dir_cd fs (parent_path m_path) m_path"

definition dir_eq :: "string \<Rightarrow> string \<Rightarrow> bool" where
  "dir_eq p q = path_eq p q"

definition dir_ne :: "string \<Rightarrow> string \<Rightarrow> bool" where
  "dir_ne p q \<longleftrightarrow> \<not> dir_eq p q"

definition dir_swap :: "string \<times> string \<Rightarrow> string \<times> string" where
  "dir_swap pq = (snd pq, fst pq)"

definition dirname :: "string \<Rightarrow> string" where
  "dirname m_path = path_filename m_path"

definition dir_exists :: "file_sys \<Rightarrow> string \<Rightarrow> bool" where
  "dir_exists fs m_path = fs_exists fs m_path"

definition FileInfo_of_Dir :: "string \<Rightarrow> string \<Rightarrow> string \<Rightarrow> string" where
  "FileInfo_of_Dir cwd dir name = path_join (dir_absolutePath cwd dir) name"

definition dir_remove :: "string \<Rightarrow> file_sys \<Rightarrow> bool \<times> file_sys" where
  "dir_remove p fs = (case remove_all p fs of (n, fs1) \<Rightarrow> (n \<noteq> 0, fs1))"

text \<open>
  \<open>setCurrent\<close>: the kernel keeps the current directory as an absolute path without links and dots,
  which \<open>canon\<close> computes; to go to what is not a directory throws.
\<close>

definition setCurrent :: "(string \<Rightarrow> string) \<Rightarrow> file_sys \<Rightarrow> string \<Rightarrow> string \<Rightarrow> (bool \<times> string) res" where
  "setCurrent canon fs p cwd =
     (if is_kind Directory fs (path_join cwd p)
      then (let cwd1 = canon (path_join cwd p) in Inr (path_eq cwd1 p, cwd1))
      else Inl UncaughtException)"

definition dir_mkdir :: "datetime \<Rightarrow> string \<Rightarrow> string \<Rightarrow> file_sys \<Rightarrow> (bool \<times> file_sys) res" where
  "dir_mkdir now m_path name fs =
     (if \<not> fs_exists fs m_path then Inr (False, fs) else create_directory now (path_join m_path name) fs)"

definition dir_rmdir :: "string \<Rightarrow> string \<Rightarrow> file_sys \<Rightarrow> bool \<times> file_sys" where
  "dir_rmdir m_path name fs =
     (if \<not> fs_exists fs m_path then (False, fs)
      else (case remove_all (path_join m_path name) fs of (n, fs1) \<Rightarrow> (n \<noteq> 0, fs1)))"

definition removeFile_at :: "string \<Rightarrow> string \<Rightarrow> file_sys \<Rightarrow> bool \<times> file_sys" where
  "removeFile_at p filename fs =
     (if \<not> fs_exists fs p then (False, fs)
      else if \<not> is_kind Directory fs p then (False, fs)
      else (let filepath = path_join p filename in
            if \<not> fs_exists fs filepath then (False, fs)
            else if \<not> is_kind Regular fs filepath then (False, fs)
            else fs_remove_file filepath fs))"

definition dir_removeFile :: "string \<Rightarrow> string \<Rightarrow> file_sys \<Rightarrow> bool \<times> file_sys" where
  "dir_removeFile m_path name fs = removeFile_at m_path name fs"

definition rmdirs :: "string \<Rightarrow> file_sys \<Rightarrow> bool \<times> file_sys" where
  "rmdirs p fs =
     (if is_kind Directory fs p then (case remove_all p fs of (n, fs1) \<Rightarrow> (n \<noteq> 0, fs1)) else (False, fs))"

definition matchName :: "string \<Rightarrow> string \<Rightarrow> bool" where
  "matchName p namefilter \<longleftrightarrow> path_filename p = namefilter"

fun matchPath :: "string \<Rightarrow> string list \<Rightarrow> bool" where
  "matchPath p [] = False"
| "matchPath p (name # namefilters) = (if matchName p name then True else matchPath p namefilters)"

text \<open>\<open>create_directories\<close> creates the ancestors from the top, then the path itself.\<close>

definition ancestors :: "string \<Rightarrow> string list" where
  "ancestors p = map (\<lambda>i. take i p) (filter (\<lambda>i. p ! i = CHR ''/'') [1..<length p]) @ [p]"

fun create_chain :: "datetime \<Rightarrow> string list \<Rightarrow> file_sys \<Rightarrow> (bool \<times> file_sys) res" where
  "create_chain now [] fs = Inr (False, fs)"
| "create_chain now (p # ps) fs =
     bindR (create_directory now p fs) (\<lambda>(made, fs1). if ps = [] then Inr (made, fs1) else create_chain now ps fs1)"

definition mkdirs :: "datetime \<Rightarrow> string \<Rightarrow> file_sys \<Rightarrow> (bool \<times> file_sys) res" where
  "mkdirs now p fs = (if fs_exists fs p then Inr (True, fs) else create_chain now (ancestors p) fs)"

definition mkdirs_perms :: "datetime \<Rightarrow> string \<Rightarrow> nat \<Rightarrow> file_sys \<Rightarrow> (bool \<times> file_sys) res" where
  "mkdirs_perms now p perms fs =
     bindR (mkdirs now p fs) (\<lambda>(ok, fs1).
       if \<not> ok then Inr (False, fs1)
       else (let fs2 = map (\<lambda>(q, n). if q = strip_slash p then (q, n\<lparr>fn_perms := perms\<rparr>) else (q, n)) fs1 in
             Inr (case fs_lookup fs2 p of None \<Rightarrow> False | Some n \<Rightarrow> fn_perms n = perms, fs2)))"

section \<open>Listing a directory\<close>

lemma lex_le_refl [simp]: "lex_le xs xs"
  by (induction xs) auto

lemma lex_le_total: "lex_le xs ys \<or> lex_le ys xs"
  by (induction xs ys rule: lex_le.induct) auto

lemma lex_le_trans: "lex_le xs ys \<Longrightarrow> lex_le ys zs \<Longrightarrow> lex_le xs zs"
proof (induction xs ys arbitrary: zs rule: lex_le.induct)
  case (3 x xs y ys)
  then show ?case by (cases zs) auto
qed simp_all

lemma mset_insert_by [simp]: "mset (insert_by le x xs) = add_mset x (mset xs)"
  by (induction xs) auto

lemma mset_sort_by [simp]: "mset (sort_by le xs) = mset xs"
  by (induction xs) auto

locale total_preorder =
  fixes le :: "'a \<Rightarrow> 'a \<Rightarrow> bool"
  assumes le_total: "le x y \<or> le y x"
    and le_trans: "le x y \<Longrightarrow> le y z \<Longrightarrow> le x z"
begin

lemma sorted_insert_by: "sorted_wrt le xs \<Longrightarrow> sorted_wrt le (insert_by le x xs)"
proof (induction xs)
  case (Cons y ys)
  have set: "set (insert_by le x ys) = insert x (set ys)"
    by (metis mset_insert_by set_mset_add_mset_insert set_mset_mset)
  show ?case
  proof (cases "le x y")
    case True
    with Cons.prems show ?thesis by (auto intro: le_trans)
  next
    case False
    with le_total have "le y x" by blast
    with False Cons set show ?thesis by auto
  qed
qed simp

lemma sorted_sort_by: "sorted_wrt le (sort_by le xs)"
  by (induction xs) (auto intro: sorted_insert_by)

end

interpretation entries: total_preorder "entry_le fs ty" for fs ty
proof
  show "entry_le fs ty x y \<or> entry_le fs ty y x" for x y
    using lex_le_total by (cases ty) auto
  show "entry_le fs ty x y \<Longrightarrow> entry_le fs ty y z \<Longrightarrow> entry_le fs ty x z" for x y z
    using lex_le_trans by (cases ty) auto
qed


definition sample_fs :: file_sys where
  "sample_fs = [(''/d'', new_dir_node (DateTime 0)), (''/d/sub'', new_dir_node (DateTime 0)),
     (''/d/x.log'', \<lparr>fn_kind = Regular, fn_size = 3, fn_modified = DateTime 5, fn_perms = 420\<rparr>)]"


section \<open>Changing directories and files\<close>

text \<open>A directory that \<open>mkdir\<close> created is there, and removing it restores the file system.\<close>

lemma mkdir_rmdir:
  assumes "fs_exists fs p" and "path_join p name = q" and "strip_slash q = q" and "\<forall>e \<in> set fs. \<not> below q (fst e)"
    and "dir_mkdir now p name fs = Inr (True, fs1)"
  shows "is_kind Directory fs1 q \<and> dir_rmdir p name fs1 = (True, fs)"
proof -
  have fs1: "fs1 = (q, new_dir_node now) # fs"
    using assms by (auto simp: dir_mkdir_def create_directory_def split: if_splits)
  have "filter (\<lambda>e. below q (fst e)) fs = []" "filter (\<lambda>e. \<not> below q (fst e)) fs = fs"
    using assms(4) by (auto simp: filter_empty_conv intro: filter_True)
  then show ?thesis using assms(1,2,3)
    by (auto simp: fs1 is_kind_def fs_lookup_def new_dir_node_def dir_rmdir_def remove_all_def below_def fs_exists_def)
qed

text \<open>\<open>removeFile\<close> only ever removes a regular file of the directory, and nothing else with it.\<close>

lemma removeFile_only_regular:
  assumes "removeFile_at p name fs = (ok, fs1)" and "strip_slash (path_join p name) = path_join p name"
  shows "if ok then is_kind Regular fs (path_join p name) \<and> \<not> fs_exists fs1 (path_join p name) \<and>
              (\<forall>q. q \<noteq> path_join p name \<longrightarrow> map_of fs1 q = map_of fs q)
         else fs1 = fs"
proof -
  have m: "q \<noteq> r \<Longrightarrow> map_of (filter (\<lambda>e. fst e \<noteq> r) fs) q = map_of fs q" for q r
    by (induction fs) auto
  have "map_of (filter (\<lambda>e. fst e \<noteq> r) fs) r = None" for r
    by (induction fs) auto
  with assms m show ?thesis
    by (auto simp: removeFile_at_def fs_remove_file_def fs_exists_def fs_lookup_def Let_def split: if_splits)
qed

text \<open>
  The stem and the extension make up the file name; equality of paths is an equivalence, and a
  path made absolute is absolute when the current directory is.
\<close>

lemma stem_extension: "path_stem p @ path_extension p = path_filename p"
proof -
  have "path_extension p = [] \<or> (\<exists>i. path_extension p = drop i (path_filename p))"
    by (auto simp: path_extension_def Let_def split: option.splits)
  then show ?thesis
  proof
    assume "\<exists>i. path_extension p = drop i (path_filename p)"
    then obtain i where i: "path_extension p = drop i (path_filename p)" by blast
    show ?thesis by (cases "i \<le> length (path_filename p)") (simp_all add: path_stem_def Let_def i)
  qed (simp add: path_stem_def)
qed

lemma path_eq_equivalence: "equivp path_eq"
  by (rule equivpI) (auto intro!: reflpI sympI transpI simp: path_eq_def)

lemma made_absolute: "is_absolute cwd \<Longrightarrow> fst (fi_makeAbsolute cwd p) \<and> is_absolute (fi_absoluteFilePath cwd p)"
  by (auto simp: fi_makeAbsolute_def fi_absoluteFilePath_def makeAbsolute_def path_join_def is_absolute_def Let_def)

text \<open>
  The root is the root however many slashes it is written with. \<open>setCurrent\<close> answers false for a relative path, although
  the directory has been changed.
\<close>

lemma root_slashes: "fi_isRoot (replicate (Suc n) CHR ''/'')"
proof -
  have "path_elements (replicate m CHR ''/'') [] = []" for m by (induction m) auto
  then show ?thesis by (simp add: fi_isRoot_def root_path_def path_eq_def is_absolute_def)
qed

lemma setCurrent_relative:
  assumes "\<not> is_absolute p" and "is_absolute (canon (path_join cwd p))" and "is_kind Directory fs (path_join cwd p)"
  shows "setCurrent canon fs p cwd = Inr (False, canon (path_join cwd p))"
  using assms by (simp add: setCurrent_def path_eq_def)

end
