(* ===== verification/Core_File.thy ===== *)
theory Core_File
  imports Core_Files "HOL-Library.AList"
begin

unbundle bit_operations_syntax

text \<open>
  \<open>core/File\<close> and \<open>core/Process\<close>. The disk is a list of paths with what is there: directories, files with
  their bytes, symbolic links. A \<open>File\<close> holds a \<open>std::fstream\<close>: its own view of the file with one position,
  the mode it was opened with, and the error bits that \<open>peek\<close>, \<open>getline\<close> and the others set and that make
  later operations fail. What is written reaches the disk when the stream is flushed or
  closed (the stream may pass it on earlier, which only another reader of the file could tell).
  Streams behave as in libstdc++: \<open>seekp\<close> works unless the fail bit is set, every other
  operation needs a stream with no bit set and sets the fail bit otherwise. Where links in the middle of a
  path would be followed, the path is taken to have none.

  The theorems show that lines written to a file are read back, which errors a stream keeps,
  what renaming, copying and linking do to the disk, and that environment variables are read back.
\<close>

section \<open>The disk\<close>

datatype disk_node = DiskDir | DiskFile string | DiskLink string

type_synonym disk = "(string \<times> disk_node) list"

abbreviation at_path :: "disk \<Rightarrow> string \<Rightarrow> disk_node option" where
  "at_path d p \<equiv> map_of d p"

definition link_path :: "string \<Rightarrow> string \<Rightarrow> string" where
  "link_path p target = path_join (parent_path p) target"

text \<open>The kernel follows at most 40 links; the result \<open>None\<close> is the error \<open>ELOOP\<close>.\<close>

fun follow :: "nat \<Rightarrow> disk \<Rightarrow> string \<Rightarrow> string option" where
  "follow links d p = (case at_path d p of
      Some (DiskLink target) \<Rightarrow> (case links of 0 \<Rightarrow> None | Suc n \<Rightarrow> follow n d (link_path p target))
    | other \<Rightarrow> Some p)"

declare follow.simps [simp del]

definition max_links :: nat where
  "max_links = 40"

definition disk_stat :: "disk \<Rightarrow> string \<Rightarrow> (string \<times> disk_node option) res" where
  "disk_stat d p = (case follow max_links d p of None \<Rightarrow> Inl UncaughtException | Some q \<Rightarrow> Inr (q, at_path d q))"

definition parent_is_dir :: "disk \<Rightarrow> string \<Rightarrow> bool" where
  "parent_is_dir d p \<longleftrightarrow> (parent_path p = [] \<or> at_path d (parent_path p) = Some DiskDir)"

definition disk_children :: "disk \<Rightarrow> string \<Rightarrow> disk" where
  "disk_children d p = filter (\<lambda>e. below p (fst e) \<and> fst e \<noteq> p) d"

text \<open>\<open>std::filesystem::exists\<close>, \<open>remove\<close>, \<open>rename\<close>, \<open>copy_file\<close>, \<open>create_symlink\<close> and \<open>read_symlink\<close>.\<close>

definition disk_exists :: "disk \<Rightarrow> string \<Rightarrow> bool res" where
  "disk_exists d p = bindR (disk_stat d p) (\<lambda>(q, n). Inr (n \<noteq> None))"

definition disk_remove :: "string \<Rightarrow> disk \<Rightarrow> (bool \<times> disk) res" where
  "disk_remove p d = (case at_path d p of
       None \<Rightarrow> Inr (False, d)
     | Some n \<Rightarrow> if n = DiskDir \<and> disk_children d p \<noteq> [] then Inl UncaughtException
                 else Inr (True, AList.delete p d))"

definition rename_refused :: "disk \<Rightarrow> string \<Rightarrow> string \<Rightarrow> bool" where
  "rename_refused d src dst \<longleftrightarrow> at_path d src = None \<or> \<not> parent_is_dir d dst \<or>
     (if at_path d src = Some DiskDir
      then below src dst \<or> at_path d dst \<notin> {None, Some DiskDir} \<or> disk_children d dst \<noteq> []
      else at_path d dst = Some DiskDir)"

definition moved_path :: "string \<Rightarrow> string \<Rightarrow> string \<Rightarrow> string" where
  "moved_path src dst p = (if below src p then dst @ drop (length src) p else p)"

definition disk_rename :: "string \<Rightarrow> string \<Rightarrow> disk \<Rightarrow> disk res" where
  "disk_rename src dst d =
     (if src = dst \<and> at_path d src \<noteq> None then Inr d
      else if rename_refused d src dst then Inl UncaughtException
      else Inr (map (\<lambda>(p, n). (moved_path src dst p, n)) (AList.delete dst d)))"

definition disk_copy_file :: "string \<Rightarrow> string \<Rightarrow> disk \<Rightarrow> bool \<times> disk" where
  "disk_copy_file src dst d = (case (disk_stat d src, disk_stat d dst) of
       (Inr (q, Some (DiskFile c)), Inr (r, None)) \<Rightarrow>
         if parent_is_dir d r then (True, AList.update r (DiskFile c) d) else (False, d)
     | _ \<Rightarrow> (False, d))"

definition disk_symlink :: "string \<Rightarrow> string \<Rightarrow> disk \<Rightarrow> bool \<times> disk" where
  "disk_symlink target link d =
     (if at_path d link \<noteq> None \<or> \<not> parent_is_dir d link \<or> target = [] then (False, d)
      else (True, (link, DiskLink target) # d))"

definition disk_read_symlink :: "disk \<Rightarrow> string \<Rightarrow> string res" where
  "disk_read_symlink d p = (case at_path d p of Some (DiskLink target) \<Rightarrow> Inr target | _ \<Rightarrow> Inl UncaughtException)"

section \<open>FileInfo on links\<close>

definition symlinkTarget :: "disk \<Rightarrow> string \<Rightarrow> string" where
  "symlinkTarget d m_path = (case disk_read_symlink d m_path of Inl e \<Rightarrow> [] | Inr target \<Rightarrow> target)"

definition fi_isSymLink :: "disk \<Rightarrow> string \<Rightarrow> bool" where
  "fi_isSymLink d m_path = (case at_path d m_path of Some (DiskLink target) \<Rightarrow> True | _ \<Rightarrow> False)"

section \<open>File\<close>

text \<open>The open modes are the bits of \<open>std::ios\<close> (libstdc++).\<close>

definition ReadOnly :: "32 word" where
  "ReadOnly = 8"

definition WriteOnly :: "32 word" where
  "WriteOnly = 16"

definition ReadAndWrite :: "32 word" where
  "ReadAndWrite = ReadOnly OR WriteOnly"

definition AppendMode :: "32 word" where
  "AppendMode = 1 OR ReadAndWrite"

definition Truncate :: "32 word" where
  "Truncate = 32"

definition Binary :: "32 word" where
  "Binary = 4"

datatype seek_type = SeekBegin | SeekCurrent | SeekEnd

record fstream =
  st_path :: string
  st_mode :: "32 word"
  st_data :: string
  st_pos :: nat

record file_obj =
  f_openMode :: "32 word"
  f_path :: string
  f_stream :: "fstream option"
  f_bad :: bool
  f_eof :: bool
  f_fail :: bool

definition new_File :: "string \<Rightarrow> file_obj" where
  "new_File filename = \<lparr>f_openMode = ReadOnly, f_path = filename, f_stream = None, f_bad = False, f_eof = False, f_fail = False\<rparr>"

definition good :: "file_obj \<Rightarrow> bool" where
  "good f \<longleftrightarrow> \<not> f_bad f \<and> \<not> f_eof f \<and> \<not> f_fail f"

definition failed :: "file_obj \<Rightarrow> bool" where
  "failed f \<longleftrightarrow> f_bad f \<or> f_fail f"

definition file_isOpen :: "file_obj \<Rightarrow> bool" where
  "file_isOpen f \<longleftrightarrow> f_stream f \<noteq> None"

text \<open>
  \<open>fstream::open\<close>. Reading, also with writing, needs the file; writing alone or truncating empties it;
  appending creates it. The combinations the standard does not list are refused. A directory
  can be opened for reading only, and there is nothing to read.
\<close>

definition stream_data :: "32 word \<Rightarrow> disk_node option \<Rightarrow> string option" where
  "stream_data mode n =
     (let m = mode AND 57; c = (case n of Some (DiskFile c) \<Rightarrow> c | _ \<Rightarrow> []) in
      if n = Some DiskDir \<and> m \<noteq> 8 then None
      else if m = 8 \<or> m = 24 then (if n = None then None else Some c)
      else if m = 16 \<or> m = 48 \<or> m = 56 then Some []
      else if m = 1 \<or> m = 17 \<or> m = 9 \<or> m = 25 then Some c
      else None)"

definition stream_open :: "string \<Rightarrow> 32 word \<Rightarrow> disk \<Rightarrow> (fstream \<times> disk) option" where
  "stream_open p mode d = (case disk_stat d p of
       Inl e \<Rightarrow> None
     | Inr (q, n) \<Rightarrow> (case stream_data mode n of
           None \<Rightarrow> None
         | Some c \<Rightarrow>
             if n = None \<and> \<not> parent_is_dir d q then None
             else Some (\<lparr>st_path = q, st_mode = mode, st_data = c, st_pos = 0\<rparr>,
                        if n = Some DiskDir then d else AList.update q (DiskFile c) d)))"

definition can_write :: "fstream \<Rightarrow> bool" where
  "can_write st \<longleftrightarrow> st_mode st AND 17 \<noteq> 0"

definition stream_sync :: "fstream \<Rightarrow> disk \<Rightarrow> disk" where
  "stream_sync st d = (if can_write st then AList.update (st_path st) (DiskFile (st_data st)) d else d)"

definition file_close :: "file_obj \<times> disk \<Rightarrow> file_obj \<times> disk" where
  "file_close = (\<lambda>(f, d). case f_stream f of
       Some st \<Rightarrow> (f\<lparr>f_stream := None\<rparr>, stream_sync st d)
     | None \<Rightarrow> (f, d))"

definition file_flush :: "file_obj \<times> disk \<Rightarrow> file_obj \<times> disk" where
  "file_flush = (\<lambda>(f, d). case f_stream f of
       Some st \<Rightarrow> (f, stream_sync st d)
     | None \<Rightarrow> (f, d))"

definition destroy_File :: "file_obj \<times> disk \<Rightarrow> disk" where
  "destroy_File fd = snd (file_close fd)"

definition file_open :: "string \<Rightarrow> 32 word \<Rightarrow> file_obj \<times> disk \<Rightarrow> bool \<times> file_obj \<times> disk" where
  "file_open filename mode fd =
     (let (f, d) = file_close fd; f1 = f\<lparr>f_path := filename, f_openMode := mode\<rparr> in
      case stream_open filename mode d of
        Some (st, d1) \<Rightarrow> (True, f1\<lparr>f_stream := Some st, f_bad := False, f_eof := False, f_fail := False\<rparr>, d1)
      | None \<Rightarrow> (False, f1\<lparr>f_fail := True\<rparr>, d))"

definition file_open_mode :: "32 word \<Rightarrow> file_obj \<times> disk \<Rightarrow> bool \<times> file_obj \<times> disk" where
  "file_open_mode mode fd = file_open (f_path (fst fd)) mode fd"

definition file_reopen :: "file_obj \<times> disk \<Rightarrow> bool \<times> file_obj \<times> disk" where
  "file_reopen fd = file_open (f_path (fst fd)) (f_openMode (fst fd)) fd"

definition setFileName :: "string \<Rightarrow> file_obj \<Rightarrow> file_obj" where
  "setFileName filename f = f\<lparr>f_path := filename\<rparr>"

definition setOpenMode :: "32 word \<Rightarrow> file_obj \<Rightarrow> file_obj" where
  "setOpenMode mode f = f\<lparr>f_openMode := mode\<rparr>"

definition file_fileName :: "file_obj \<Rightarrow> string" where
  "file_fileName f = path_filename (f_path f)"

definition checkMode :: "32 word \<Rightarrow> file_obj \<Rightarrow> bool" where
  "checkMode mode f \<longleftrightarrow> f_openMode f AND mode = mode"

text \<open>What is left to read; a stream that was not opened for reading gives nothing.\<close>

definition stream_rest :: "fstream \<Rightarrow> string" where
  "stream_rest st = (if st_mode st AND 8 \<noteq> 0 then drop (st_pos st) (st_data st) else [])"

definition advance :: "nat \<Rightarrow> fstream \<Rightarrow> file_obj \<Rightarrow> file_obj" where
  "advance n st f = f\<lparr>f_stream := Some (st\<lparr>st_pos := st_pos st + n\<rparr>)\<rparr>"

text \<open>\<open>atEnd\<close> peeks: at the end this sets the end-of-file bit, and on a stream with a bit set the fail bit.\<close>

definition atEnd :: "file_obj \<Rightarrow> bool \<times> file_obj" where
  "atEnd f = (case f_stream f of
       None \<Rightarrow> (True, f)
     | Some st \<Rightarrow> if \<not> good f then (True, f\<lparr>f_fail := True\<rparr>)
                  else if stream_rest st = [] then (True, f\<lparr>f_eof := True\<rparr>) else (False, f))"

definition newline :: char where
  "newline = CHR 0x0A"

text \<open>
  \<open>std::getline\<close>: the characters up to the newline, which is taken too; reaching the end sets the
  end-of-file bit, and finding nothing at all the fail bit.
\<close>

definition stream_getline :: "fstream \<Rightarrow> file_obj \<Rightarrow> string \<times> file_obj" where
  "stream_getline st f =
     (if \<not> good f then ([], f\<lparr>f_fail := True\<rparr>)
      else (let rest = stream_rest st; line = takeWhile (\<lambda>c. c \<noteq> newline) rest;
                f1 = advance (min (length rest) (length line + 1)) st f in
            (line, f1\<lparr>f_eof := (newline \<notin> set rest), f_fail := (rest = [])\<rparr>)))"

definition readLine :: "file_obj \<Rightarrow> string \<times> file_obj" where
  "readLine f = (case f_stream f of
       None \<Rightarrow> ([], f)
     | Some st \<Rightarrow> if \<not> checkMode ReadOnly f then ([], f) else stream_getline st f)"

definition file_left :: "file_obj \<Rightarrow> nat" where
  "file_left f = (case f_stream f of None \<Rightarrow> 0 | Some st \<Rightarrow> length (stream_rest st))"

lemma atEnd_False: "atEnd f = (False, f1) \<longleftrightarrow> f1 = f \<and> good f \<and> (\<exists>st. f_stream f = Some st \<and> stream_rest st \<noteq> [])"
  by (auto simp: atEnd_def split: option.splits if_splits)

lemma getline_left: "f_stream f = Some st \<Longrightarrow> good f \<Longrightarrow> stream_rest st \<noteq> [] \<Longrightarrow>
    file_left (snd (stream_getline st f)) < length (stream_rest st)"
  by (auto simp: stream_getline_def file_left_def advance_def stream_rest_def Let_def split: if_splits)

function readAll_loop :: "string \<Rightarrow> file_obj \<Rightarrow> string \<times> file_obj" where
  "readAll_loop all f =
     (case atEnd f of (e, f1) \<Rightarrow>
        if e then (all, f1)
        else (case f_stream f1 of
                None \<Rightarrow> (all, f1)
              | Some st \<Rightarrow> (case stream_getline st f1 of (line, f2) \<Rightarrow>
                  if line = [] then (all, f2) else readAll_loop (all @ line) f2)))"
  by pat_completeness auto

termination
proof (relation "measure (\<lambda>(all, f). file_left f)", goal_cases)
  case (2 all f e f1 st line f2)
  then have "atEnd f = (False, f1)" "f_stream f1 = Some st" by simp_all
  then have "f1 = f" "good f" "f_stream f = Some st" "stream_rest st \<noteq> []" by (auto simp: atEnd_False)
  moreover have "snd (stream_getline st f1) = f2" using 2(4) by (metis snd_conv)
  ultimately show ?case using getline_left [of f st] by (simp add: file_left_def)
qed simp

definition file_readAll :: "file_obj \<Rightarrow> string \<times> file_obj" where
  "file_readAll f = (if \<not> file_isOpen f \<or> \<not> checkMode ReadOnly f then ([], f) else readAll_loop [] f)"

text \<open>
  \<open>readMaxSize\<close> makes a string from an array that nothing terminates: it ends at the first NUL
  that was read, and runs over the end of the array when there is none.
\<close>

definition readMaxSize :: "nat \<Rightarrow> file_obj \<Rightarrow> (string \<times> file_obj) res" where
  "readMaxSize maxSize f = (case f_stream f of
       None \<Rightarrow> Inr ([], f)
     | Some st \<Rightarrow>
         if \<not> checkMode ReadOnly f then Inr ([], f)
         else (let got = (if good f then take maxSize (stream_rest st) else []);
                   short = (length got < maxSize);
                   f1 = (advance (length got) st f)\<lparr>f_eof := (f_eof f \<or> short \<and> good f), f_fail := (f_fail f \<or> short \<or> \<not> good f)\<rparr> in
               if CHR 0x00 \<in> set got then Inr (takeWhile (\<lambda>c. c \<noteq> CHR 0x00) got, f1) else Inl MemoryError))"

definition stream_write :: "string \<Rightarrow> fstream \<Rightarrow> fstream" where
  "stream_write str st =
     (let wpos = (if st_mode st AND 1 \<noteq> 0 then length (st_data st) else st_pos st) in
      st\<lparr>st_data := blit wpos str (st_data st @ replicate (wpos - length (st_data st)) (CHR 0x00)), st_pos := wpos + length str\<rparr>)"

definition file_write :: "string \<Rightarrow> file_obj \<Rightarrow> file_obj" where
  "file_write str f = (case f_stream f of
       None \<Rightarrow> f
     | Some st \<Rightarrow>
         if \<not> checkMode WriteOnly f then f
         else if \<not> good f then f\<lparr>f_fail := True\<rparr>
         else if \<not> can_write st then (if str = [] then f else f\<lparr>f_bad := True\<rparr>)
         else f\<lparr>f_stream := Some (stream_write str st)\<rparr>)"

definition stream_seek :: "int \<Rightarrow> fstream \<Rightarrow> file_obj \<Rightarrow> file_obj" where
  "stream_seek pos st f =
     (if failed f then f
      else if pos < 0 then f\<lparr>f_fail := True\<rparr>
      else f\<lparr>f_stream := Some (st\<lparr>st_pos := nat pos\<rparr>)\<rparr>)"

definition file_seek :: "int \<Rightarrow> file_obj \<Rightarrow> file_obj" where
  "file_seek offset f = (case f_stream f of None \<Rightarrow> f | Some st \<Rightarrow> stream_seek offset st f)"

fun seek_base :: "seek_type \<Rightarrow> fstream \<Rightarrow> int" where
  "seek_base SeekBegin st = 0"
| "seek_base SeekCurrent st = int (st_pos st)"
| "seek_base SeekEnd st = int (length (st_data st))"

definition file_seek_type :: "seek_type \<Rightarrow> int \<Rightarrow> file_obj \<Rightarrow> file_obj" where
  "file_seek_type type offset f = (case f_stream f of
       None \<Rightarrow> f | Some st \<Rightarrow> stream_seek (seek_base type st + offset) st f)"

definition file_tell :: "file_obj \<Rightarrow> int" where
  "file_tell f = (case f_stream f of None \<Rightarrow> - 1 | Some st \<Rightarrow> if failed f then - 1 else int (st_pos st))"

text \<open>\<open>file_size\<close> throws when there is no file; the exception is caught.\<close>

definition file_size :: "file_obj \<Rightarrow> disk \<Rightarrow> int" where
  "file_size f d = (case disk_stat d (f_path f) of Inr (q, Some (DiskFile c)) \<Rightarrow> int (length c) | _ \<Rightarrow> 0)"

definition file_remove_path :: "string \<Rightarrow> disk \<Rightarrow> (bool \<times> disk) res" where
  "file_remove_path p d = disk_remove p d"

definition file_remove :: "file_obj \<Rightarrow> disk \<Rightarrow> (bool \<times> disk) res" where
  "file_remove f d = (if file_isOpen f then Inr (False, d) else file_remove_path (f_path f) d)"

definition rdstate :: "file_obj \<Rightarrow> 32 word" where
  "rdstate f = (if f_bad f then 1 else 0) OR (if f_eof f then 2 else 0) OR (if f_fail f then 4 else 0)"

text \<open>\<open>goodbit\<close> is 0, so its test never succeeds.\<close>

definition errorString :: "file_obj \<Rightarrow> string" where
  "errorString f =
     (if rdstate f AND 4 \<noteq> 0 then ''failbit '' else []) @
     (if rdstate f AND 2 \<noteq> 0 then ''eofbit '' else []) @
     (if rdstate f AND 1 \<noteq> 0 then ''badbit '' else []) @
     (if rdstate f AND 0 \<noteq> 0 then ''goodbit '' else [])"

definition file_copy :: "string \<Rightarrow> string \<Rightarrow> disk \<Rightarrow> bool \<times> disk" where
  "file_copy src dst d = disk_copy_file src dst d"

definition copyTo :: "string \<Rightarrow> file_obj \<Rightarrow> disk \<Rightarrow> bool \<times> disk" where
  "copyTo dest f d = file_copy (f_path f) dest d"

definition file_exists :: "disk \<Rightarrow> string \<Rightarrow> bool res" where
  "file_exists d p = disk_exists d p"

definition file_rename :: "string \<Rightarrow> string \<Rightarrow> disk \<Rightarrow> (bool \<times> disk) res" where
  "file_rename src dst d = bindR (disk_rename src dst d) (\<lambda>d1. bindR (file_exists d1 dst) (\<lambda>ok. Inr (ok, d1)))"

definition renameTo :: "string \<Rightarrow> file_obj \<Rightarrow> disk \<Rightarrow> (bool \<times> disk) res" where
  "renameTo dest f d = file_rename (f_path f) dest d"

definition filesystemSymLinkTarget :: "disk \<Rightarrow> string \<Rightarrow> string res" where
  "filesystemSymLinkTarget d fileName = disk_read_symlink d fileName"

definition file_link :: "string \<Rightarrow> string \<Rightarrow> disk \<Rightarrow> bool \<times> disk" where
  "file_link fileName linkName d = disk_symlink fileName linkName d"

section \<open>Process\<close>

definition fileBaseName :: "string \<Rightarrow> string" where
  "fileBaseName basename =
     (case find_last_of CHR ''/'' basename of
        Some pos \<Rightarrow> drop (pos + 1) basename
      | None \<Rightarrow> basename)"

text \<open>The answers of the kernel are arguments, \<open>None\<close> for an error.\<close>

definition hostname :: "string option \<Rightarrow> string" where
  "hostname answer = (case answer of Some buf \<Rightarrow> buf | None \<Rightarrow> [])"

definition getCwd :: "string option \<Rightarrow> string" where
  "getCwd answer = (case answer of None \<Rightarrow> ''unknowncwd'' | Some buf \<Rightarrow> buf)"

text \<open>\<open>system(3)\<close> runs a command of the shell, which may change the disk, and returns its status.\<close>

definition excute :: "(string \<Rightarrow> disk \<Rightarrow> int \<times> disk) \<Rightarrow> string \<Rightarrow> disk \<Rightarrow> int \<times> disk" where
  "excute system cmd d = system cmd d"

text \<open>A pid that is not positive is never passed to \<open>kill(2)\<close>.\<close>

definition kill_pid :: "(int \<Rightarrow> bool) \<Rightarrow> int \<Rightarrow> bool" where
  "kill_pid kernel_kill pid = (if pid \<le> 0 then False else kernel_kill pid)"

definition pid_file :: string where
  "pid_file = ''/tmp/pid.txt''"

definition getPidFromName :: "(string \<Rightarrow> disk \<Rightarrow> int \<times> disk) \<Rightarrow> string \<Rightarrow> disk \<Rightarrow> (int \<times> disk) res" where
  "getPidFromName system name d =
     (let (ret, d1) = excute system (''pidof '' @ name @ '' > '' @ pid_file) d in
      if ret \<noteq> 0 then Inr (0, d1)
      else (case file_open_mode ReadOnly (new_File pid_file, d1) of (ok, f, d2) \<Rightarrow>
              if \<not> ok then Inr (0, d2)
              else (case atEnd f of (e, f1) \<Rightarrow>
                      if e then Inr (0, snd (file_close (f1, d2)))
                      else (case readLine f1 of (line, f2) \<Rightarrow>
                              bindR (stoi line) (\<lambda>pid. Inr (pid, snd (file_close (f2, d2))))))))"

definition kill_name :: "(int \<Rightarrow> bool) \<Rightarrow> (string \<Rightarrow> disk \<Rightarrow> int \<times> disk) \<Rightarrow> string \<Rightarrow> disk \<Rightarrow> (bool \<times> disk) res" where
  "kill_name kernel_kill system name d =
     bindR (getPidFromName system name d) (\<lambda>(pid, d1). Inr (kill_pid kernel_kill pid, d1))"

text \<open>
  The environment is a list of texts \<open>NAME=value\<close>. \<open>setenv\<close> refuses an empty name and one with an
  equality sign; it replaces the first entry of the name or adds one.
\<close>

definition systemEnvironment :: "string list \<Rightarrow> string list" where
  "systemEnvironment environ = environ"

definition entry_of :: "string \<Rightarrow> string \<Rightarrow> bool" where
  "entry_of name e \<longleftrightarrow> prefix (name @ ''='') e"

fun put_entry :: "string \<Rightarrow> string \<Rightarrow> string list \<Rightarrow> string list" where
  "put_entry name v [] = [name @ ''='' @ v]"
| "put_entry name v (e # es) = (if entry_of name e then (name @ ''='' @ v) # es else e # put_entry name v es)"

definition setEnvironment :: "string \<Rightarrow> string \<Rightarrow> string list \<Rightarrow> bool \<times> string list" where
  "setEnvironment name v environ =
     (if name = [] \<or> CHR ''='' \<in> set name then (False, environ) else (True, put_entry name v environ))"

definition getenv :: "string list \<Rightarrow> string \<Rightarrow> string option" where
  "getenv environ name = map_option (\<lambda>e. drop (length name + 1) e) (find (entry_of name) environ)"

definition getEnvironment :: "string list \<Rightarrow> string \<Rightarrow> string" where
  "getEnvironment environ name = (case getenv environ name of None \<Rightarrow> [] | Some v \<Rightarrow> v)"

definition nullDevice :: file_obj where
  "nullDevice = new_File ''/dev/null''"

section \<open>What is written is read back\<close>

lemmas mode_defs = ReadOnly_def WriteOnly_def ReadAndWrite_def AppendMode_def Truncate_def Binary_def

lemma follow_end: "follow n d p = Some q \<Longrightarrow> at_path d q \<noteq> Some (DiskLink t)"
  by (induction n d p rule: follow.induct)
    (subst (asm) (2) follow.simps, auto split: option.splits disk_node.splits nat.splits)

lemma follow_update: "follow n d p = Some q \<Longrightarrow> follow n (AList.update q (DiskFile c) d) p = Some q"
proof (induction n d p rule: follow.induct)
  case (1 links d p)
  show ?case
  proof (cases "p = q")
    case True
    then show ?thesis by (subst follow.simps) (simp add: update_conv')
  next
    case False
    with 1 show ?thesis
      by (subst follow.simps, subst (asm) (2) follow.simps) (auto simp: update_conv' split: option.splits disk_node.splits nat.splits)
  qed
qed

fun read_lines :: "nat \<Rightarrow> file_obj \<Rightarrow> string list \<times> file_obj" where
  "read_lines 0 f = ([], f)"
| "read_lines (Suc n) f = (case readLine f of (l, f1) \<Rightarrow> case read_lines n f1 of (ls, f2) \<Rightarrow> (l # ls, f2))"

definition write_lines :: "string list \<Rightarrow> file_obj \<Rightarrow> file_obj" where
  "write_lines ls f = fold (\<lambda>l. file_write (l @ [newline])) ls f"

definition lines_text :: "string list \<Rightarrow> string" where
  "lines_text ls = concat (map (\<lambda>l. l @ [newline]) ls)"

lemma write_lines_data:
  assumes "f_stream f = Some st" and "good f" and "f_openMode f = WriteOnly" and "st_mode st = WriteOnly"
    and "st_pos st = length (st_data st)"
  shows "\<exists>st'. write_lines ls f = f\<lparr>f_stream := Some st'\<rparr> \<and> st_data st' = st_data st @ lines_text ls \<and>
    st_path st' = st_path st \<and> st_mode st' = WriteOnly"
  using assms
proof (induction ls arbitrary: f st)
  case Nil
  then show ?case by (intro exI [of _ st]) (simp add: write_lines_def lines_text_def)
next
  case (Cons l ls)
  let ?st = "stream_write (l @ [newline]) st"
  let ?f = "f\<lparr>f_stream := Some ?st\<rparr>"
  have st: "st_data ?st = st_data st @ l @ [newline]" "st_pos ?st = length (st_data ?st)" "st_mode ?st = WriteOnly" "st_path ?st = st_path st"
    using Cons.prems by (simp_all add: stream_write_def blit_def Let_def WriteOnly_def)
  have w: "file_write (l @ [newline]) f = ?f"
    using Cons.prems by (simp add: file_write_def checkMode_def can_write_def WriteOnly_def)
  have "\<exists>st'. write_lines ls ?f = ?f\<lparr>f_stream := Some st'\<rparr> \<and> st_data st' = st_data ?st @ lines_text ls \<and>
      st_path st' = st_path ?st \<and> st_mode st' = WriteOnly"
    by (rule Cons.IH) (use Cons.prems st in \<open>simp_all add: good_def\<close>)
  then show ?case using w st by (auto simp: write_lines_def lines_text_def)
qed

lemma readLine_line:
  assumes "f_stream f = Some st" and "good f" and "f_openMode f = ReadOnly" and "st_mode st = ReadOnly"
    and "drop (st_pos st) (st_data st) = l @ newline # rest" and "newline \<notin> set l"
  shows "readLine f = (l, f\<lparr>f_stream := Some (st\<lparr>st_pos := st_pos st + (length l + 1)\<rparr>)\<rparr>)"
proof -
  have r: "stream_rest st = l @ newline # rest" using assms(4,5) by (simp add: stream_rest_def ReadOnly_def)
  have tw: "takeWhile (\<lambda>c. c \<noteq> newline) (l @ newline # rest) = l" using assms(6) by (simp add: takeWhile_append2 takeWhile_tail) (metis takeWhile_eq_all_conv)
  have "min (length (l @ newline # rest)) (length l + 1) = length l + 1" by simp
  with assms r tw show ?thesis
    by (simp add: readLine_def checkMode_def stream_getline_def advance_def good_def Let_def)
qed

lemma read_lines_data:
  assumes "f_stream f = Some st" and "good f" and "f_openMode f = ReadOnly" and "st_mode st = ReadOnly"
    and "drop (st_pos st) (st_data st) = lines_text ls" and "\<forall>l \<in> set ls. newline \<notin> set l"
  shows "\<exists>f'. read_lines (length ls) f = (ls, f') \<and> fst (atEnd f')"
  using assms
proof (induction ls arbitrary: f st)
  case Nil
  then show ?case by (auto simp: atEnd_def stream_rest_def lines_text_def)
next
  case (Cons l ls)
  let ?st = "st\<lparr>st_pos := st_pos st + (length l + 1)\<rparr>"
  have d: "drop (st_pos st) (st_data st) = l @ newline # lines_text ls" using Cons.prems by (simp add: lines_text_def)
  have "drop (st_pos ?st) (st_data ?st) = drop (length l + 1) (drop (st_pos st) (st_data st))" by (simp add: add.commute)
  then have "drop (st_pos ?st) (st_data ?st) = lines_text ls" using d by simp
  then have "\<exists>f'. read_lines (length ls) (f\<lparr>f_stream := Some ?st\<rparr>) = (ls, f') \<and> fst (atEnd f')"
    by (intro Cons.IH [of _ ?st]) (use Cons.prems in \<open>simp_all add: good_def\<close>)
  moreover have "readLine f = (l, f\<lparr>f_stream := Some ?st\<rparr>)"
    using readLine_line [OF Cons.prems(1-4) d] Cons.prems(6) by simp
  ultimately show ?case by auto
qed

text \<open>
  Lines written to a file are read back: when a file could be opened for writing, the lines
  written to it and the file closed, then the disk holds exactly these lines where the path leads
  (through its links, if any) and is unchanged elsewhere; the file can be opened again, reading line by line gives
  the lines in order, and then the end of the file is reported.
\<close>

theorem file_lines_roundtrip:
  assumes "file_open p WriteOnly (f0, d0) = (True, f, d)" and "\<forall>l \<in> set ls. newline \<notin> set l" and "f_stream f0 = None"
    and "file_close (write_lines ls f, d) = (f1, d1)"
  shows "\<exists>q f2 f3. at_path d1 = (at_path d0)(q \<mapsto> DiskFile (lines_text ls)) \<and> follow max_links d0 p = Some q \<and>
    file_open p ReadOnly (f1, d1) = (True, f2, d1) \<and> read_lines (length ls) f2 = (ls, f3) \<and> fst (atEnd f3)"
proof -
  from assms(1,3) obtain st where st: "stream_open p WriteOnly d0 = Some (st, d)"
    "f = f0\<lparr>f_path := p, f_openMode := WriteOnly, f_stream := Some st, f_bad := False, f_eof := False, f_fail := False\<rparr>"
    by (auto simp: file_open_def file_close_def Let_def split: option.splits)
  from st(1) obtain q where q: "follow max_links d0 p = Some q" "st = \<lparr>st_path = q, st_mode = WriteOnly, st_data = [], st_pos = 0\<rparr>"
    "d = AList.update q (DiskFile []) d0"
    by (auto simp: stream_open_def disk_stat_def stream_data_def WriteOnly_def Let_def split: option.splits if_splits)
  from write_lines_data [of f st ls] st(2) q(2) obtain st' where
    w: "write_lines ls f = f\<lparr>f_stream := Some st'\<rparr>" "st_data st' = lines_text ls" "st_path st' = q" "st_mode st' = WriteOnly"
    by (auto simp: good_def)
  have f1: "f1 = f\<lparr>f_stream := None\<rparr>" and d1: "d1 = AList.update q (DiskFile (lines_text ls)) d"
    using assms(4) w by (auto simp: file_close_def stream_sync_def can_write_def WriteOnly_def)
  have m: "at_path d1 = (at_path d0)(q \<mapsto> DiskFile (lines_text ls))" by (auto simp: d1 q(3) update_conv')
  have "disk_stat d1 p = Inr (q, Some (DiskFile (lines_text ls)))"
    using follow_update [OF follow_update [OF q(1)]] by (simp add: disk_stat_def d1 q(3) update_conv')
  moreover have "AList.update q (DiskFile (lines_text ls)) d1 = d1" using m by (intro update_triv) simp
  ultimately have o: "stream_open p ReadOnly d1 = Some (\<lparr>st_path = q, st_mode = ReadOnly, st_data = lines_text ls, st_pos = 0\<rparr>, d1)"
    by (simp add: stream_open_def stream_data_def ReadOnly_def Let_def)
  let ?f2 = "f1\<lparr>f_path := p, f_openMode := ReadOnly,
    f_stream := Some \<lparr>st_path = q, st_mode = ReadOnly, st_data = lines_text ls, st_pos = 0\<rparr>, f_bad := False, f_eof := False, f_fail := False\<rparr>"
  have "file_open p ReadOnly (f1, d1) = (True, ?f2, d1)" by (simp add: file_open_def file_close_def f1 o)
  moreover have "\<exists>f3. read_lines (length ls) ?f2 = (ls, f3) \<and> fst (atEnd f3)"
    by (rule read_lines_data [of _ "\<lparr>st_path = q, st_mode = ReadOnly, st_data = lines_text ls, st_pos = 0\<rparr>"]) (use assms(2) in \<open>simp_all add: good_def\<close>)
  ultimately show ?thesis using m q(1) by blast
qed

text \<open>A path that is a link to a file that does not exist yet.\<close>

definition sample_disk :: disk where
  "sample_disk = [(''/tmp'', DiskDir), (''/tmp/a'', DiskLink ''b'')]"

lemma file_lines_roundtrip_example:
  "\<exists>f d f1 f2 f3. file_open ''/tmp/a'' WriteOnly (new_File [], sample_disk) = (True, f, d) \<and>
     file_close (write_lines [''one'', []] f, d) = (f1, (''/tmp'', DiskDir) # (''/tmp/a'', DiskLink ''b'') # [(''/tmp/b'', DiskFile (lines_text [''one'', []]))]) \<and>
     file_open ''/tmp/a'' ReadOnly (f1, (''/tmp'', DiskDir) # (''/tmp/a'', DiskLink ''b'') # [(''/tmp/b'', DiskFile (lines_text [''one'', []]))]) =
       (True, f2, (''/tmp'', DiskDir) # (''/tmp/a'', DiskLink ''b'') # [(''/tmp/b'', DiskFile (lines_text [''one'', []]))]) \<and>
     read_lines 2 f2 = ([''one'', []], f3)"
proof -
  have fo: "follow max_links sample_disk ''/tmp/a'' = Some ''/tmp/b''"
    by (simp add: max_links_def numeral_eq_Suc follow.simps sample_disk_def link_path_def path_join_def is_absolute_def parent_path_def find_last_of_def)
  have pd: "parent_is_dir sample_disk ''/tmp/b''"
    by (simp add: parent_is_dir_def sample_disk_def parent_path_def find_last_of_def)
  let ?d = "AList.update ''/tmp/b'' (DiskFile []) sample_disk"
  let ?st = "\<lparr>st_path = ''/tmp/b'', st_mode = WriteOnly, st_data = [], st_pos = 0\<rparr>"
  let ?f = "(new_File [])\<lparr>f_path := ''/tmp/a'', f_openMode := WriteOnly, f_stream := Some ?st\<rparr>"
  have "stream_open ''/tmp/a'' WriteOnly sample_disk = Some (?st, ?d)"
    using fo pd by (simp add: stream_open_def disk_stat_def stream_data_def WriteOnly_def Let_def) (simp add: sample_disk_def)
  then have o: "file_open ''/tmp/a'' WriteOnly (new_File [], sample_disk) = (True, ?f, ?d)"
    by (simp add: file_open_def file_close_def new_File_def)
  from write_lines_data [of ?f ?st "[''one'', []]"] obtain st' where
    w: "write_lines [''one'', []] ?f = ?f\<lparr>f_stream := Some st'\<rparr>" "st_data st' = lines_text [''one'', []]" "st_path st' = ''/tmp/b''" "st_mode st' = WriteOnly"
    by (auto simp: good_def new_File_def)
  have c: "file_close (write_lines [''one'', []] ?f, ?d) = (?f\<lparr>f_stream := None\<rparr>, (''/tmp'', DiskDir) # (''/tmp/a'', DiskLink ''b'') # [(''/tmp/b'', DiskFile (lines_text [''one'', []]))])"
    using w by (simp add: file_close_def stream_sync_def can_write_def) (simp add: WriteOnly_def sample_disk_def)
  from file_lines_roundtrip [OF o _ _ c] show ?thesis using o c by (auto simp: newline_def new_File_def numeral_eq_Suc)
qed

section \<open>Streams keep their errors\<close>

text \<open>
  Once \<open>atEnd\<close> has answered true, the stream writes nothing any more, even after a \<open>seek\<close>: the end-of-file
  bit stays set until the file is opened again, and \<open>write\<close> does not report it.
\<close>

lemma write_after_end_lost:
  assumes "f_stream f = Some st" and "atEnd f = (True, f1)"
  shows "f_stream (file_write str (file_seek k f1)) = f_stream (file_seek k f1)"
  using assms by (auto simp: atEnd_def file_write_def file_seek_def stream_seek_def good_def failed_def split: if_splits option.splits)

text \<open>A position before the beginning is refused and makes every later operation fail.\<close>

lemma negative_seek_fails:
  assumes "f_stream f = Some st" and "seek_base type st + offset < 0"
  shows "failed (file_seek_type type offset f) \<and> file_tell (file_seek_type type offset f) = - 1 \<and>
    f_stream (file_write str (file_seek_type type offset f)) = f_stream f"
  using assms by (auto simp: file_seek_type_def stream_seek_def failed_def file_tell_def file_write_def good_def)

text \<open>Appending always writes at the end, wherever the position is.\<close>

lemma append_writes_at_end:
  assumes "f_stream f = Some st" and "good f" and "f_openMode f = AppendMode" and "st_mode st = AppendMode"
  shows "\<exists>st'. f_stream (file_write xs f) = Some st' \<and> st_data st' = st_data st @ xs"
  using assms
  by (simp add: file_write_def checkMode_def can_write_def stream_write_def Let_def mode_defs blit_def)

text \<open>
  \<open>readAll\<close> joins the lines without their newlines and stops at the first empty line.
\<close>

lemma readAll_loop_lines:
  assumes "f_stream f = Some st" and "good f" and "f_openMode f = ReadOnly" and "st_mode st = ReadOnly"
    and "drop (st_pos st) (st_data st) = lines_text ls @ rest"
    and "\<forall>l \<in> set ls. l \<noteq> [] \<and> newline \<notin> set l" and "rest = [] \<or> hd rest = newline"
  shows "fst (readAll_loop all f) = all @ concat ls"
  using assms
proof (induction ls arbitrary: all f st)
  case Nil
  then have r: "stream_rest st = rest" by (simp add: stream_rest_def ReadOnly_def lines_text_def)
  show ?case
  proof (cases rest)
    case (Cons x xs)
    with Nil.prems(7) have "takeWhile (\<lambda>c. c \<noteq> newline) rest = []" by simp
    with Nil.prems(1,2) r Cons show ?thesis by (subst readAll_loop.simps) (simp add: atEnd_def stream_getline_def Let_def)
  qed (use Nil r in \<open>subst readAll_loop.simps, simp add: atEnd_def\<close>)
next
  case (Cons l ls)
  let ?st = "st\<lparr>st_pos := st_pos st + (length l + 1)\<rparr>"
  let ?f = "f\<lparr>f_stream := Some ?st\<rparr>"
  have d: "drop (st_pos st) (st_data st) = l @ newline # lines_text ls @ rest" using Cons.prems(5) by (simp add: lines_text_def)
  have l: "l \<noteq> []" "newline \<notin> set l" using Cons.prems(6) by auto
  have "stream_rest st \<noteq> []" using d Cons.prems(4) by (simp add: stream_rest_def ReadOnly_def)
  then have e: "atEnd f = (False, f)" using Cons.prems(1,2) by (simp add: atEnd_def)
  have g: "stream_getline st f = (l, ?f)"
    using readLine_line [OF Cons.prems(1-4) d l(2)] Cons.prems(1,3) by (simp add: readLine_def checkMode_def)
  have "drop (st_pos ?st) (st_data ?st) = drop (length l + 1) (drop (st_pos st) (st_data st))" by (simp add: add.commute)
  then have "drop (st_pos ?st) (st_data ?st) = lines_text ls @ rest" using d by simp
  then have "fst (readAll_loop (all @ l) ?f) = (all @ l) @ concat ls"
    by (intro Cons.IH [of _ ?st]) (use Cons.prems in \<open>simp_all add: good_def\<close>)
  with e g l Cons.prems(1) show ?case by (subst readAll_loop.simps) simp
qed

section \<open>Renaming, copying and linking\<close>

lemma map_of_rename:
  assumes "\<forall>e \<in> set d. below src (fst e) \<longrightarrow> fst e = src" and "dst \<notin> fst ` set d" and "src \<noteq> dst"
  shows "map_of (map (\<lambda>(p, n). (moved_path src dst p, n)) d) =
    (if at_path d src = None then at_path d else (at_path d)(src := None, dst := at_path d src))"
  using assms
proof (induction d)
  case (Cons e d)
  obtain p n where e: "e = (p, n)" by fastforce
  have "moved_path src dst p = (if p = src then dst else p)"
    using Cons.prems(1) e by (auto simp: moved_path_def below_def)
  then show ?case using Cons e by (auto simp: fun_eq_iff)
qed simp

text \<open>
  Renaming a file moves its content to the new path, replacing a file that is there, and changes nothing else;
  a source that is not there or a directory in the way is an exception, not the answer false.
\<close>

lemma rename_moves_file:
  assumes "at_path d src = Some (DiskFile c)" and "disk_children d src = []" and "src \<noteq> dst" and "\<not> rename_refused d src dst"
  shows "\<exists>d1. file_rename src dst d = Inr (True, d1) \<and> at_path d1 = (at_path d)(src := None, dst \<mapsto> DiskFile c)"
proof -
  let ?d = "AList.delete dst d"
  let ?d1 = "map (\<lambda>(p, n). (moved_path src dst p, n)) ?d"
  have "\<forall>e \<in> set ?d. below src (fst e) \<longrightarrow> fst e = src"
    using assms(2) by (auto simp: disk_children_def filter_empty_conv AList.delete_eq)
  from map_of_rename [OF this _ assms(3)] assms(1,3) have m: "at_path ?d1 = (at_path d)(src := None, dst \<mapsto> DiskFile c)"
    by (auto simp: delete_conv' delete_keys fun_eq_iff simp flip: set_map)
  have "follow max_links ?d1 dst = Some dst" using m by (subst follow.simps) simp
  then have "file_exists ?d1 dst = Inr True" using m by (simp add: file_exists_def disk_exists_def disk_stat_def)
  with m assms(3,4) show ?thesis by (simp add: file_rename_def disk_rename_def)
qed

lemma rename_missing_throws: "at_path d src = None \<Longrightarrow> file_rename src dst d = Inl UncaughtException"
  by (simp add: file_rename_def disk_rename_def rename_refused_def)

text \<open>A copy has the content of the source and never replaces a file.\<close>

lemma copy_keeps_files:
  assumes "file_copy src dst d = (ok, d1)"
  shows "if ok then \<exists>q r c. disk_stat d src = Inr (q, Some (DiskFile c)) \<and> disk_stat d dst = Inr (r, None) \<and>
              at_path d1 = (at_path d)(r \<mapsto> DiskFile c)
         else d1 = d"
  using assms
  by (auto simp: file_copy_def disk_copy_file_def fun_eq_iff update_conv'
      split: sum.splits prod.splits option.splits disk_node.splits if_splits)

text \<open>The target of a link is read back; a link to itself exists nowhere: the kernel gives up and the query throws.\<close>

lemma link_target:
  assumes "file_link target link d = (True, d1)"
  shows "filesystemSymLinkTarget d1 link = Inr target \<and> symlinkTarget d1 link = target \<and> fi_isSymLink d1 link"
  using assms
  by (auto simp: file_link_def disk_symlink_def filesystemSymLinkTarget_def symlinkTarget_def fi_isSymLink_def disk_read_symlink_def
      split: if_splits)

lemma link_loop_throws:
  assumes "at_path d p = Some (DiskLink p)" and "is_absolute p"
  shows "file_exists d p = Inl UncaughtException"
proof -
  have "follow n d p = None" for n
    by (induction n) (subst follow.simps, simp add: assms link_path_def path_join_def)+
  then show ?thesis by (simp add: file_exists_def disk_exists_def disk_stat_def)
qed

section \<open>Environment and processes\<close>

lemma find_put_entry: "find (entry_of name) (put_entry name v env) = Some (name @ ''='' @ v)"
  by (induction env) (auto simp: entry_of_def)

lemma find_put_other:
  assumes "CHR ''='' \<notin> set name" and "CHR ''='' \<notin> set other" and "other \<noteq> name"
  shows "find (entry_of other) (put_entry name v env) = find (entry_of other) env"
proof -
  have "prefix (other @ ''='') e \<Longrightarrow> takeWhile (\<lambda>c. c \<noteq> CHR ''='') e = other" for e
    using assms(2) by (auto elim!: prefixE simp: takeWhile_append2 takeWhile_tail takeWhile_eq_all_conv)
  moreover have "prefix (name @ ''='') e \<Longrightarrow> takeWhile (\<lambda>c. c \<noteq> CHR ''='') e = name" for e
    using assms(1) by (auto elim!: prefixE simp: takeWhile_append2 takeWhile_tail takeWhile_eq_all_conv)
  ultimately have no: "prefix (name @ ''='') e \<Longrightarrow> \<not> prefix (other @ ''='') e" for e using assms(3) by blast
  have "\<not> prefix (other @ ''='') (name @ ''='' @ v)" by (rule no) simp
  then show ?thesis using no by (induction env) (auto simp: entry_of_def)
qed

text \<open>A variable that was set is read back, and the others keep their values.\<close>

lemma environment_roundtrip:
  assumes "setEnvironment name v env = (True, env1)"
  shows "getEnvironment env1 name = v \<and>
    (\<forall>other. CHR ''='' \<notin> set other \<and> other \<noteq> name \<longrightarrow> getEnvironment env1 other = getEnvironment env other)"
  using assms find_put_entry [of name v env] find_put_other [of name _ v env]
  by (auto simp: setEnvironment_def getEnvironment_def getenv_def split: if_splits)

text \<open>Whatever \<open>pidof\<close> writes, no process group and not every process is killed: only positive pids are used.\<close>

lemma kill_name_positive:
  assumes "kill_name kernel_kill system name d = Inr (True, d1)"
  shows "\<exists>pid > 0. kernel_kill pid"
proof -
  from assms obtain pid where "kill_pid kernel_kill pid" by (auto simp: kill_name_def res_simps)
  then show ?thesis by (intro exI [of _ pid]) (simp add: kill_pid_def split: if_splits)
qed

end
