(* ===== verification/Utils_Logging.thy ===== *)
theory Utils_Logging
  imports Utils_LogStream Core_File
begin

text \<open>
  \<open>utils/LogOut\<close>, \<open>utils/Logging\<close> and \<open>utils/LogFile\<close>: a log statement builds one line and gives it to
  the configured output; the file output changes the file by size and by day. What reaches
  the standard output, the file and the asynchronous logger is recorded as a list of effects
  in order. Clock, thread id, \<open>errno\<close>, \<open>strftime\<close> and the size of the open file are arguments;
  the log directory is the file system of the model. \<open>LogFile.cpp\<close> only compiles with assertions switched off
  (\<open>getFileName\<close> asserts on an undeclared name), so its assertions have no effect here.
\<close>

section \<open>LogOut\<close>

text \<open>\<open>err\<close> holds \<open>errno\<close> and its \<open>strerror\<close> when the statement asks for them.\<close>

definition header_items :: "string \<Rightarrow> string \<Rightarrow> string \<Rightarrow> (32 word \<times> string) option \<Rightarrow> log_item list" where
  "header_items time tid level err =
     [LString time, LCStr '' '', LCStr tid, LCStr '' '', LCStr level] @
     (case err of None \<Rightarrow> [] | Some (no, msg) \<Rightarrow> [LCStr '' Error: '', LInt no, LCStr '' '', LCStr msg, LCStr ''. ''])"

definition new_LogOut :: "string \<Rightarrow> string \<Rightarrow> string \<Rightarrow> (32 word \<times> string) option \<Rightarrow> log_buffer res" where
  "new_LogOut time tid level err = stream_items (header_items time tid level err) (new_LogBuffer normalBuffer)"

definition finish_items :: "string \<Rightarrow> 32 word \<Rightarrow> log_item list" where
  "finish_items file line = [LCStr '' - '', LCStr file, LCStr '':'', LInt line, LCStr [CHR 0x0A]]"

definition finishLog :: "string \<Rightarrow> 32 word \<Rightarrow> log_buffer \<Rightarrow> log_buffer res" where
  "finishLog file line b = stream_items (finish_items file line) b"

section \<open>Logging\<close>

datatype log_level = DEBUG | INFO | WARN | ERROR | FATAL

fun level_num :: "log_level \<Rightarrow> nat" where
  "level_num DEBUG = 0"
| "level_num INFO = 1"
| "level_num WARN = 2"
| "level_num ERROR = 3"
| "level_num FATAL = 4"

lemma level_num_inject [simp]: "level_num a = level_num b \<longleftrightarrow> a = b"
  by (cases a; cases b) simp_all

instantiation log_level :: linorder
begin

definition less_eq_log_level :: "log_level \<Rightarrow> log_level \<Rightarrow> bool" where
  "less_eq_log_level a b \<longleftrightarrow> level_num a \<le> level_num b"

definition less_log_level :: "log_level \<Rightarrow> log_level \<Rightarrow> bool" where
  "less_log_level a b \<longleftrightarrow> level_num a < level_num b"

instance
  by standard (auto simp: less_eq_log_level_def less_log_level_def)

end

fun s_arrLevel :: "log_level \<Rightarrow> string" where
  "s_arrLevel DEBUG = ''[DEBUG] ''"
| "s_arrLevel INFO = ''[INFO] ''"
| "s_arrLevel WARN = ''[WARN] ''"
| "s_arrLevel ERROR = ''[ERROR] ''"
| "s_arrLevel FATAL = ''[FATAL] ''"

datatype output_func = DefaultOutput | FileOutput | OutAndLog | AsyncOutput

datatype flush_func = DefaultFlush | FileFlush | FlushAll

datatype log_effect = ToStdout string | ToFile string | ToAsync string | FlushStdout | FlushFile

record logging =
  lg_level :: log_level
  lg_model :: int
  lg_output :: output_func
  lg_flush :: flush_func

definition initial_logging :: logging where
  "initial_logging = \<lparr>lg_level = INFO, lg_model = 1, lg_output = DefaultOutput, lg_flush = DefaultFlush\<rparr>"

definition setLogLevel :: "log_level \<Rightarrow> logging \<Rightarrow> logging" where
  "setLogLevel l g = g\<lparr>lg_level := l\<rparr>"

definition setOutputFunc :: "output_func \<Rightarrow> logging \<Rightarrow> logging" where
  "setOutputFunc f g = g\<lparr>lg_output := f\<rparr>"

definition setFlushFunc :: "flush_func \<Rightarrow> logging \<Rightarrow> logging" where
  "setFlushFunc f g = g\<lparr>lg_flush := f\<rparr>"

definition setOutputMode :: "int \<Rightarrow> logging \<Rightarrow> logging" where
  "setOutputMode iMode g =
     (let g1 = g\<lparr>lg_model := iMode\<rparr> in
      if iMode = 1 then g1
      else if iMode = 2 then setFlushFunc FileFlush (setOutputFunc FileOutput g1)
      else if iMode = 3 then setFlushFunc FlushAll (setOutputFunc OutAndLog g1)
      else g1)"

definition defaultOutputFunc :: "string \<Rightarrow> log_effect list" where
  "defaultOutputFunc msg = [ToStdout msg]"

definition defaultFlushFunc :: "log_effect list" where
  "defaultFlushFunc = [FlushStdout]"

definition outputOutAndLog :: "string \<Rightarrow> log_effect list" where
  "outputOutAndLog msg = defaultOutputFunc msg @ [ToFile msg]"

definition flushAll :: "log_effect list" where
  "flushAll = defaultFlushFunc @ [FlushFile]"

fun output_effects :: "output_func \<Rightarrow> string \<Rightarrow> log_effect list" where
  "output_effects DefaultOutput msg = defaultOutputFunc msg"
| "output_effects FileOutput msg = [ToFile msg]"
| "output_effects OutAndLog msg = outputOutAndLog msg"
| "output_effects AsyncOutput msg = [ToAsync msg]"

fun flush_effects :: "flush_func \<Rightarrow> log_effect list" where
  "flush_effects DefaultFlush = defaultFlushFunc"
| "flush_effects FileFlush = [FlushFile]"
| "flush_effects FlushAll = flushAll"

text \<open>The destructor: finish the line, output it, and for a fatal statement flush and abort.\<close>

definition destroy_Logging :: "logging \<Rightarrow> log_level \<Rightarrow> string \<Rightarrow> 32 word \<Rightarrow> log_buffer \<Rightarrow> log_effect list \<times> unit res" where
  "destroy_Logging g lv file line b =
     (case finishLog file line b of
        Inl e \<Rightarrow> ([], Inl e)
      | Inr b1 \<Rightarrow>
          (let out = output_effects (lg_output g) (lb_text b1) in
           if lv \<noteq> FATAL then (out, Inr ())
           else (out @ flush_effects (lg_flush g), Inl FatalAbort)))"

text \<open>A statement \<open>LOG_X << ...\<close>: only the first three macros look at the level; the last two pass \<open>errno\<close>.\<close>

definition level_enabled :: "logging \<Rightarrow> log_level \<Rightarrow> bool" where
  "level_enabled g lv \<longleftrightarrow> (lv \<in> {DEBUG, INFO, WARN} \<longrightarrow> lg_level g \<le> lv)"

record log_site =
  site_file :: string
  site_line :: "32 word"
  site_time :: string
  site_tid :: string
  site_errno :: "32 word \<times> string"

definition site_err :: "log_site \<Rightarrow> log_level \<Rightarrow> (32 word \<times> string) option" where
  "site_err st lv = (if lv = ERROR \<or> lv = FATAL then Some (site_errno st) else None)"

definition log_statement :: "logging \<Rightarrow> log_site \<Rightarrow> log_level \<Rightarrow> log_item list \<Rightarrow> log_effect list \<times> unit res" where
  "log_statement g st lv items =
     (if level_enabled g lv
      then (case bindR (new_LogOut (site_time st) (site_tid st) (s_arrLevel lv) (site_err st lv)) (stream_items items) of
              Inl e \<Rightarrow> ([], Inl e)
            | Inr b \<Rightarrow> destroy_Logging g lv (site_file st) (site_line st) b)
      else ([], Inr ()))"

definition CheckNotNull :: "logging \<Rightarrow> log_site \<Rightarrow> string \<Rightarrow> 'p option \<Rightarrow> log_effect list \<times> 'p option res" where
  "CheckNotNull g st names ptr =
     (if ptr = None
      then (case bindR (new_LogOut (site_time st) (site_tid st) (s_arrLevel FATAL) (Some (site_errno st))) (stream_items [LCStr names]) of
              Inl e \<Rightarrow> ([], Inl e)
            | Inr b \<Rightarrow>
                (case destroy_Logging g FATAL (site_file st) (site_line st) b of (fx, r) \<Rightarrow> (fx, bindR r (\<lambda>u. Inr ptr))))
      else ([], Inr ptr))"

section \<open>LogFile\<close>

definition kRollPerSeconds :: int where
  "kRollPerSeconds = 60 * 60 * 24"

record log_file =
  lf_directory :: string
  lf_count :: int
  lf_rollSize :: int
  lf_delLogFileDays :: int
  lf_basename :: string
  lf_startTime :: int
  lf_lastRoll :: int
  lf_file :: "string option"
  lf_opened :: "string list"
  lf_fs :: file_sys
  lf_written :: "(string \<times> string) list"

definition new_LogFile :: "file_sys \<Rightarrow> log_file" where
  "new_LogFile fs = \<lparr>lf_directory = [], lf_count = 0, lf_rollSize = 1000 * 1000 * 1000, lf_delLogFileDays = 7,
     lf_basename = [], lf_startTime = 0, lf_lastRoll = 0, lf_file = None, lf_opened = [], lf_fs = fs, lf_written = []\<rparr>"

definition setRollSize :: "int \<Rightarrow> log_file \<Rightarrow> log_file" where
  "setRollSize n f = f\<lparr>lf_rollSize := n\<rparr>"

definition setMaxFileSize :: "int \<Rightarrow> log_file \<Rightarrow> log_file" where
  "setMaxFileSize n f = f\<lparr>lf_rollSize := n\<rparr>"

definition setDelLogFileDays :: "int \<Rightarrow> log_file \<Rightarrow> log_file" where
  "setDelLogFileDays days f = f\<lparr>lf_delLogFileDays := days\<rparr>"

text \<open>
  What an operation asks its surroundings: the clock (read once by \<open>outputLogFile\<close> and again by
  \<open>rollFile\<close>), the formatted time, the host name, the process id and the size of the open file.
\<close>

record log_env =
  env_seconds :: int
  env_now :: datetime
  env_stamp :: string
  env_host :: string
  env_pid :: int
  env_size :: int

definition getFileName :: "log_env \<Rightarrow> log_file \<Rightarrow> string" where
  "getFileName env f =
     lf_directory f @ lf_basename f @ env_stamp env @ env_host env @ ''.'' @ show_int (env_pid env) @ ''.log''"

fun del_files :: "datetime \<Rightarrow> string \<Rightarrow> string list \<Rightarrow> file_sys \<Rightarrow> file_sys" where
  "del_files expired dir [] fs = fs"
| "del_files expired dir (p # ps) fs =
     del_files expired dir ps
       (if fi_isFile fs p \<and> fi_lastModified fs p < expired then snd (dir_removeFile dir (fi_fileName p) fs) else fs)"

definition delLogFile :: "log_env \<Rightarrow> log_file \<Rightarrow> log_file res" where
  "delLogFile env f =
     (let expired = addDays (- lf_delLogFileDays f) (env_now env) in
      bindR (entryInfoList (lf_fs f) (lf_directory f) [] FilterType_All SortType_None) (\<lambda>list.
        Inr (f\<lparr>lf_fs := del_files expired (lf_directory f) list (lf_fs f)\<rparr>)))"

definition rollFile :: "log_env \<Rightarrow> int \<Rightarrow> log_file \<Rightarrow> (bool \<times> log_file) res" where
  "rollFile env cnt f =
     bindR (if cnt \<noteq> 0 then Inr (getFileName env f @ take 31 (''.'' @ show_int cnt), f)
            else bindR (delLogFile env f) (\<lambda>f1. Inr (getFileName env f, f1))) (\<lambda>(fileName, f1).
       let seconds = secondsSinceEpoch (env_now env);
           start = seconds sdiv kRollPerSeconds * kRollPerSeconds in
       if seconds > lf_lastRoll f1
       then Inr (True, f1\<lparr>lf_startTime := start, lf_lastRoll := seconds, lf_file := Some fileName,
                           lf_opened := lf_opened f1 @ [fileName]\<rparr>)
       else Inr (False, f1))"

definition setDirectoryAndBaseName :: "log_env \<Rightarrow> string \<Rightarrow> string \<Rightarrow> log_file \<Rightarrow> log_file res" where
  "setDirectoryAndBaseName env directory basename f =
     (let dir = (if endsWith directory ''/'' then directory else directory @ ''/'') in
      bindR (mkdirs (env_now env) dir (lf_fs f)) (\<lambda>(ok, fs).
        bindR (rollFile env 0 (f\<lparr>lf_directory := dir, lf_basename := basename, lf_fs := fs\<rparr>)) (\<lambda>(rolled, f1). Inr f1)))"

definition outputLogFile :: "log_env \<Rightarrow> string \<Rightarrow> log_file \<Rightarrow> log_file res" where
  "outputLogFile env msg f =
     (if lf_file f = None then Inl MemoryError
      else bindR (if env_size env > lf_rollSize f
                  then (let f0 = f\<lparr>lf_count := lf_count f + 1\<rparr> in
                        bindR (rollFile env (lf_count f0) f0) (\<lambda>(rolled, f1). Inr f1))
                  else (let thisPeriod = env_seconds env sdiv kRollPerSeconds * kRollPerSeconds in
                        if thisPeriod \<noteq> lf_startTime f
                        then bindR (rollFile env 0 (f\<lparr>lf_count := 0\<rparr>)) (\<lambda>(rolled, f1). Inr f1)
                        else Inr f)) (\<lambda>f1.
             case lf_file f1 of
               None \<Rightarrow> Inl MemoryError
             | Some file1 \<Rightarrow> Inr (f1\<lparr>lf_written := lf_written f1 @ [(file1, msg)]\<rparr>)))"

definition flushLogFile :: "log_file \<Rightarrow> log_file res" where
  "flushLogFile f = (if lf_file f = None then Inl MemoryError else Inr f)"

definition logging_setDirectoryAndBaseName :: "log_env \<Rightarrow> string \<Rightarrow> string \<Rightarrow> log_file \<Rightarrow> log_file res" where
  "logging_setDirectoryAndBaseName env directory basename f =
     setDirectoryAndBaseName env directory (fileBaseName basename @ ''.'') f"

section \<open>What a statement outputs\<close>

definition statement_items :: "log_site \<Rightarrow> log_level \<Rightarrow> log_item list \<Rightarrow> log_item list" where
  "statement_items st lv items =
     header_items (site_time st) (site_tid st) (s_arrLevel lv) (site_err st lv) @ items @
     finish_items (site_file st) (site_line st)"

lemma stream_items_append: "stream_items (xs @ ys) b = bindR (stream_items xs b) (stream_items ys)"
proof (induction xs arbitrary: b)
  case (Cons x xs)
  then have "stream_items (xs @ ys) = (\<lambda>b. bindR (stream_items xs b) (stream_items ys))" by auto
  then show ?case by (simp add: bindR_assoc)
qed simp

lemma header_items_fit [simp]: "list_all item_fits (header_items t i l e)" "list_all item_fits (finish_items file line)"
  by (auto simp: header_items_def finish_items_def split: option.splits)

lemma statement_buffer:
  assumes "list_all item_fits items" and "length (log_text (statement_items st lv items)) < normalBuffer"
  shows "\<exists>b b1. bindR (new_LogOut (site_time st) (site_tid st) (s_arrLevel lv) (site_err st lv)) (stream_items items) = Inr b \<and>
           finishLog (site_file st) (site_line st) b = Inr b1 \<and> lb_text b1 = log_text (statement_items st lv items)"
proof -
  have "returns (stream_items (statement_items st lv items) (new_LogBuffer normalBuffer))
      (\<lambda>b1. lb_text b1 = log_text (statement_items st lv items))"
    using stream_items_text [of "statement_items st lv items" "new_LogBuffer normalBuffer"] assms
    by (auto simp: statement_items_def new_LogBuffer_def lb_text_def elim: returns_mono)
  then show ?thesis
    by (auto simp: statement_items_def stream_items_append new_LogOut_def finishLog_def returns_iff res_simps)
qed


definition sample_site :: log_site where
  "sample_site = \<lparr>site_file = ''a.cc'', site_line = 7, site_time = ''t'', site_tid = ''1'', site_errno = (0, ''ok'')\<rparr>"


text \<open>With the asynchronous logger installed, a fatal line waits in its buffer while the process aborts.\<close>

lemma fatal_line_not_flushed:
  assumes "list_all item_fits items" and "length (log_text (statement_items st FATAL items)) < normalBuffer"
  shows "log_statement (setOutputFunc AsyncOutput initial_logging) st FATAL items =
     ([ToAsync (log_text (statement_items st FATAL items)), FlushStdout], Inl FatalAbort)"
  unfolding log_statement_def destroy_Logging_def
  using statement_buffer [OF assms]
  by (auto simp: level_enabled_def setOutputFunc_def initial_logging_def defaultFlushFunc_def Let_def)

text \<open>Setting the mode back to the standard output does not take the file output away.\<close>

lemma stdout_mode_keeps_file: "lg_output (setOutputMode 1 (setOutputMode 2 g)) = FileOutput"
  by (simp add: setOutputMode_def setOutputFunc_def setFlushFunc_def)

section \<open>The log file\<close>

lemma removeFile_keeps_dirs: "is_kind Directory fs q \<Longrightarrow> is_kind Directory (snd (dir_removeFile dir name fs)) q"
proof -
  have m: "q \<noteq> r \<Longrightarrow> map_of (filter (\<lambda>e. fst e \<noteq> r) fs) q = map_of fs q" for q r
    by (induction fs) auto
  assume "is_kind Directory fs q"
  then show ?thesis
    using m [of "strip_slash q" "strip_slash (path_join dir name)"]
    by (cases "strip_slash q = strip_slash (path_join dir name)")
      (auto simp: dir_removeFile_def removeFile_at_def fs_remove_file_def is_kind_def fs_lookup_def Let_def split: option.splits)
qed

lemma del_files_keeps_dirs: "is_kind Directory fs q \<Longrightarrow> is_kind Directory (del_files expired dir ps fs) q"
  by (induction ps arbitrary: fs) (auto intro: removeFile_keeps_dirs)

definition log_ready :: "log_file \<Rightarrow> bool" where
  "log_ready f \<longleftrightarrow> lf_file f \<noteq> None \<and> is_kind Directory (lf_fs f) (lf_directory f)"

definition period_of :: "int \<Rightarrow> int" where
  "period_of s = s sdiv kRollPerSeconds * kRollPerSeconds"

text \<open>
  What rolling does to a ready log file: it stays ready, keeps what was written, and either opens one file
  later than the last or finds that the clock has not moved on since.
\<close>

definition rolled :: "int \<Rightarrow> log_file \<Rightarrow> log_file \<Rightarrow> bool" where
  "rolled seconds f f1 \<longleftrightarrow>
     log_ready f1 \<and> lf_written f1 = lf_written f \<and>
     (if seconds > lf_lastRoll f
      then \<exists>name. lf_file f1 = Some name \<and> lf_opened f1 = lf_opened f @ [name] \<and>
             lf_lastRoll f1 = seconds \<and> lf_startTime f1 = period_of seconds
      else lf_file f1 = lf_file f \<and> lf_opened f1 = lf_opened f \<and> lf_lastRoll f1 = lf_lastRoll f \<and>
             lf_startTime f1 = lf_startTime f)"

lemma delLogFile_returns:
  assumes "is_kind Directory (lf_fs f) (lf_directory f)"
  shows "\<exists>fs. delLogFile env f = Inr (f\<lparr>lf_fs := fs\<rparr>) \<and> is_kind Directory fs (lf_directory f)"
proof -
  have "fs_exists (lf_fs f) (lf_directory f)"
    using assms by (auto simp: fs_exists_def is_kind_def split: option.splits)
  with assms show ?thesis
    by (auto simp: delLogFile_def entryInfoList_def Let_def intro: del_files_keeps_dirs)
qed

lemma rollFile_rolled:
  assumes "log_ready f" and "log_ready f0" and "f0 = f\<lparr>lf_count := c\<rparr>"
  shows "\<exists>ok f1. rollFile env n f0 = Inr (ok, f1) \<and> rolled (secondsSinceEpoch (env_now env)) f f1"
proof -
  obtain fs where fs: "delLogFile env f0 = Inr (f0\<lparr>lf_fs := fs\<rparr>)" "is_kind Directory fs (lf_directory f0)"
    using delLogFile_returns [of f0 env] assms(2) by (auto simp: log_ready_def)
  with assms show ?thesis
    by (auto simp: rollFile_def rolled_def log_ready_def period_of_def Let_def)
qed

lemma outputLogFile_step:
  assumes "log_ready f"
  shows "\<exists>f1 file. outputLogFile env msg f = Inr f1 \<and> log_ready f1 \<and> lf_file f1 = Some file \<and>
     lf_written f1 = lf_written f @ [(file, msg)] \<and>
     (lf_opened f1 = lf_opened f \<and> lf_lastRoll f1 = lf_lastRoll f \<or>
      lf_opened f1 = lf_opened f @ [file] \<and> lf_lastRoll f < lf_lastRoll f1) \<and>
     (env_seconds env = secondsSinceEpoch (env_now env) \<longrightarrow>
        lf_startTime f1 = period_of (env_seconds env) \<or> env_seconds env \<le> lf_lastRoll f)"
proof -
  have r: "log_ready (f\<lparr>lf_count := c\<rparr>)" for c using assms by (simp add: log_ready_def)
  let ?s = "secondsSinceEpoch (env_now env)"
  let ?f0 = "f\<lparr>lf_count := lf_count f + 1\<rparr>"
  obtain ok1 f1 where f1: "rollFile env (lf_count ?f0) ?f0 = Inr (ok1, f1)" "rolled ?s f f1"
    using rollFile_rolled [OF assms r HOL.refl, of env "lf_count ?f0"] by blast
  obtain ok2 f2 where f2: "rollFile env 0 (f\<lparr>lf_count := 0\<rparr>) = Inr (ok2, f2)" "rolled ?s f f2"
    using rollFile_rolled [OF assms r HOL.refl, of env 0] by blast
  obtain name where "lf_file f = Some name" using assms by (auto simp: log_ready_def)
  with assms f1 f2 show ?thesis
    by (cases "env_size env > lf_rollSize f"; cases "lf_lastRoll f < ?s")
      (auto simp: outputLogFile_def rolled_def log_ready_def period_of_def Let_def)
qed

fun output_all :: "(log_env \<times> string) list \<Rightarrow> log_file \<Rightarrow> log_file res" where
  "output_all [] f = Inr f"
| "output_all ((env, msg) # xs) f = bindR (outputLogFile env msg f) (output_all xs)"


definition sample_env :: "int \<Rightarrow> log_env" where
  "sample_env s = \<lparr>env_seconds = s, env_now = DateTime (s * 1000000), env_stamp = ''20240101-000000'', env_host = ''h'',
     env_pid = 42, env_size = 0\<rparr>"


text \<open>Old files are deleted whoever wrote them: every regular file of the directory counts.\<close>

lemma delLogFile_any_file:
  assumes "fi_isFile fs p" and "fi_lastModified fs p < expired"
    and "path_join dir (fi_fileName p) = p" and "strip_slash p = p" and "is_kind Directory fs dir"
  shows "\<not> fs_exists (del_files expired dir [p] fs) p"
proof -
  have "fs_exists fs p" "fs_exists fs dir" using assms(1,5)
    by (auto simp: fi_isFile_def fs_exists_def is_kind_def split: option.splits)
  moreover have "map_of (filter (\<lambda>e. fst e \<noteq> r) fs) r = None" for r by (induction fs) auto
  ultimately show ?thesis using assms
    by (simp add: dir_removeFile_def removeFile_at_def fs_remove_file_def fi_isFile_def fs_exists_def fs_lookup_def)
qed

text \<open>Before a directory is set there is no file object, and the first output dereferences a null pointer.\<close>

lemma output_before_setup: "outputLogFile env msg (new_LogFile fs) = Inl MemoryError"
  by (simp add: outputLogFile_def new_LogFile_def)

end
