(* ===== verification/Utils_LogAsync.thy ===== *)
theory Utils_LogAsync
  imports Utils_Logging Transition_System
begin

text \<open>
  \<open>utils/LogAsync\<close>: threads append lines to the current buffer under a mutex; a background thread
  takes the full buffers and the current one, writes them to the log file and hands the
  emptied buffers back. Each operation under the mutex is one step; between two steps any
  thread may run, and a timed wait may end at any time, so it does not restrict the steps.
  Null pointers are \<open>None\<close>; the calls of \<open>LogFile::outputFunc\<close> are collected in order.
\<close>

section \<open>State\<close>

text \<open>
  Where the background thread is: not created, created, at the test of its loop, before the critical section, after it
  with the buffers to write, or ended. \<open>stop_pc\<close> is the same for the thread in \<open>stop()\<close>.
\<close>

datatype backend_pc = NotStarted | AtBegin | AtHead | AtLock | AtWrite | Ended

datatype stop_pc = NotStopping | StopNotified | StopWaiting | StopWoken

record log_async =
  la_running :: bool
  la_current :: log_buffer
  la_next :: "log_buffer option"
  la_buffers :: "log_buffer list"
  la_new1 :: "log_buffer option"
  la_new2 :: "log_buffer option"
  la_toWrite :: "log_buffer list"
  la_output :: "string list"
  la_pc :: backend_pc
  la_stop :: stop_pc

definition new_LogAsync :: log_async where
  "new_LogAsync = \<lparr>la_running = False, la_current = lb_bzero (new_LogBuffer maxBuffer),
     la_next = Some (lb_bzero (new_LogBuffer maxBuffer)), la_buffers = [], la_new1 = None, la_new2 = None,
     la_toWrite = [], la_output = [], la_pc = NotStarted, la_stop = NotStopping\<rparr>"

section \<open>Operations\<close>

text \<open>The second component says whether the operation notifies the condition variable.\<close>

definition async_append :: "string \<Rightarrow> log_async \<Rightarrow> (log_async \<times> bool) res" where
  "async_append msg a =
     (if lb_avail (la_current a) > int (length msg)
      then bindR (lb_append msg (la_current a)) (\<lambda>c. Inr (a\<lparr>la_current := c\<rparr>, False))
      else (let a1 = a\<lparr>la_buffers := la_buffers a @ [la_current a]\<rparr>;
                fresh = (case la_next a1 of Some n \<Rightarrow> n | None \<Rightarrow> new_LogBuffer maxBuffer) in
            bindR (lb_append msg fresh) (\<lambda>c. Inr (a1\<lparr>la_current := c, la_next := None\<rparr>, True))))"

definition async_start :: "log_async \<Rightarrow> log_async" where
  "async_start a = a\<lparr>la_running := True, la_pc := AtBegin\<rparr>"

definition backend_begin :: "log_async \<Rightarrow> log_async res" where
  "backend_begin a = cassert (la_running a)
     (Inr (a\<lparr>la_new1 := Some (lb_bzero (new_LogBuffer maxBuffer)), la_new2 := Some (lb_bzero (new_LogBuffer maxBuffer)),
             la_toWrite := [], la_pc := AtHead\<rparr>))"

definition empty_buffer :: "log_buffer option \<Rightarrow> bool" where
  "empty_buffer b = (case b of None \<Rightarrow> False | Some x \<Rightarrow> lb_pos x = 0)"

text \<open>The test \<open>while (m_running)\<close>: another round, with its assertions, or the last flush and notification.\<close>

definition backend_head :: "log_async \<Rightarrow> (log_async \<times> bool) res" where
  "backend_head a =
     (if la_running a
      then cassert (empty_buffer (la_new1 a)) (cassert (empty_buffer (la_new2 a)) (cassert (la_toWrite a = [])
             (Inr (a\<lparr>la_pc := AtLock\<rparr>, False))))
      else Inr (a\<lparr>la_pc := Ended\<rparr>, True))"

definition backend_swap :: "log_async \<Rightarrow> log_async res" where
  "backend_swap a =
     (case la_new1 a of
        None \<Rightarrow> Inl MemoryError
      | Some new1 \<Rightarrow>
          (let a1 = a\<lparr>la_toWrite := la_buffers a @ [la_current a], la_buffers := la_toWrite a,
                       la_current := new1, la_new1 := None, la_pc := AtWrite\<rparr> in
           if la_next a1 = None then Inr (a1\<lparr>la_next := la_new2 a1, la_new2 := None\<rparr>) else Inr a1))"

definition drop_notice :: "string \<Rightarrow> nat \<Rightarrow> string" where
  "drop_notice now n =
     take 255 (''Dropped log messages at '' @ now @ '', '' @ dec_digits (n - 2) @ '' larger buffers'' @ [newline])"

definition take_back :: "log_buffer option \<Rightarrow> log_buffer list \<Rightarrow> (log_buffer option \<times> log_buffer list) res" where
  "take_back new tw =
     (case new of
        Some b \<Rightarrow> Inr (Some b, tw)
      | None \<Rightarrow> cassert (tw \<noteq> []) (Inr (Some (lb_reset (last tw)), butlast tw)))"

definition backend_write :: "string \<Rightarrow> log_async \<Rightarrow> log_async res" where
  "backend_write now a =
     cassert (la_toWrite a \<noteq> [])
       (let tw = la_toWrite a;
            notice = (if length tw > 25 then [drop_notice now (length tw)] else []);
            kept = (if length tw > 25 then take 2 tw else tw);
            few = (if length kept > 2 then take 2 kept else kept) in
        bindR (take_back (la_new1 a) few) (\<lambda>(new1, rest1).
        bindR (take_back (la_new2 a) rest1) (\<lambda>(new2, rest2).
          Inr (a\<lparr>la_output := la_output a @ notice @ map lb_text kept, la_new1 := new1, la_new2 := new2,
                  la_toWrite := [], la_pc := AtHead\<rparr>))))"

text \<open>\<open>stop()\<close>: clear the flag and notify, wait for a notification, join. A notification reaches a waiting thread or nobody.\<close>

definition stop_begin :: "log_async \<Rightarrow> log_async" where
  "stop_begin a = a\<lparr>la_running := False, la_stop := StopNotified\<rparr>"

definition stop_wait :: "log_async \<Rightarrow> log_async" where
  "stop_wait a = a\<lparr>la_stop := StopWaiting\<rparr>"

definition notify_stop :: "bool \<Rightarrow> log_async \<Rightarrow> log_async" where
  "notify_stop sent a = (if sent \<and> la_stop a = StopWaiting then a\<lparr>la_stop := StopWoken\<rparr> else a)"

section \<open>Steps\<close>

text \<open>\<open>stores msg a\<close>: \<open>append\<close> keeps the message. The counters of the system are not part of the program.\<close>

definition stores :: "string \<Rightarrow> log_async \<Rightarrow> bool" where
  "stores msg a \<longleftrightarrow>
     (if lb_avail (la_current a) > int (length msg) then lb_avail (la_current a) \<noteq> int (length msg) + 1
      else length msg + 1 < maxBuffer)"

record async_sys =
  as_log :: log_async
  as_accepted :: "string list"
  as_dropped :: nat

inductive async_step :: "async_sys \<Rightarrow> async_sys \<Rightarrow> bool" where
  s_append: "async_append msg (as_log s) = Inr (a, sent) \<Longrightarrow>
     a' = a \<or> a' = notify_stop sent a \<Longrightarrow>
     async_step s (s\<lparr>as_log := a', as_accepted := as_accepted s @ (if stores msg (as_log s) then [msg] else [])\<rparr>)"
| s_start: "la_pc (as_log s) = NotStarted \<Longrightarrow> async_step s (s\<lparr>as_log := async_start (as_log s)\<rparr>)"
| s_begin: "la_pc (as_log s) = AtBegin \<Longrightarrow> backend_begin (as_log s) = Inr a \<Longrightarrow> async_step s (s\<lparr>as_log := a\<rparr>)"
| s_head: "la_pc (as_log s) = AtHead \<Longrightarrow> backend_head (as_log s) = Inr (a, sent) \<Longrightarrow>
     async_step s (s\<lparr>as_log := notify_stop sent a\<rparr>)"
| s_swap: "la_pc (as_log s) = AtLock \<Longrightarrow> backend_swap (as_log s) = Inr a \<Longrightarrow> async_step s (s\<lparr>as_log := a\<rparr>)"
| s_write: "la_pc (as_log s) = AtWrite \<Longrightarrow> backend_write now (as_log s) = Inr a \<Longrightarrow>
     async_step s (s\<lparr>as_log := a,
       as_dropped := as_dropped s + (if length (la_toWrite (as_log s)) > 25 then length (la_toWrite (as_log s)) - 2 else 0)\<rparr>)"
| s_stop_begin: "la_stop (as_log s) = NotStopping \<Longrightarrow> la_running (as_log s) \<Longrightarrow>
     async_step s (s\<lparr>as_log := stop_begin (as_log s)\<rparr>)"
| s_stop_wait: "la_stop (as_log s) = StopNotified \<Longrightarrow> async_step s (s\<lparr>as_log := stop_wait (as_log s)\<rparr>)"

definition async_init :: async_sys where
  "async_init = \<lparr>as_log = new_LogAsync, as_accepted = [], as_dropped = 0\<rparr>"

section \<open>Invariant\<close>

definition buffer_ok :: "log_buffer \<Rightarrow> bool" where
  "buffer_ok b \<longleftrightarrow> length (lb_data b) = maxBuffer \<and> lb_pos b \<le> maxBuffer"

definition spare_ok :: "log_buffer \<Rightarrow> bool" where
  "spare_ok b \<longleftrightarrow> length (lb_data b) = maxBuffer \<and> lb_pos b = 0"

definition spare_opt :: "log_buffer option \<Rightarrow> bool" where
  "spare_opt b \<longleftrightarrow> (\<forall>x. b = Some x \<longrightarrow> spare_ok x)"

definition async_inv :: "log_async \<Rightarrow> bool" where
  "async_inv a \<longleftrightarrow>
     buffer_ok (la_current a) \<and> list_all buffer_ok (la_buffers a) \<and> list_all buffer_ok (la_toWrite a) \<and>
     spare_opt (la_next a) \<and> spare_opt (la_new1 a) \<and> spare_opt (la_new2 a) \<and>
     (la_next a = None \<longrightarrow> la_buffers a \<noteq> []) \<and>
     (la_pc a \<in> {AtHead, AtLock} \<longrightarrow> la_new1 a \<noteq> None \<and> la_new2 a \<noteq> None) \<and>
     (la_pc a = AtWrite \<longrightarrow> la_new1 a = None \<and> la_toWrite a \<noteq> [] \<and> (la_new2 a = None \<longrightarrow> 2 \<le> length (la_toWrite a))) \<and>
     (la_pc a \<noteq> AtWrite \<longrightarrow> la_toWrite a = [])"

definition pending_text :: "log_async \<Rightarrow> string" where
  "pending_text a = concat (map lb_text (la_toWrite a)) @ concat (map lb_text (la_buffers a)) @ lb_text (la_current a)"

lemmas async_defs = async_inv_def buffer_ok_def spare_ok_def spare_opt_def

lemma maxBuffer_pos: "1 < maxBuffer"
  by (simp add: maxBuffer_def)

lemma lb_append_spec:
  assumes "buffer_ok b"
  shows "\<exists>b1. lb_append msg b = Inr b1 \<and> buffer_ok b1 \<and>
     lb_text b1 = lb_text b @ (if int (length msg) + 1 < lb_avail b then msg else [])"
proof (cases "int (length msg) + 1 < lb_avail b")
  case True
  then have "lb_pos b + length msg \<le> length (lb_data b)" by (simp add: lb_avail_def)
  with store_text [of b msg "[]"] True assms show ?thesis
    by (auto simp: lb_append_def lb_avail_def buffer_ok_def)
next
  case False
  with assms show ?thesis by (auto simp: lb_append_def lb_avail_def)
qed

lemma async_append_spec:
  assumes "async_inv a"
  shows "\<exists>a1 sent. async_append msg a = Inr (a1, sent) \<and> async_inv a1 \<and> la_output a1 = la_output a \<and>
     pending_text a1 = pending_text a @ (if stores msg a then msg else [])"
proof (cases "lb_avail (la_current a) > int (length msg)")
  case True
  have "buffer_ok (la_current a)" using assms by (simp add: async_inv_def)
  from lb_append_spec [OF this, of msg] True assms show ?thesis
    by (auto simp: async_append_def stores_def pending_text_def async_inv_def)
next
  case False
  let ?fresh = "case la_next a of Some n \<Rightarrow> n | None \<Rightarrow> new_LogBuffer maxBuffer"
  have f: "spare_ok ?fresh"
    using assms by (auto simp: async_defs new_LogBuffer_def split: option.splits)
  then have "buffer_ok ?fresh" "lb_text ?fresh = []" "lb_avail ?fresh = int maxBuffer"
    by (auto simp: spare_ok_def buffer_ok_def lb_text_def lb_avail_def)
  with lb_append_spec [of ?fresh msg] False assms show ?thesis
    by (auto simp: async_append_def stores_def pending_text_def async_inv_def spare_opt_def Let_def)
qed

lemma spare_reset [simp]: "buffer_ok b \<Longrightarrow> spare_ok (lb_reset b)"
  by (simp add: buffer_ok_def spare_ok_def lb_reset_def)

lemma spare_buffer: "spare_ok b \<Longrightarrow> buffer_ok b" "spare_ok b \<Longrightarrow> lb_text b = []"
  by (simp_all add: buffer_ok_def spare_ok_def lb_text_def)

lemma spare_fresh [simp]: "spare_ok (lb_bzero (new_LogBuffer maxBuffer))"
  by (simp add: spare_ok_def lb_bzero_def new_LogBuffer_def)

lemma backend_head_spec:
  assumes "async_inv a" and "la_pc a = AtHead"
  shows "\<exists>a1 sent. backend_head a = Inr (a1, sent) \<and> async_inv (notify_stop sent a1) \<and>
     la_output (notify_stop sent a1) = la_output a \<and> pending_text (notify_stop sent a1) = pending_text a"
  using assms
  by (auto simp: backend_head_def empty_buffer_def async_defs notify_stop_def pending_text_def split: option.splits)

lemma backend_swap_spec:
  assumes "async_inv a" and "la_pc a = AtLock"
  shows "\<exists>a1. backend_swap a = Inr a1 \<and> async_inv a1 \<and> la_output a1 = la_output a \<and> pending_text a1 = pending_text a"
proof -
  obtain b where b: "la_new1 a = Some b" "spare_ok b" using assms by (auto simp: async_inv_def spare_opt_def)
  with assms show ?thesis
    by (cases "la_buffers a") (auto simp: backend_swap_def async_inv_def spare_opt_def pending_text_def spare_buffer Let_def)
qed

lemma take_back_spec:
  assumes "list_all buffer_ok tw" and "spare_opt new" and "new = None \<longrightarrow> tw \<noteq> []"
  shows "\<exists>b rest. take_back new tw = Inr (Some b, rest) \<and> spare_ok b \<and> list_all buffer_ok rest \<and>
     (new = None \<longrightarrow> length rest = length tw - 1) \<and> (new \<noteq> None \<longrightarrow> rest = tw)"
proof (cases new)
  case None
  with assms have "buffer_ok (last tw)" "list_all buffer_ok (butlast tw)"
    by (auto simp: list_all_iff dest: in_set_butlastD)
  with None assms show ?thesis by (simp add: take_back_def)
next
  case (Some b)
  with assms show ?thesis by (auto simp: take_back_def spare_opt_def)
qed

lemma backend_write_spec:
  assumes "async_inv a" and "la_pc a = AtWrite"
  shows "\<exists>a1. backend_write now a = Inr a1 \<and> async_inv a1 \<and>
     (length (la_toWrite a) \<le> 25 \<longrightarrow> concat (la_output a1) @ pending_text a1 = concat (la_output a) @ pending_text a)"
proof -
  let ?tw = "la_toWrite a"
  let ?kept = "if length ?tw > 25 then take 2 ?tw else ?tw"
  let ?few = "if length ?kept > 2 then take 2 ?kept else ?kept"
  have inv: "list_all buffer_ok ?tw" "la_new1 a = None" "?tw \<noteq> []" "la_new2 a = None \<longrightarrow> 2 \<le> length ?tw" "spare_opt (la_new2 a)"
    using assms by (auto simp: async_inv_def)
  have few: "list_all buffer_ok ?few" "?few \<noteq> []" "2 \<le> length ?tw \<longrightarrow> length ?few = 2"
    using inv(1,3) by (auto simp: list_all_iff dest: in_set_takeD)
  obtain b1 rest1 where 1: "take_back (la_new1 a) ?few = Inr (Some b1, rest1)" "spare_ok b1" "list_all buffer_ok rest1"
      "length rest1 = length ?few - 1"
    using take_back_spec [of ?few "la_new1 a"] few inv(2) by (auto simp: spare_opt_def)
  have "la_new2 a = None \<longrightarrow> rest1 \<noteq> []" using 1(4) few(3) inv(4) by auto
  then obtain b2 rest2 where 2: "take_back (la_new2 a) rest1 = Inr (Some b2, rest2)" "spare_ok b2"
    using take_back_spec [of rest1 "la_new2 a"] 1(3) inv(5) by auto
  let ?a1 = "a\<lparr>la_output := la_output a @ (if length ?tw > 25 then [drop_notice now (length ?tw)] else []) @ map lb_text ?kept,
      la_new1 := Some b1, la_new2 := Some b2, la_toWrite := [], la_pc := AtHead\<rparr>"
  have "backend_write now a = Inr ?a1"
    using inv(3) 1(1) 2(1) unfolding backend_write_def Let_def by (simp only: cassert_True bindR_Inr prod.case not_False_eq_True)
  moreover have "async_inv ?a1" using assms(1) 1(2) 2(2) by (auto simp: async_inv_def spare_opt_def)
  moreover have "length ?tw \<le> 25 \<longrightarrow> concat (la_output ?a1) @ pending_text ?a1 = concat (la_output a) @ pending_text a"
    by (simp add: pending_text_def)
  ultimately show ?thesis by blast
qed

definition sys_inv :: "async_sys \<Rightarrow> bool" where
  "sys_inv s \<longleftrightarrow> async_inv (as_log s) \<and>
     (as_dropped s = 0 \<longrightarrow> concat (la_output (as_log s)) @ pending_text (as_log s) = concat (as_accepted s))"

lemma notify_stop_simps [simp]:
  "async_inv (notify_stop sent a) = async_inv a" "la_output (notify_stop sent a) = la_output a"
  "pending_text (notify_stop sent a) = pending_text a"
  by (simp_all add: notify_stop_def async_inv_def pending_text_def)

lemma start_stop_spec:
  "async_inv a \<Longrightarrow> la_pc a = NotStarted \<Longrightarrow> async_inv (async_start a)"
  "pending_text (async_start a) = pending_text a" "la_output (async_start a) = la_output a"
  "async_inv (stop_begin a) = async_inv a" "pending_text (stop_begin a) = pending_text a" "la_output (stop_begin a) = la_output a"
  "async_inv (stop_wait a) = async_inv a" "pending_text (stop_wait a) = pending_text a" "la_output (stop_wait a) = la_output a"
  by (auto simp: async_start_def stop_begin_def stop_wait_def async_inv_def pending_text_def spare_opt_def)

lemma backend_begin_spec:
  assumes "async_inv a" and "la_pc a = AtBegin" and "backend_begin a = Inr a1"
  shows "async_inv a1 \<and> la_output a1 = la_output a \<and> pending_text a1 = pending_text a"
  using assms by (auto simp: backend_begin_def async_inv_def pending_text_def spare_opt_def res_simps)

lemma async_step_inv: "async_step s t \<Longrightarrow> sys_inv s \<Longrightarrow> sys_inv t"
proof (induction rule: async_step.induct)
  case (s_append msg s a sent a')
  then have i: "async_inv (as_log s)" by (simp add: sys_inv_def)
  from async_append_spec [OF i, of msg] s_append show ?case by (auto simp: sys_inv_def)
next
  case (s_start s)
  then show ?case by (simp add: sys_inv_def start_stop_spec)
next
  case (s_begin s a)
  then show ?case using backend_begin_spec [of "as_log s" a] by (auto simp: sys_inv_def)
next
  case (s_head s a sent)
  then have i: "async_inv (as_log s)" by (simp add: sys_inv_def)
  from backend_head_spec [OF i] s_head show ?case by (auto simp: sys_inv_def)
next
  case (s_swap s a)
  then have i: "async_inv (as_log s)" by (simp add: sys_inv_def)
  from backend_swap_spec [OF i] s_swap show ?case by (auto simp: sys_inv_def)
next
  case (s_write s now a)
  then have i: "async_inv (as_log s)" by (simp add: sys_inv_def)
  from backend_write_spec [OF i, of now] s_write show ?case by (auto simp: sys_inv_def)
next
  case (s_stop_begin s)
  then show ?case by (simp add: sys_inv_def start_stop_spec)
next
  case (s_stop_wait s)
  then show ?case by (simp add: sys_inv_def start_stop_spec)
qed

lemma async_init_inv: "sys_inv async_init"
  by (auto simp: sys_inv_def async_init_def new_LogAsync_def async_inv_def spare_opt_def pending_text_def spare_buffer)

interpretation async: invariant_system "\<lambda>s. s = async_init" async_step sys_inv
  by unfold_locales (auto intro: async_step_inv async_init_inv)


lemma stores_first: "stores ''hi'' new_LogAsync"
  by (simp add: stores_def new_LogAsync_def lb_avail_def lb_bzero_def new_LogBuffer_def maxBuffer_def)

lemma append_first:
  "\<exists>a sent. async_append ''hi'' new_LogAsync = Inr (a, sent) \<and> la_output a = [] \<and> pending_text a = ''hi''"
  using async_append_spec [of new_LogAsync "''hi''"] async_init_inv stores_first
  by (fastforce simp: sys_inv_def async_init_def new_LogAsync_def pending_text_def lb_text_def lb_bzero_def new_LogBuffer_def)


text \<open>
  \<open>stop\<close> waits for a notification it may already have missed, and the background thread ends without
  taking the current buffer: a reachable state in which the thread has ended, \<open>stop\<close> waits, a
  kept message is unwritten, and no step of the system other than another message can happen.
\<close>

lemma ended_only_appends:
  assumes "async_step s t" and "sys_inv s" and "la_pc (as_log s) = Ended" and "la_stop (as_log s) = StopWaiting"
  shows "la_output (as_log t) = la_output (as_log s) \<and> (\<exists>msg a sent. async_append msg (as_log s) = Inr (a, sent))"
  using assms(1)
proof (cases rule: async_step.cases)
  case (s_append msg b sent b')
  have "async_inv (as_log s)" using assms(2) by (simp add: sys_inv_def)
  from async_append_spec [OF this, of msg] s_append show ?thesis by auto
qed (use assms(3,4) in simp_all)

lemma stop_hangs_and_loses:
  "\<exists>s. reaches async_step async_init s \<and> la_pc (as_log s) = Ended \<and> la_stop (as_log s) = StopWaiting \<and>
     as_accepted s = [''hi''] \<and> la_output (as_log s) = [] \<and>
     (\<forall>t. async_step s t \<longrightarrow> la_output (as_log t) = [] \<and> (\<exists>msg a sent. async_append msg (as_log s) = Inr (a, sent)))"
proof -
  obtain a sent where a: "async_append ''hi'' new_LogAsync = Inr (a, sent)" "la_output a = []"
    using append_first by blast
  have a': "la_pc a = NotStarted" "la_stop a = NotStopping" "la_running a = False"
    using a(1) by (auto simp: async_append_def new_LogAsync_def Let_def res_simps split: if_splits)
  let ?s1 = "async_init\<lparr>as_log := a, as_accepted := [''hi'']\<rparr>"
  let ?a2 = "(async_start a)\<lparr>la_new1 := Some (lb_bzero (new_LogBuffer maxBuffer)),
      la_new2 := Some (lb_bzero (new_LogBuffer maxBuffer)), la_toWrite := [], la_pc := AtHead\<rparr>"
  let ?sb = "?s1\<lparr>as_log := async_start a\<rparr>"
  let ?s2 = "?s1\<lparr>as_log := ?a2\<rparr>"
  let ?s3 = "?s1\<lparr>as_log := stop_begin ?a2\<rparr>"
  let ?a4 = "(stop_begin ?a2)\<lparr>la_pc := Ended\<rparr>"
  let ?s4 = "?s1\<lparr>as_log := ?a4\<rparr>"
  let ?s5 = "?s1\<lparr>as_log := stop_wait ?a4\<rparr>"
  have "async_step async_init (async_init\<lparr>as_log := a,
      as_accepted := as_accepted async_init @ (if stores ''hi'' (as_log async_init) then [''hi''] else [])\<rparr>)"
    using s_append [of "''hi''" async_init a sent a] a(1) by (simp add: async_init_def)
  then have 1: "async_step async_init ?s1" using stores_first by (simp add: async_init_def)
  have 2: "async_step ?s1 ?sb" using s_start [of ?s1] a' by simp
  have two_b: "async_step ?sb ?s2" using s_begin [of ?sb ?a2] by (simp add: async_start_def backend_begin_def)
  have 3: "async_step ?s2 ?s3" using s_stop_begin [of ?s2] a' by (simp add: async_start_def)
  have 4: "async_step ?s3 ?s4"
    using s_head [of ?s3 ?a4 True] a' by (simp add: async_start_def stop_begin_def backend_head_def notify_stop_def)
  have 5: "async_step ?s4 ?s5" using s_stop_wait [of ?s4] by (simp add: stop_begin_def)
  have "reaches async_step async_init ?s1" by (rule reaches_one [of async_step, OF 1])
  then have "reaches async_step async_init ?sb" using 2 by (rule reaches.step [of async_step])
  then have "reaches async_step async_init ?s2" using two_b by (rule reaches.step [of async_step])
  then have "reaches async_step async_init ?s3" using 3 by (rule reaches.step [of async_step])
  then have "reaches async_step async_init ?s4" using 4 by (rule reaches.step [of async_step])
  then have r: "reaches async_step async_init ?s5" using 5 by (rule reaches.step [of async_step])
  have fin: "la_pc (as_log ?s5) = Ended" "la_stop (as_log ?s5) = StopWaiting" "la_running (as_log ?s5) = False"
      "la_output (as_log ?s5) = []" "as_accepted ?s5 = [''hi'']"
    using a(2) by (simp_all add: stop_wait_def stop_begin_def async_start_def)
  have "sys_inv ?s5" by (rule async.reachable_inv [OF HOL.refl r])
  then show ?thesis using r fin ended_only_appends [of ?s5] by metis
qed

text \<open>A thread that begins after \<open>stop\<close> trips its first assertion.\<close>

lemma begin_after_stop: "backend_begin (stop_begin (async_start a)) = Inl AssertFailed"
  by (simp add: backend_begin_def stop_begin_def cassert_def)

text \<open>A message that leaves exactly one byte of the current buffer free disappears.\<close>

lemma exact_fit_is_lost:
  "lb_avail (la_current a) = int (length msg) + 1 \<Longrightarrow> async_append msg a = Inr (a, False)"
  by (simp add: async_append_def lb_append_def lb_avail_def)

end
