(* ===== verification/Utils_ThreadPool.thy ===== *)
theory Utils_ThreadPool
  imports Transition_System Decimal "HOL-Library.Multiset" "HOL-Library.Sublist"
begin

text \<open>
  \<open>core/Thread\<close>, \<open>core/CountDownLatch\<close>, \<open>utils/TaskQueue.h\<close> and \<open>utils/ThreadPool\<close>. What is done under a
  mutex is one operation on the state; a condition variable is the set of threads that sleep
  on it, and \<open>notify_one\<close> wakes any one of them. Tasks are named by numbers. The step relation
  of the pool interleaves worker threads, callers of \<open>run\<close> and \<open>stop\<close>.
\<close>

section \<open>Thread\<close>

record thread_counters =
  tc_numCreated :: int
  tc_allThreadNum :: int

record thread =
  t_running :: bool
  t_joined :: bool
  t_joinable :: bool
  t_name :: string

definition setDefaultName :: "string \<Rightarrow> thread_counters \<Rightarrow> string \<times> thread_counters" where
  "setDefaultName name c =
     (let num = tc_numCreated c; c1 = c\<lparr>tc_numCreated := num + 1\<rparr> in
      (if name = [] then take 31 (''Thread'' @ show_int num) else name, c1))"

definition new_Thread :: "string \<Rightarrow> thread_counters \<Rightarrow> thread \<times> thread_counters" where
  "new_Thread name c = (case setDefaultName name c of
     (n, c1) \<Rightarrow> (\<lparr>t_running = False, t_joined = False, t_joinable = False, t_name = n\<rparr>, c1))"

definition thread_start :: "thread \<Rightarrow> thread_counters \<Rightarrow> (thread \<times> thread_counters) res" where
  "thread_start t c = cassert (\<not> t_running t)
     (if t_joinable t then Inl FatalAbort
      else Inr (t\<lparr>t_running := True, t_joinable := True\<rparr>, c\<lparr>tc_allThreadNum := tc_allThreadNum c + 1\<rparr>))"

text \<open>\<open>threadFunc\<close> clears the flag when the function has returned.\<close>

definition thread_end :: "thread \<Rightarrow> thread" where
  "thread_end t = t\<lparr>t_running := False\<rparr>"

definition thread_join :: "thread \<Rightarrow> thread_counters \<Rightarrow> (thread \<times> thread_counters) res" where
  "thread_join t c = cassert (\<not> t_joined t)
     (Inr ((if t_joinable t then thread_end t else t)\<lparr>t_joined := True, t_joinable := False\<rparr>,
           c\<lparr>tc_allThreadNum := tc_allThreadNum c - 1\<rparr>))"

text \<open>The member \<open>std::thread\<close> is destroyed after the body; when it is still joinable the process is terminated.\<close>

definition destroy_Thread :: "thread \<Rightarrow> thread_counters \<Rightarrow> thread_counters res" where
  "destroy_Thread t c =
     (let (t1, c1) = (if t_running t \<and> \<not> t_joined t
                      then (t\<lparr>t_joinable := False\<rparr>, c\<lparr>tc_allThreadNum := tc_allThreadNum c - 1\<rparr>) else (t, c)) in
      if t_joinable t1 then Inl FatalAbort else Inr c1)"

lemma thread_lifecycle:
  assumes "new_Thread name c = (t, c1)"
  shows "bindR (thread_start t c1) (\<lambda>(t2, c2). bindR (thread_join t2 c2) (\<lambda>(t3, c3). destroy_Thread t3 c3)) = Inr c1 \<and>
         bindR (thread_start t c1) (\<lambda>(t2, c2). destroy_Thread t2 c2) = Inr c1"
  using assms
  by (auto simp: new_Thread_def thread_start_def thread_join_def thread_end_def destroy_Thread_def split: prod.splits)

text \<open>A thread whose function has returned and that nobody joined terminates the process when it is destroyed.\<close>

lemma finished_thread_terminates:
  assumes "new_Thread name c = (t, c1)"
  shows "bindR (thread_start t c1) (\<lambda>(t2, c2). destroy_Thread (thread_end t2) c2) = Inl FatalAbort"
  using assms by (auto simp: new_Thread_def thread_start_def thread_end_def destroy_Thread_def split: prod.splits)

section \<open>CountDownLatch\<close>

text \<open>The second component of \<open>countDown\<close>: whether it notifies; \<open>wait\<close> goes on waiting while the count is positive.\<close>

definition new_CountDownLatch :: "int \<Rightarrow> int" where
  "new_CountDownLatch n = n"

definition latch_waits :: "int \<Rightarrow> bool" where
  "latch_waits m_count \<longleftrightarrow> m_count > 0"

definition countDown :: "int \<Rightarrow> int \<times> bool" where
  "countDown m_count = (m_count - 1, m_count - 1 = 0)"

definition getCount :: "int \<Rightarrow> int" where
  "getCount m_count = m_count"

lemma latch_opens:
  "((\<lambda>l. fst (countDown l)) ^^ k) (new_CountDownLatch n) = n - int k \<and>
   (latch_waits (((\<lambda>l. fst (countDown l)) ^^ k) (new_CountDownLatch n)) \<longleftrightarrow> int k < n)"
  by (induction k) (auto simp: new_CountDownLatch_def countDown_def latch_waits_def)

lemma latch_notifies: "snd (countDown l) \<longleftrightarrow> latch_waits l \<and> \<not> latch_waits (fst (countDown l))"
  by (auto simp: countDown_def latch_waits_def)

section \<open>TaskQueue\<close>

definition tq_append :: "'a \<Rightarrow> 'a list \<Rightarrow> 'a list" where
  "tq_append t q = q @ [t]"

definition tq_take :: "'a \<Rightarrow> 'a list \<Rightarrow> 'a \<times> 'a list" where
  "tq_take dflt q = (case q of [] \<Rightarrow> (dflt, []) | t # q1 \<Rightarrow> (t, q1))"

definition tq_size :: "'a list \<Rightarrow> nat" where
  "tq_size q = length q"

lemma tq_fifo: "q \<noteq> [] \<Longrightarrow> tq_take d (tq_append t q) = (fst (tq_take d q), tq_append t (snd (tq_take d q)))"
  by (cases q) (simp_all add: tq_take_def tq_append_def)

section \<open>ThreadPool\<close>

record work_pool =
  wp_maxTaskNum :: nat
  wp_running :: bool
  wp_queue :: "nat list"
  wp_threadVec :: nat

definition new_ThreadPool :: work_pool where
  "new_ThreadPool = \<lparr>wp_maxTaskNum = 0, wp_running = False, wp_queue = [], wp_threadVec = 0\<rparr>"

definition setTaskNum :: "nat \<Rightarrow> work_pool \<Rightarrow> work_pool" where
  "setTaskNum n p = p\<lparr>wp_maxTaskNum := n\<rparr>"

definition wp_queueSize :: "work_pool \<Rightarrow> nat" where
  "wp_queueSize p = length (wp_queue p)"

definition isFull :: "work_pool \<Rightarrow> bool" where
  "isFull p \<longleftrightarrow> 0 < wp_maxTaskNum p \<and> wp_maxTaskNum p \<le> length (wp_queue p)"

text \<open>\<open>start\<close>: the names of the threads it starts; the second component says that it runs the init callback itself.\<close>

definition wp_start :: "string \<Rightarrow> nat \<Rightarrow> bool \<Rightarrow> work_pool \<Rightarrow> (work_pool \<times> string list \<times> bool) res" where
  "wp_start name numThreads has_init p = cassert (wp_threadVec p = 0)
     (Inr (p\<lparr>wp_running := True, wp_threadVec := numThreads\<rparr>,
           map (\<lambda>i. name @ dec_digits (i + 1)) [0..<numThreads], numThreads = 0 \<and> has_init))"

text \<open>One pass of the loop of \<open>run\<close>, with the mutex held.\<close>

datatype run_result = RunInline | RunWait | RunQueued

definition wp_run :: "nat \<Rightarrow> work_pool \<Rightarrow> run_result \<times> work_pool" where
  "wp_run task p =
     (if wp_threadVec p = 0 then (RunInline, p)
      else if isFull p then (RunWait, p)
      else (RunQueued, p\<lparr>wp_queue := wp_queue p @ [task]\<rparr>))"

text \<open>One pass of the loop of \<open>take\<close>; the last component says whether \<open>m_notFull\<close> is notified.\<close>

datatype take_result = TakeWait | TakeNone | TakeGot nat

definition wp_take :: "work_pool \<Rightarrow> take_result \<times> work_pool \<times> bool" where
  "wp_take p =
     (case wp_queue p of
        [] \<Rightarrow> (if wp_running p then (TakeWait, p, False) else (TakeNone, p, False))
      | task # q \<Rightarrow> (TakeGot task, p\<lparr>wp_queue := q\<rparr>, 0 < wp_maxTaskNum p))"

definition wp_stop_flag :: "work_pool \<Rightarrow> work_pool" where
  "wp_stop_flag p = p\<lparr>wp_running := False\<rparr>"

definition wp_stop_clear :: "work_pool \<Rightarrow> work_pool" where
  "wp_stop_clear p = p\<lparr>wp_queue := []\<rparr>"

text \<open>\<open>threadFunc\<close> asserts that the pool runs when the thread begins.\<close>

definition wp_thread_begin :: "work_pool \<Rightarrow> unit res" where
  "wp_thread_begin p = cassert (wp_running p) (Inr ())"

section \<open>Steps of the pool\<close>

datatype worker_pc = WBegin | WLoop | WTake | WSleep | WRun nat | WExit

datatype producer_pc = PRun nat | PSleep nat | PDone

record pool_sys =
  ps_pool :: work_pool
  ps_workers :: "worker_pc list"
  ps_producers :: "producer_pc list"
  ps_pushed :: "nat list"
  ps_taken :: "nat list"
  ps_done :: "nat list"
  ps_cleared :: "nat list"

text \<open>\<open>notify_one\<close> wakes one sleeper, if there is one; \<open>notify_all\<close> wakes all.\<close>

definition wake_worker :: "nat option \<Rightarrow> worker_pc list \<Rightarrow> worker_pc list" where
  "wake_worker w ws = (case w of None \<Rightarrow> ws | Some i \<Rightarrow> ws[i := WTake])"

definition may_wake_worker :: "nat option \<Rightarrow> worker_pc list \<Rightarrow> bool" where
  "may_wake_worker w ws \<longleftrightarrow>
     (case w of None \<Rightarrow> WSleep \<notin> set ws | Some i \<Rightarrow> i < length ws \<and> ws ! i = WSleep)"

fun awake_producer :: "producer_pc \<Rightarrow> producer_pc" where
  "awake_producer (PSleep t) = PRun t"
| "awake_producer pc = pc"

fun is_PSleep :: "producer_pc \<Rightarrow> bool" where
  "is_PSleep (PSleep t) = True"
| "is_PSleep pc = False"

fun is_PRun :: "producer_pc \<Rightarrow> bool" where
  "is_PRun (PRun t) = True"
| "is_PRun pc = False"

fun awake_worker :: "worker_pc \<Rightarrow> worker_pc" where
  "awake_worker WSleep = WTake"
| "awake_worker pc = pc"

definition wake_producer :: "nat option \<Rightarrow> producer_pc list \<Rightarrow> producer_pc list" where
  "wake_producer j ps = (case j of None \<Rightarrow> ps | Some i \<Rightarrow> ps[i := awake_producer (ps ! i)])"

definition may_wake_producer :: "bool \<Rightarrow> nat option \<Rightarrow> producer_pc list \<Rightarrow> bool" where
  "may_wake_producer notified j ps \<longleftrightarrow>
     (case j of None \<Rightarrow> notified \<longrightarrow> list_all (\<lambda>pc. \<not> is_PSleep pc) ps
              | Some i \<Rightarrow> notified \<and> i < length ps \<and> is_PSleep (ps ! i))"

inductive pool_step :: "pool_sys \<Rightarrow> pool_sys \<Rightarrow> bool" where
  w_begin: "i < length (ps_workers s) \<Longrightarrow> ps_workers s ! i = WBegin \<Longrightarrow> wp_thread_begin (ps_pool s) = Inr () \<Longrightarrow>
     pool_step s (s\<lparr>ps_workers := (ps_workers s)[i := WLoop]\<rparr>)"
| w_test: "i < length (ps_workers s) \<Longrightarrow> ps_workers s ! i = WLoop \<Longrightarrow>
     pool_step s (s\<lparr>ps_workers := (ps_workers s)[i := if wp_running (ps_pool s) then WTake else WExit]\<rparr>)"
| w_wait: "i < length (ps_workers s) \<Longrightarrow> ps_workers s ! i = WTake \<Longrightarrow> wp_take (ps_pool s) = (TakeWait, p, n) \<Longrightarrow>
     pool_step s (s\<lparr>ps_workers := (ps_workers s)[i := WSleep]\<rparr>)"
| w_none: "i < length (ps_workers s) \<Longrightarrow> ps_workers s ! i = WTake \<Longrightarrow> wp_take (ps_pool s) = (TakeNone, p, n) \<Longrightarrow>
     pool_step s (s\<lparr>ps_workers := (ps_workers s)[i := WLoop]\<rparr>)"
| w_got: "i < length (ps_workers s) \<Longrightarrow> ps_workers s ! i = WTake \<Longrightarrow> wp_take (ps_pool s) = (TakeGot t, p, n) \<Longrightarrow>
     may_wake_producer n j (ps_producers s) \<Longrightarrow>
     pool_step s (s\<lparr>ps_pool := p, ps_workers := (ps_workers s)[i := WRun t],
       ps_producers := wake_producer j (ps_producers s), ps_taken := ps_taken s @ [t]\<rparr>)"
| w_done: "i < length (ps_workers s) \<Longrightarrow> ps_workers s ! i = WRun t \<Longrightarrow>
     pool_step s (s\<lparr>ps_workers := (ps_workers s)[i := WLoop], ps_done := ps_done s @ [t]\<rparr>)"
| w_spurious: "i < length (ps_workers s) \<Longrightarrow> ps_workers s ! i = WSleep \<Longrightarrow>
     pool_step s (s\<lparr>ps_workers := (ps_workers s)[i := WTake]\<rparr>)"
| p_call: "pool_step s (s\<lparr>ps_producers := ps_producers s @ [PRun t]\<rparr>)"
| p_wait: "j < length (ps_producers s) \<Longrightarrow> ps_producers s ! j = PRun t \<Longrightarrow> wp_run t (ps_pool s) = (RunWait, p) \<Longrightarrow>
     pool_step s (s\<lparr>ps_producers := (ps_producers s)[j := PSleep t]\<rparr>)"
| p_push: "j < length (ps_producers s) \<Longrightarrow> ps_producers s ! j = PRun t \<Longrightarrow> wp_run t (ps_pool s) = (RunQueued, p) \<Longrightarrow>
     may_wake_worker w (ps_workers s) \<Longrightarrow>
     pool_step s (s\<lparr>ps_pool := p, ps_producers := (ps_producers s)[j := PDone],
       ps_workers := wake_worker w (ps_workers s), ps_pushed := ps_pushed s @ [t]\<rparr>)"
| p_spurious: "j < length (ps_producers s) \<Longrightarrow> ps_producers s ! j = PSleep t \<Longrightarrow>
     pool_step s (s\<lparr>ps_producers := (ps_producers s)[j := PRun t]\<rparr>)"
| stop_flag: "pool_step s (s\<lparr>ps_pool := wp_stop_flag (ps_pool s),
     ps_workers := map awake_worker (ps_workers s), ps_producers := map awake_producer (ps_producers s)\<rparr>)"
| stop_clear: "\<not> wp_running (ps_pool s) \<Longrightarrow> list_all (\<lambda>w. w = WExit) (ps_workers s) \<Longrightarrow>
     pool_step s (s\<lparr>ps_pool := wp_stop_clear (ps_pool s), ps_cleared := ps_cleared s @ wp_queue (ps_pool s)\<rparr>)"

definition pool_init :: "nat \<Rightarrow> nat \<Rightarrow> pool_sys" where
  "pool_init maxTasks n = \<lparr>ps_pool = \<lparr>wp_maxTaskNum = maxTasks, wp_running = True, wp_queue = [], wp_threadVec = n\<rparr>,
     ps_workers = replicate n WBegin, ps_producers = [], ps_pushed = [], ps_taken = [], ps_done = [], ps_cleared = []\<rparr>"

lemma pool_init_started:
  "bindR (wp_start name n f (setTaskNum m new_ThreadPool)) (\<lambda>r. Inr (fst r)) = Inr (ps_pool (pool_init m n))"
  by (simp add: wp_start_def setTaskNum_def new_ThreadPool_def pool_init_def)

section \<open>Invariant\<close>

lemma sum_list_update:
  fixes f :: "'a \<Rightarrow> 'b::comm_monoid_add"
  assumes "i < length xs"
  shows "sum_list (map f (xs[i := v])) + f (xs ! i) = sum_list (map f xs) + f v"
proof -
  have "sum_list (map f xs) = sum_list (map f (take i xs)) + (f (xs ! i) + sum_list (map f (drop (Suc i) xs)))"
    by (subst id_take_nth_drop [OF assms]) simp
  then show ?thesis by (simp add: upd_conv_take_nth_drop [OF assms] ac_simps)
qed

definition nTake :: "worker_pc list \<Rightarrow> nat" where
  "nTake ws = sum_list (map (\<lambda>w. of_bool (w = WTake)) ws)"

definition nPRun :: "producer_pc list \<Rightarrow> nat" where
  "nPRun ps = sum_list (map (\<lambda>pc. of_bool (is_PRun pc)) ps)"

fun task_of :: "worker_pc \<Rightarrow> nat multiset" where
  "task_of (WRun t) = {#t#}"
| "task_of w = {#}"

definition running_tasks :: "worker_pc list \<Rightarrow> nat multiset" where
  "running_tasks ws = sum_list (map task_of ws)"

lemma nTake_update: "i < length ws \<Longrightarrow> nTake (ws[i := v]) + of_bool (ws ! i = WTake) = nTake ws + of_bool (v = WTake)"
  unfolding nTake_def by (rule sum_list_update)

lemma nPRun_update:
  "i < length ps \<Longrightarrow> nPRun (ps[i := v]) + of_bool (is_PRun (ps ! i)) = nPRun ps + of_bool (is_PRun v)"
  unfolding nPRun_def by (rule sum_list_update)

lemma running_update:
  "i < length ws \<Longrightarrow> running_tasks (ws[i := v]) + task_of (ws ! i) = running_tasks ws + task_of v"
  unfolding running_tasks_def by (rule sum_list_update)

lemma running_awake [simp]: "running_tasks (map awake_worker ws) = running_tasks ws"
proof -
  have "task_of \<circ> awake_worker = task_of" by (rule ext) (metis awake_worker.simps comp_apply task_of.simps awake_worker.elims)
  then show ?thesis by (simp add: running_tasks_def)
qed

lemma awake_not_asleep [simp]:
  "WSleep \<notin> awake_worker ` set ws" "WExit \<in> awake_worker ` set ws \<longleftrightarrow> WExit \<in> set ws"
  "\<not> is_PSleep (awake_producer pc)"
proof -
  have e: "awake_worker w \<noteq> WSleep" "awake_worker w = WExit \<longleftrightarrow> w = WExit" for w by (cases w; simp)+
  show "WSleep \<notin> awake_worker ` set ws" using e(1) [symmetric] by auto
  show "WExit \<in> awake_worker ` set ws \<longleftrightarrow> WExit \<in> set ws"
    by (simp add: image_iff eq_commute [of WExit] e(2))
  show "\<not> is_PSleep (awake_producer pc)" by (cases pc) simp_all
qed

definition pool_fifo :: "pool_sys \<Rightarrow> bool" where
  "pool_fifo s \<longleftrightarrow>
     ps_pushed s = ps_taken s @ ps_cleared s @ wp_queue (ps_pool s) \<and>
     mset (ps_taken s) = mset (ps_done s) + running_tasks (ps_workers s) \<and>
     (ps_cleared s \<noteq> [] \<longrightarrow> list_all (\<lambda>w. w = WExit) (ps_workers s)) \<and>
     (0 < wp_maxTaskNum (ps_pool s) \<longrightarrow> length (wp_queue (ps_pool s)) \<le> wp_maxTaskNum (ps_pool s))"

definition pool_wakes :: "pool_sys \<Rightarrow> bool" where
  "pool_wakes s \<longleftrightarrow>
     (WSleep \<in> set (ps_workers s) \<longrightarrow> wp_running (ps_pool s) \<and> length (wp_queue (ps_pool s)) \<le> nTake (ps_workers s)) \<and>
     (WExit \<in> set (ps_workers s) \<longrightarrow> \<not> wp_running (ps_pool s)) \<and>
     (list_ex is_PSleep (ps_producers s) \<longrightarrow>
        0 < wp_maxTaskNum (ps_pool s) \<and>
        (wp_running (ps_pool s) \<longrightarrow>
           wp_maxTaskNum (ps_pool s) \<le> length (wp_queue (ps_pool s)) + nPRun (ps_producers s)))"

lemma wp_take_cases:
  "wp_take p = (TakeWait, p', n) \<Longrightarrow> wp_queue p = [] \<and> wp_running p"
  "wp_take p = (TakeNone, p', n) \<Longrightarrow> wp_queue p = [] \<and> \<not> wp_running p"
  "wp_take p = (TakeGot t, p', n) \<Longrightarrow> \<exists>q. wp_queue p = t # q \<and> p' = p\<lparr>wp_queue := q\<rparr> \<and> n = (0 < wp_maxTaskNum p)"
  by (auto simp: wp_take_def split: list.splits if_splits)

lemma wp_run_cases:
  "wp_run t p = (RunWait, p') \<Longrightarrow> isFull p"
  "wp_run t p = (RunQueued, p') \<Longrightarrow> \<not> isFull p \<and> p' = p\<lparr>wp_queue := wp_queue p @ [t]\<rparr>"
  by (auto simp: wp_run_def split: if_splits)

lemma wake_worker_running:
  "may_wake_worker w ws \<Longrightarrow> running_tasks (wake_worker w ws) = running_tasks ws"
  using running_update [of _ ws WTake] by (fastforce simp: may_wake_worker_def wake_worker_def split: option.splits)

lemma wake_worker_set: "may_wake_worker w ws \<Longrightarrow> x \<noteq> WTake \<Longrightarrow> x \<noteq> WSleep \<Longrightarrow> x \<in> set (wake_worker w ws) \<longleftrightarrow> x \<in> set ws"
  by (auto simp: may_wake_worker_def wake_worker_def in_set_conv_nth nth_list_update split: option.splits if_splits)
    (metis nth_list_update_neq length_list_update)+

lemma not_exit_update:
  "i < length ws \<Longrightarrow> ws ! i \<noteq> WExit \<Longrightarrow> \<not> list_all (\<lambda>w. w = WExit) ws"
  by (auto simp: list_all_iff)

lemma sleeper_not_exited: "i < length ws \<Longrightarrow> ws ! i = WSleep \<Longrightarrow> \<not> list_all (\<lambda>w. w = WExit) ws"
  using not_exit_update [of i ws] by simp

lemma pool_fifo_step: "pool_step s t \<Longrightarrow> pool_fifo s \<Longrightarrow> pool_fifo t"
proof (induction rule: pool_step.induct)
  case (w_got i s t p n j)
  then obtain q where q: "wp_queue (ps_pool s) = t # q" "p = (ps_pool s)\<lparr>wp_queue := q\<rparr>" using wp_take_cases(3) by blast
  have "ps_cleared s = []" using w_got not_exit_update [of i "ps_workers s"] by (auto simp: pool_fifo_def)
  moreover have "running_tasks ((ps_workers s)[i := WRun t]) = running_tasks (ps_workers s) + {#t#}"
    using running_update [of i "ps_workers s" "WRun t"] w_got by simp
  ultimately show ?case using w_got q by (auto simp: pool_fifo_def)
next
  case (w_done i s t)
  have "running_tasks ((ps_workers s)[i := WLoop]) + {#t#} = running_tasks (ps_workers s)"
    using running_update [of i "ps_workers s" WLoop] w_done by simp
  then show ?case using w_done not_exit_update [of i "ps_workers s"] by (auto simp: pool_fifo_def)
next
  case (p_push j s t p w)
  then have p: "\<not> isFull (ps_pool s)" "p = (ps_pool s)\<lparr>wp_queue := wp_queue (ps_pool s) @ [t]\<rparr>" using wp_run_cases(2) by blast+
  have "list_all (\<lambda>w. w = WExit) (ps_workers s) \<Longrightarrow> wake_worker w (ps_workers s) = ps_workers s"
    using p_push(4) sleeper_not_exited [of _ "ps_workers s"]
    by (auto simp: may_wake_worker_def wake_worker_def split: option.splits)
  with p p_push wake_worker_running [OF p_push(4)] show ?case by (auto simp: pool_fifo_def isFull_def)
next
  case (stop_clear s)
  then show ?case by (auto simp: pool_fifo_def wp_stop_clear_def)
next
  case (stop_flag s)
  then show ?case by (auto simp: pool_fifo_def wp_stop_flag_def list_all_iff)
qed (use running_update not_exit_update in \<open>fastforce simp: pool_fifo_def\<close>)+

lemma sleep_update:
  "i < length ws \<Longrightarrow> x \<in> set (ws[i := v]) \<Longrightarrow> x = v \<or> x \<in> set ws"
  by (meson insertE set_update_subset_insert subsetD)

lemma psleep_update:
  "j < length ps \<Longrightarrow> list_ex is_PSleep (ps[j := v]) \<Longrightarrow> is_PSleep v \<or> list_ex is_PSleep ps"
  by (metis in_set_conv_nth list_ex_iff sleep_update)

lemma pool_wakes_push:
  assumes "may_wake_worker w ws" and "WSleep \<in> set (wake_worker w ws)" and "WSleep \<in> set ws \<longrightarrow> q \<le> nTake ws"
  shows "WSleep \<in> set ws \<and> Suc q \<le> nTake (wake_worker w ws)"
proof (cases w)
  case None
  with assms show ?thesis by (simp add: may_wake_worker_def wake_worker_def)
next
  case (Some i)
  with assms(1) have i: "i < length ws" "ws ! i = WSleep" by (simp_all add: may_wake_worker_def)
  then have "WSleep \<in> set ws" by (metis nth_mem)
  with i assms(3) Some nTake_update [OF i(1), of WTake] show ?thesis by (simp add: wake_worker_def)
qed

lemma pool_wakes_take:
  assumes "may_wake_producer n j ps" and "list_ex is_PSleep (wake_producer j ps)" and "n"
    and "list_ex is_PSleep ps \<longrightarrow> m \<le> Suc q + nPRun ps"
  shows "list_ex is_PSleep ps \<and> m \<le> q + nPRun (wake_producer j ps)"
proof (cases j)
  case None
  with assms show ?thesis by (auto simp: may_wake_producer_def wake_producer_def list_ex_iff list_all_iff)
next
  case (Some i)
  with assms(1) have i: "i < length ps" "is_PSleep (ps ! i)" by (simp_all add: may_wake_producer_def)
  then have ex: "list_ex is_PSleep ps" by (auto simp: list_ex_iff)
  obtain t where t: "ps ! i = PSleep t" using i(2) by (cases "ps ! i") auto
  with ex i assms(4) Some nPRun_update [OF i(1), of "PRun t"] show ?thesis by (simp add: wake_producer_def)
qed

lemma pool_wakes_worker:
  assumes "pool_wakes s" and "i < length (ps_workers s)"
    and "v = WSleep \<longrightarrow> wp_running (ps_pool s) \<and> wp_queue (ps_pool s) = []" and "v = WExit \<longrightarrow> \<not> wp_running (ps_pool s)"
    and "ps_workers s ! i = WTake \<longrightarrow> wp_queue (ps_pool s) = []"
  shows "pool_wakes (s\<lparr>ps_workers := (ps_workers s)[i := v]\<rparr>)"
proof -
  let ?ws = "(ps_workers s)[i := v]"
  have "wp_running (ps_pool s) \<and> length (wp_queue (ps_pool s)) \<le> nTake ?ws" if w: "WSleep \<in> set ?ws"
  proof (cases "v = WSleep \<or> ps_workers s ! i = WTake")
    case True
    with assms(1,3,5) sleep_update [OF assms(2) w] show ?thesis by (auto simp: pool_wakes_def)
  next
    case False
    with sleep_update [OF assms(2) w] have "WSleep \<in> set (ps_workers s)" by auto
    with assms(1) nTake_update [OF assms(2), of v] False show ?thesis by (auto simp: pool_wakes_def)
  qed
  moreover have "\<not> wp_running (ps_pool s)" if w: "WExit \<in> set ?ws"
    using sleep_update [OF assms(2) w] assms(1,4) by (auto simp: pool_wakes_def)
  ultimately show ?thesis using assms(1) by (simp add: pool_wakes_def)
qed

lemma pool_wakes_step: "pool_step s t \<Longrightarrow> pool_wakes s \<Longrightarrow> pool_wakes t"
proof (induction rule: pool_step.induct)
  case (w_begin i s)
  then show ?case by (intro pool_wakes_worker) simp_all
next
  case (w_test i s)
  then show ?case by (intro pool_wakes_worker) simp_all
next
  case (w_wait i s p n)
  then show ?case using wp_take_cases(1) by (intro pool_wakes_worker) auto
next
  case (w_none i s p n)
  then show ?case using wp_take_cases(2) by (intro pool_wakes_worker) auto
next
  case (w_done i s t)
  then have "pool_wakes (s\<lparr>ps_workers := (ps_workers s)[i := WLoop]\<rparr>)" by (intro pool_wakes_worker) simp_all
  then show ?case by (simp add: pool_wakes_def)
next
  case (w_spurious i s)
  then show ?case by (intro pool_wakes_worker) simp_all
next
  case (w_got i s t p n j)
  obtain q where q: "wp_queue (ps_pool s) = t # q" "p = (ps_pool s)\<lparr>wp_queue := q\<rparr>" "n = (0 < wp_maxTaskNum (ps_pool s))"
    using wp_take_cases(3) [OF w_got(3)] by blast
  have k: "nTake ((ps_workers s)[i := WRun t]) + 1 = nTake (ps_workers s)"
    using nTake_update [of i "ps_workers s" "WRun t"] w_got(1,2) by simp
  have "list_ex is_PSleep (wake_producer j (ps_producers s)) \<Longrightarrow> \<not> n \<Longrightarrow> list_ex is_PSleep (ps_producers s)"
    using w_got(4) by (auto simp: may_wake_producer_def wake_producer_def split: option.splits)
  then show ?case using w_got(5) k q sleep_update [OF w_got(1)]
      pool_wakes_take [OF w_got(4), of "wp_maxTaskNum (ps_pool s)" "length q"]
    by (auto simp: pool_wakes_def)
next
  case (p_call s t)
  then show ?case by (auto simp: pool_wakes_def nPRun_def)
next
  case (p_wait j s t p)
  then show ?case using wp_run_cases(1) [OF p_wait(3)] by (auto simp: pool_wakes_def isFull_def)
next
  case (p_push j s t p w)
  have p: "p = (ps_pool s)\<lparr>wp_queue := wp_queue (ps_pool s) @ [t]\<rparr>" using wp_run_cases(2) [OF p_push(3)] by blast
  have "WExit \<in> set (wake_worker w (ps_workers s)) \<longleftrightarrow> WExit \<in> set (ps_workers s)"
    using p_push(4) by (rule wake_worker_set) simp_all
  moreover have "list_ex is_PSleep ((ps_producers s)[j := PDone]) \<Longrightarrow> list_ex is_PSleep (ps_producers s)"
    using psleep_update [OF p_push(1)] by fastforce
  moreover have "nPRun ((ps_producers s)[j := PDone]) + 1 = nPRun (ps_producers s)"
    using nPRun_update [of j "ps_producers s" PDone] p_push(1,2) by simp
  ultimately show ?case
    using p_push(5) p pool_wakes_push [OF p_push(4), of "length (wp_queue (ps_pool s))"] by (auto simp: pool_wakes_def)
next
  case (p_spurious j s t)
  have "list_ex is_PSleep (ps_producers s)"
    using p_spurious by (metis is_PSleep.simps(1) list_ex_iff nth_mem)
  then show ?case using p_spurious nPRun_update [of j "ps_producers s" "PRun t"] by (auto simp: pool_wakes_def)
next
  case (stop_flag s)
  have "\<not> list_ex is_PSleep (map awake_producer (ps_producers s))" by (auto simp: list_ex_iff)
  then show ?case by (auto simp: pool_wakes_def wp_stop_flag_def)
next
  case (stop_clear s)
  have "WSleep \<notin> set (ps_workers s)" using stop_clear by (auto simp: list_all_iff)
  then show ?case using stop_clear by (auto simp: pool_wakes_def wp_stop_clear_def)
qed

lemma sum_list_empty [simp]: "sum_list (replicate n {#}) = {#}"
  by (induction n) auto

lemma nTake_pos: "0 < nTake ws \<Longrightarrow> WTake \<in> set ws"
  by (induction ws) (auto simp: nTake_def split: if_splits)

lemma pool_init_inv: "pool_fifo (pool_init m n) \<and> pool_wakes (pool_init m n)"
  by (auto simp: pool_init_def pool_fifo_def pool_wakes_def running_tasks_def sum_list_replicate)

interpretation pool: invariant_system "\<lambda>s. \<exists>m n. s = pool_init m n" pool_step "\<lambda>s. pool_fifo s \<and> pool_wakes s"
  by unfold_locales (auto simp: pool_init_inv intro: pool_fifo_step pool_wakes_step)

section \<open>What the pool promises\<close>

text \<open>
  C14. In every interleaving of workers, callers of \<open>run\<close>, spurious wake-ups and \<open>stop\<close>, the tasks are
  taken in the order in which they were queued, each exactly once: what was queued is what was
  taken, what \<open>stop\<close> threw away and what still waits, in this order; what was taken has run or is
  being run by exactly one worker; and the queue never holds more than its maximum.
\<close>

theorem pool_tasks_in_order:
  assumes "reaches pool_step (pool_init m n) s"
  shows "ps_pushed s = ps_taken s @ ps_cleared s @ wp_queue (ps_pool s) \<and>
     mset (ps_taken s) = mset (ps_done s) + running_tasks (ps_workers s) \<and>
     (0 < wp_maxTaskNum (ps_pool s) \<longrightarrow> length (wp_queue (ps_pool s)) \<le> wp_maxTaskNum (ps_pool s))"
  using pool.reachable_inv [OF _ assms] by (auto simp: pool_fifo_def)

text \<open>
  C13. No wake-up is lost while the pool runs: when a worker sleeps, every waiting task has an awake
  worker of its own about to take it; so a task never waits while all workers sleep. When a
  caller of \<open>run\<close> sleeps, every free place of the queue has an awake caller of its own.
\<close>

theorem pool_no_lost_wakeup:
  assumes "reaches pool_step (pool_init m n) s" and "wp_running (ps_pool s)"
  shows "(WSleep \<in> set (ps_workers s) \<longrightarrow> length (wp_queue (ps_pool s)) \<le> nTake (ps_workers s)) \<and>
     (wp_queue (ps_pool s) \<noteq> [] \<longrightarrow> ps_workers s \<noteq> [] \<longrightarrow> (\<exists>w \<in> set (ps_workers s). w \<noteq> WSleep \<and> w \<noteq> WExit)) \<and>
     (list_ex is_PSleep (ps_producers s) \<longrightarrow>
        wp_maxTaskNum (ps_pool s) - length (wp_queue (ps_pool s)) \<le> nPRun (ps_producers s))"
proof -
  have inv: "pool_wakes s" using pool.reachable_inv [OF _ assms(1)] by blast
  have "\<exists>w \<in> set (ps_workers s). w \<noteq> WSleep \<and> w \<noteq> WExit" if q: "wp_queue (ps_pool s) \<noteq> []" "ps_workers s \<noteq> []"
  proof (cases "WSleep \<in> set (ps_workers s)")
    case True
    then have "0 < nTake (ps_workers s)" using inv q(1) by (cases "wp_queue (ps_pool s)") (auto simp: pool_wakes_def)
    then have "WTake \<in> set (ps_workers s)" by (rule nTake_pos)
    then show ?thesis by force
  next
    case False
    with inv assms(2) q(2) show ?thesis by (cases "ps_workers s") (auto simp: pool_wakes_def)
  qed
  with inv assms(2) show ?thesis by (auto simp: pool_wakes_def)
qed

lemma push_one:
  "reaches pool_step (pool_init 1 1) ((pool_init 1 1)\<lparr>ps_pool := (ps_pool (pool_init 1 1))\<lparr>wp_queue := [7]\<rparr>,
     ps_producers := [PDone], ps_pushed := [7]\<rparr>)"
proof -
  let ?a = "pool_init 1 1"
  let ?c = "?a\<lparr>ps_pool := (ps_pool ?a)\<lparr>wp_queue := [7]\<rparr>, ps_producers := [PDone], ps_pushed := [7]\<rparr>"
  let ?b = "?a\<lparr>ps_producers := [PRun 7]\<rparr>"
  have 1: "pool_step ?a ?b" using p_call [of ?a 7] by (simp add: pool_init_def)
  have 2: "pool_step ?b ?c"
    using p_push [of 0 ?b 7 "(ps_pool ?a)\<lparr>wp_queue := [7]\<rparr>" None]
    by (simp add: pool_init_def wp_run_def isFull_def may_wake_worker_def wake_worker_def)
  have "reaches pool_step ?a ?b" by (rule reaches_one [of pool_step, OF 1])
  then show ?thesis using 2 by (rule reaches.step [of pool_step])
qed

theorem pool_tasks_in_order_witness:
  "\<exists>s. reaches pool_step (pool_init 1 1) s \<and> ps_pushed s = [7] \<and> wp_queue (ps_pool s) = [7] \<and>
     length (wp_queue (ps_pool s)) \<le> wp_maxTaskNum (ps_pool s)"
  using push_one pool_tasks_in_order [OF push_one] by (auto simp: pool_init_def)

theorem pool_no_lost_wakeup_witness:
  "\<exists>s. reaches pool_step (pool_init 1 1) s \<and> wp_queue (ps_pool s) = [7] \<and> (\<exists>w \<in> set (ps_workers s). w \<noteq> WSleep)"
  using push_one pool_no_lost_wakeup [OF push_one] by (auto simp: pool_init_def)

section \<open>Waiting for the tasks\<close>

text \<open>
  \<open>waitForAllDone\<close> queues a task that counts a latch of one down, and waits for the latch.
\<close>

definition waitForAllDone_returns :: "nat \<Rightarrow> pool_sys \<Rightarrow> bool" where
  "waitForAllDone_returns task s \<longleftrightarrow>
     \<not> latch_waits (if task \<in> set (ps_done s) then fst (countDown (new_CountDownLatch 1)) else new_CountDownLatch 1)"

lemma waitForAllDone_returns_iff: "waitForAllDone_returns task s \<longleftrightarrow> task \<in> set (ps_done s)"
  by (simp add: waitForAllDone_returns_def latch_waits_def countDown_def new_CountDownLatch_def)

text \<open>With one worker every earlier task has run when it returns.\<close>

fun tasks_of :: "worker_pc \<Rightarrow> nat list" where
  "tasks_of (WRun t) = [t]"
| "tasks_of w = []"

definition pool_single :: "pool_sys \<Rightarrow> bool" where
  "pool_single s \<longleftrightarrow> length (ps_workers s) = 1 \<and> ps_taken s = ps_done s @ tasks_of (hd (ps_workers s))"

lemma single_worker [simp]: "length ws = Suc 0 \<Longrightarrow> hd ws = ws ! 0" "length ws = Suc 0 \<Longrightarrow> hd (ws[0 := v]) = v"
  by (cases ws; simp)+

lemma tasks_of_awake [simp]: "tasks_of (awake_worker w) = tasks_of w"
  by (cases w) auto

lemma wake_worker_single:
  assumes "length ws = 1" and "may_wake_worker w ws"
  shows "length (wake_worker w ws) = 1 \<and> tasks_of (hd (wake_worker w ws)) = tasks_of (hd ws)"
proof (cases w)
  case None
  with assms show ?thesis by (simp add: wake_worker_def)
next
  case (Some i)
  with assms(2) have i: "i < length ws" "ws ! i = WSleep" by (auto simp: may_wake_worker_def)
  with assms(1) Some show ?thesis by (cases ws) (auto simp: wake_worker_def)
qed

lemma pool_single_step: "pool_step s t \<Longrightarrow> pool_single s \<Longrightarrow> pool_single t"
proof (induction rule: pool_step.induct)
  case (p_push j s t p w)
  then show ?case using wake_worker_single [of "ps_workers s" w] by (auto simp: pool_single_def)
next
  case (stop_flag s)
  then show ?case by (cases "ps_workers s") (simp_all add: pool_single_def)
qed (auto simp: pool_single_def)

lemma prefix_before:
  assumes "prefix d (xs @ l # ys)" and "l \<in> set d" and "l \<notin> set xs"
  shows "set xs \<subseteq> set d"
proof (cases "prefix d xs")
  case True
  with assms show ?thesis using set_mono_prefix by blast
next
  case False
  with assms(1) have "prefix xs d" by (metis prefix_append prefix_def)
  then show ?thesis by (rule set_mono_prefix)
qed

interpretation single: invariant_system "\<lambda>s. \<exists>m. s = pool_init m 1" pool_step pool_single
proof
  show "pool_single s" if "\<exists>m. s = pool_init m 1" for s using that by (auto simp: pool_init_def pool_single_def)
qed (rule pool_single_step)

lemma waitForAllDone_one_worker:
  assumes "reaches pool_step (pool_init m 1) s" and "ps_pushed s = xs @ latch # ys"
    and "waitForAllDone_returns latch s" and "latch \<notin> set xs"
  shows "set xs \<subseteq> set (ps_done s)"
proof -
  have "pool_fifo s" using pool.reachable_inv [OF _ assms(1)] by blast
  moreover have "pool_single s" using single.reachable_inv [OF _ assms(1)] by blast
  ultimately have "prefix (ps_done s) (xs @ latch # ys)"
    using assms(2) by (auto simp: pool_fifo_def pool_single_def prefix_def)
  from prefix_before [OF this _ assms(4)] assms(3) show ?thesis by (simp add: waitForAllDone_returns_iff)
qed

text \<open>A thread that begins after \<open>stop\<close> trips the assertion of \<open>threadFunc\<close>.\<close>

lemma start_stop_race:
  "\<exists>s. reaches pool_step (pool_init 0 1) s \<and> ps_workers s = [WBegin] \<and> wp_thread_begin (ps_pool s) = Inl AssertFailed"
proof (intro exI conjI)
  show "reaches pool_step (pool_init 0 1) ((pool_init 0 1)\<lparr>ps_pool := wp_stop_flag (ps_pool (pool_init 0 1))\<rparr>)"
    using reaches_one [of pool_step, OF stop_flag [of "pool_init 0 1"]] by (simp add: pool_init_def)
qed (simp_all add: pool_init_def wp_thread_begin_def wp_stop_flag_def cassert_def)

text \<open>
  With two workers it may return while an earlier task still runs: the run below queues task 1 and the
  latch task 9, gives each to a worker and lets the second finish.
\<close>

definition pool_at :: "nat \<Rightarrow> bool \<Rightarrow> nat list \<Rightarrow> worker_pc list \<Rightarrow> producer_pc list \<Rightarrow>
    nat list \<Rightarrow> nat list \<Rightarrow> nat list \<Rightarrow> nat list \<Rightarrow> pool_sys" where
  "pool_at m r q ws ps pushed taken finished cleared =
     \<lparr>ps_pool = \<lparr>wp_maxTaskNum = m, wp_running = r, wp_queue = q, wp_threadVec = length ws\<rparr>,
      ps_workers = ws, ps_producers = ps, ps_pushed = pushed, ps_taken = taken, ps_done = finished, ps_cleared = cleared\<rparr>"

lemma reaches_next: "reaches pool_step s t \<Longrightarrow> pool_step t u' \<Longrightarrow> u = u' \<Longrightarrow> reaches pool_step s u"
  by (auto intro: reaches.step)

lemmas run_simps = pool_at_def wp_run_def isFull_def may_wake_worker_def wake_worker_def wp_thread_begin_def
  wp_take_def may_wake_producer_def wake_producer_def wp_stop_flag_def wp_stop_clear_def

lemma pool_at_init: "reaches pool_step (pool_init m n) (pool_at m True [] (replicate n WBegin) [] [] [] [] [])"
  using reaches.refl [of pool_step "pool_init m n"] by (simp add: pool_at_def pool_init_def)

lemma waitForAllDone_returns_early:
  "\<exists>s. reaches pool_step (pool_init 0 2) s \<and> ps_pushed s = [1, 9] \<and> waitForAllDone_returns 9 s \<and> WRun 1 \<in> set (ps_workers s)"
proof -
  let ?r = "reaches pool_step (pool_init 0 2)"
  have "?r (pool_at 0 True [] [WBegin, WBegin] [] [] [] [] [])" using pool_at_init [of 0 2] by (simp add: numeral_2_eq_2)
  then have "?r (pool_at 0 True [] [WBegin, WBegin] [PRun 1] [] [] [] [])"
    by (rule reaches_next [OF _ p_call [where t = 1]]) (simp add: run_simps)
  then have "?r (pool_at 0 True [1] [WBegin, WBegin] [PDone] [1] [] [] [])"
    by (rule reaches_next [OF _ p_push [where j = 0 and w = None]]) (auto simp: run_simps)
  then have "?r (pool_at 0 True [1] [WBegin, WBegin] [PDone, PRun 9] [1] [] [] [])"
    by (rule reaches_next [OF _ p_call [where t = 9]]) (simp add: run_simps)
  then have "?r (pool_at 0 True [1, 9] [WBegin, WBegin] [PDone, PDone] [1, 9] [] [] [])"
    by (rule reaches_next [OF _ p_push [where j = 1 and w = None]]) (auto simp: run_simps)
  then have "?r (pool_at 0 True [1, 9] [WLoop, WBegin] [PDone, PDone] [1, 9] [] [] [])"
    by (rule reaches_next [OF _ w_begin [where i = 0]]) (simp_all add: run_simps)
  then have "?r (pool_at 0 True [1, 9] [WTake, WBegin] [PDone, PDone] [1, 9] [] [] [])"
    by (rule reaches_next [OF _ w_test [where i = 0]]) (simp_all add: run_simps)
  then have "?r (pool_at 0 True [9] [WRun 1, WBegin] [PDone, PDone] [1, 9] [1] [] [])"
    by (rule reaches_next [OF _ w_got [where i = 0 and j = None]]) (auto simp: run_simps)
  then have "?r (pool_at 0 True [9] [WRun 1, WLoop] [PDone, PDone] [1, 9] [1] [] [])"
    by (rule reaches_next [OF _ w_begin [where i = 1]]) (simp_all add: run_simps)
  then have "?r (pool_at 0 True [9] [WRun 1, WTake] [PDone, PDone] [1, 9] [1] [] [])"
    by (rule reaches_next [OF _ w_test [where i = 1]]) (simp_all add: run_simps)
  then have "?r (pool_at 0 True [] [WRun 1, WRun 9] [PDone, PDone] [1, 9] [1, 9] [] [])"
    by (rule reaches_next [OF _ w_got [where i = 1 and j = None]]) (auto simp: run_simps)
  then have "?r (pool_at 0 True [] [WRun 1, WLoop] [PDone, PDone] [1, 9] [1, 9] [9] [])"
    by (rule reaches_next [OF _ w_done [where i = 1]]) (simp_all add: run_simps)
  then show ?thesis by (intro exI conjI, assumption) (simp_all add: pool_at_def waitForAllDone_returns_iff)
qed

text \<open>
  A caller that waits for a place in the queue when \<open>stop\<close> is called is never woken again: \<open>stop\<close> wakes it
  while the queue is still full, and empties the queue without another notification.
\<close>

lemma run_blocks_after_stop:
  "\<exists>s. reaches pool_step (pool_init 1 1) s \<and> ps_producers s = [PDone, PSleep 2] \<and> ps_workers s = [WExit] \<and>
     \<not> isFull (ps_pool s) \<and> \<not> wp_running (ps_pool s)"
proof -
  let ?r = "reaches pool_step (pool_init 1 1)"
  have "?r (pool_at 1 True [] [WBegin] [] [] [] [] [])" using pool_at_init [of 1 1] by simp
  then have "?r (pool_at 1 True [] [WLoop] [] [] [] [] [])"
    by (rule reaches_next [OF _ w_begin [where i = 0]]) (simp_all add: run_simps)
  then have "?r (pool_at 1 True [] [WLoop] [PRun 1] [] [] [] [])"
    by (rule reaches_next [OF _ p_call [where t = 1]]) (simp add: run_simps)
  then have "?r (pool_at 1 True [1] [WLoop] [PDone] [1] [] [] [])"
    by (rule reaches_next [OF _ p_push [where j = 0 and w = None]]) (auto simp: run_simps)
  then have "?r (pool_at 1 True [1] [WLoop] [PDone, PRun 2] [1] [] [] [])"
    by (rule reaches_next [OF _ p_call [where t = 2]]) (simp add: run_simps)
  then have "?r (pool_at 1 False [1] [WLoop] [PDone, PRun 2] [1] [] [] [])"
    by (rule reaches_next [OF _ stop_flag]) (simp add: run_simps)
  then have "?r (pool_at 1 False [1] [WLoop] [PDone, PSleep 2] [1] [] [] [])"
    by (rule reaches_next [OF _ p_wait [where j = 1]]) (auto simp: run_simps)
  then have "?r (pool_at 1 False [1] [WExit] [PDone, PSleep 2] [1] [] [] [])"
    by (rule reaches_next [OF _ w_test [where i = 0]]) (simp_all add: run_simps)
  then have "?r (pool_at 1 False [] [WExit] [PDone, PSleep 2] [1] [] [] [1])"
    by (rule reaches_next [OF _ stop_clear]) (simp_all add: run_simps)
  then show ?thesis by (intro exI conjI, assumption) (simp_all add: pool_at_def isFull_def)
qed

end
