(* ===== verification/Spec2Isabelle.thy ===== *)
theory Spec2Isabelle
  imports Net_TimerQueue Core_DateFormat Core_Support Net_Socket Http_Session Rpc_Wire Net_Server Utils_LogAsync Utils_ThreadPool
begin

text \<open>
  youth is a C++ network library in the style of muduo: one event loop per thread,
  non-blocking sockets, timers, an HTTP server, protobuf remote calls, and the string, date,
  file, logging and thread utilities these parts need. This development models the
  library's own logic and proves what makes each part correct.

  \<^bold>\<open>How the parts work together.\<close> An \<open>EventLoop\<close> (\<open>net/EventLoop\<close>) polls through an \<open>Epoll\<close> object (\<open>net/Epoll\<close>) in
  which \<open>Channel\<close>s (\<open>net/Channel\<close>) are registered; ready channels call back, then the functors other
  threads queued are run. \<open>TimerQueue\<close> (\<open>net/TimerQueue\<close>, \<open>net/Timer\<close>) drives timers through a timer descriptor. A
  \<open>Connector\<close> or an \<open>Acceptor\<close> produces sockets; \<open>TcpClient\<close> and \<open>TcpServer\<close> turn them into
  \<open>TcpConnection\<close>s on the loops of an \<open>EventLoopThreadPool\<close>. A connection reads into and writes from a
  \<open>Buffer\<close>. \<open>http/HttpServer\<close> and \<open>rpc/RpcChannel\<close> are message callbacks of connections.

  \<^bold>\<open>Conventions.\<close> A C++ object is a record, an operation a function from the state before to the
  state after. \<open>'a res\<close> (\<open>Youth_Prelude\<close>) is a value or a fault: a failed \<open>assert\<close>, a \<open>LOG_FATAL\<close>, an uncaught
  exception, an access outside an object. A loop that need not end is an option, \<open>None\<close>
  meaning that it does not return. The kernel, the clock, the time zone, the file system, protobuf and
  user code are arguments; what is relied on of them is stated with the property that needs it.
  Bytes are characters, machine integers are words where their width matters.
  Concurrent parts are step relations, one step per piece of code that runs without
  interference (a critical section, a callback, a system call), and the properties hold in
  every reachable state.

  \<^bold>\<open>Shared theories.\<close> \<open>Youth_Prelude\<close>: results, checked memory, lists and words.
  \<open>Transition_System\<close>: reachability, and the contracts \<open>invariant_system\<close> and \<open>simulation\<close>, interpreted
  by every component with a step relation. \<open>Byte_Queue\<close>: the contract of a byte queue, interpreted by
  \<open>Net_Buffer\<close>. \<open>Decimal\<close>: decimal texts. \<open>Errno\<close>: error numbers.

  \<^bold>\<open>The network core.\<close>
  \<^item> \<open>Socket_Func\<close>, \<open>Net_Address\<close>, \<open>Net_Socket\<close> (\<open>net/SocketFunc\<close>, \<open>net/HostAddress\<close>, \<open>net/Socket\<close>): byte order, addresses as memory,
    resolving, accepting, options, \<open>TCP_INFO\<close>. Addresses round-trip through their text; a socket object touches its
    own descriptor only and closes it.
  \<^item> \<open>Net_Buffer\<close> (\<open>net/Buffer\<close>): refines a byte queue for every sequence of operations; integers
    round-trip between hosts of any byte order; \<open>readFd\<close> keeps what the kernel delivered.
  \<^item> \<open>Net_Channel\<close>, \<open>Net_Epoll\<close> (\<open>net/Channel\<close>, \<open>net/Epoll\<close>): the kernel's interest set, the poller's map and the channels agree.
  \<^item> \<open>Net_EventLoop\<close> (\<open>net/EventLoop\<close>): no functor waits while the loop sleeps without a wake-up; functors run once, in order.
  \<^item> \<open>Net_TimerQueue\<close> (\<open>net/TimerQueue\<close>, \<open>net/Timer\<close>): no deleted timer is touched, cancelled timers do not
    fire, exactly the due timers fire, the descriptor stays armed.
  \<^item> \<open>Net_TcpConnection\<close> (\<open>net/TcpConnection\<close>): the byte stream, freedom from faults, the order of callbacks, interest in writability.
  \<^item> \<open>Net_Connector\<close>, \<open>Net_Server\<close> (\<open>net/Connector\<close>, \<open>net/Acceptor\<close>, \<open>net/EventLoopThread\<close>, \<open>net/EventLoopThreadPool\<close>, \<open>net/TcpServer\<close>,
    \<open>net/TcpClient\<close>): no descriptor leaks or is closed twice; the server's map holds the live connections.

  \<^bold>\<open>Protocols.\<close>
  \<^item> \<open>Http_Request\<close>, \<open>Http_Server\<close> (\<open>net/http\<close>): the parser over the buffer equals a parser over a string, may be fed in
    pieces and inverts the printing of requests; the server answers each request.
  \<^item> \<open>Http_Example\<close>, \<open>Http_Connection\<close> (\<open>examples/HttpServer\<close>): an application and what it puts on a connection.
  \<^item> \<open>Http_Session\<close>: the server as the callback of a connection over its whole life: on a connection that is kept open every
    request is answered, once and in order, however its bytes arrive.
  \<^item> \<open>Rpc_Codec\<close>, \<open>Rpc_Channel\<close>, \<open>Rpc_Wire\<close> (\<open>net/rpc\<close>): frames, calls, and calls over bytes. Messages round-trip in any
    pieces, corrupted frames are not delivered, calls complete once with their own answer.

  \<^bold>\<open>Utilities.\<close>
  \<^item> \<open>Core_DateTime\<close>, \<open>Core_DateFormat\<close>, \<open>Core_String\<close> (\<open>core/DateTime\<close>, \<open>core/StringFunction\<close>): calendar arithmetic, text forms,
    string functions with their termination.
  \<^item> \<open>Core_Files\<close> (\<open>core/Dir\<close>, \<open>core/FileInfo\<close>): paths and directory listings. \<open>Core_File\<close> (\<open>core/File\<close>, \<open>core/Process\<close>): file streams
    with their error bits, what they leave on the disk, renaming, copying, links, the environment. Lines
    written to a file are read back.
  \<^item> \<open>Core_Support\<close> (\<open>core/CurrentThread\<close>, \<open>core/ElapsedTimer\<close>, \<open>core/WeakCallback\<close>, \<open>utils/Singleton\<close>): cached thread identifiers, a stop
    watch, callbacks on objects that may be gone, values made once.
  \<^item> \<open>Utils_LogStream\<close>, \<open>Utils_Logging\<close>, \<open>Utils_LogAsync\<close> (\<open>utils/Log*\<close>): the text of a line, the effect of a statement, rolling files, the
    double-buffered background writer.
  \<^item> \<open>Utils_ThreadPool\<close> (\<open>core/Thread\<close>, \<open>core/CountDownLatch\<close>, \<open>utils/TaskQueue\<close>, \<open>utils/ThreadPool\<close>): no lost wake-up, tasks in order and once.

  \<^bold>\<open>This theory\<close> holds the properties that span components: messages over a connection, and remote calls
  over bytes (by simulation of the exchange of whole messages).

  \<^bold>\<open>Bounds and fuel.\<close> No definition uses fuel: loops are structural, carry a termination
  proof, or are partial functions into option. (A path follows at most 40 symbolic links, which is
  the kernel's own limit.) Remote calls are numbered with 64 bits, so the
  calls of one channel are bounded by \<open>2 ^ 64\<close>; messages by the codec's limit of 64 MiB.
  Other sizes are unbounded unless the code bounds them. Dates are unbounded integers.

  \<^bold>\<open>Where the code falls short\<close> is stated too, as properties or lemmas next to the operations: a failed
  write trips an assertion (or drops the output without assertions), a refused connection ends
  the process, \<open>stopRead\<close> recurses for ever, \<open>connectDestroyed\<close> stops on a closing connection, \<open>addYears\<close> loses tenths
  of a second, a server without handlers serves files, a second request that arrives together with the first waits for more
  input, a file that has been read to its end can no longer be written, and others.

  \<^bold>\<open>Not modelled\<close>: the crash handler (it installs a third-party library), marker classes and type
  aliases (no logic); the generated protobuf classes and zlib's checksum (parameters of the codec); single
  system calls and library calls whose answer is only passed on (\<open>read\<close>, \<open>write\<close>, \<open>eventfd\<close>, canonical paths, sleeping); the
  text of log statements inside other operations; tests.
\<close>

section \<open>Messages over a connection\<close>

text \<open>
  C5. Messages cross a connection intact: let one side pass any messages to
  \<open>ProtobufCodecLite::send\<close> and let its \<open>TcpConnection\<close>, in any reachable state, have taken charge of exactly the
  resulting bytes. However the kernel has split its writes so far, and however the bytes that
  went out are cut into pieces on arrival, the other side's codec has delivered exactly the
  messages whose frames have arrived completely, in order and without an error, and holds back
  less than one frame. When everything has been written and has arrived, all messages have
  been delivered and nothing is left over.
\<close>

theorem messages_end_to_end:
  assumes "cd = new_ProtobufCodecLite tag None" and "\<forall>m \<in> set ms. proto_ok lib cd m"
    and "map (codec_send lib cd e) ms = map Inr frames"
    and "conn_start kw u tid c0" and "reaches (conn_step kw u tid) c0 c" and "c_sent c = concat frames"
    and "c_wire c = concat chunks @ rest"
  shows "\<exists>k b. feed lib cd e' chunks (new_Buffer kInitialSize) = Inr (map CodecMessage (take k ms), b) \<and> k \<le> length ms \<and>
    concat (take k frames) @ contents b = concat chunks \<and> (k < length ms \<longrightarrow> length (contents b) < length (frames ! k)) \<and>
    (contents (c_outputBuffer c) = [] \<and> rest = [] \<longrightarrow> k = length ms \<and> contents b = [])"
proof -
  have cd: "codec_ok cd" "cd_rawCb cd = None" using assms(1) new_codec_ok by (simp_all add: new_ProtobufCodecLite_def)
  have frames: "frames = map (frame_of lib cd) ms"
    by (rule sent_frames [OF _ assms(3)]) (use assms(2) in \<open>simp add: proto_ok_def\<close>)
  have "c_wire c @ contents (c_outputBuffer c) = c_sent c"
    by (rule stream_inv [OF conn.reachable_inv [OF assms(4,5)]])
  then have all: "concat (map (frame_of lib cd) ms) = concat chunks @ rest @ contents (c_outputBuffer c)"
    using assms(6,7) frames by simp
  from decode_prefix [OF cd assms(2) all] obtain k r where
    k: "decode lib cd (concat chunks) = (map CodecMessage (take k ms), r)" "received lib cd ms k r (concat chunks)" by blast
  from feed_all [OF cd(1) k(1)] obtain b where
    b: "feed lib cd e' chunks (new_Buffer kInitialSize) = Inr (map CodecMessage (take k ms), b)" "contents b = r"
    by (auto elim!: returnsE)
  have "k = length ms \<and> r = []" if "contents (c_outputBuffer c) = []" "rest = []"
    using received_all [of lib cd ms k r] k(2) all that by simp
  then show ?thesis using b k(2) by (auto simp: received_def frames take_map)
qed

text \<open>A library whose messages are strings, sent as they are.\<close>

definition plain_lib :: "string message_lib" where
  "plain_lib = \<lparr>lib_ByteSizeLong = length, lib_Serialize = (\<lambda>m. m), lib_Parse = Some, lib_adler32 = (\<lambda>s. word_of_nat (length s))\<rparr>"

theorem messages_end_to_end_witness:
  "\<exists>frame c k b. codec_send plain_lib (new_ProtobufCodecLite rpctag None) LittleEndian ''hi'' = Inr frame \<and>
     reaches (conn_step all_written echo 7) sample c \<and> c_wire c = frame \<and>
     feed plain_lib (new_ProtobufCodecLite rpctag None) BigEndian [take 3 frame] (new_Buffer kInitialSize) =
       Inr (map CodecMessage (take k [''hi'']), b) \<and> contents b = drop (length (concat (take k [frame]))) (take 3 frame)"
proof -
  let ?cd = "new_ProtobufCodecLite rpctag None"
  have ok: "proto_ok plain_lib ?cd ''hi''"
    by (simp add: proto_ok_def plain_lib_def sendable_def frame_body_def Let_def new_ProtobufCodecLite_def rpctag_def kMaxMessageLen_def)
  let ?frame = "frame_of plain_lib ?cd ''hi''"
  have send: "codec_send plain_lib ?cd LittleEndian ''hi'' = Inr ?frame"
    using ok by (simp add: proto_ok_def codec_send_frame)
  from sample_sends [of ?frame] obtain c where
    c: "crun all_written echo 7 [conn_cmd.Establish, Call 7 (CallSend ?frame)] sample = Some c" "c_wire c = ?frame" "c_sent c = ?frame" by blast
  have "\<exists>k b. feed plain_lib ?cd BigEndian [take 3 ?frame] (new_Buffer kInitialSize) = Inr (map CodecMessage (take k [''hi'']), b) \<and>
      k \<le> length [''hi''] \<and> concat (take k [?frame]) @ contents b = concat [take 3 ?frame] \<and>
      (k < length [''hi''] \<longrightarrow> length (contents b) < length ([?frame] ! k)) \<and>
      (contents (c_outputBuffer c) = [] \<and> drop 3 ?frame = [] \<longrightarrow> k = length [''hi''] \<and> contents b = [])"
    by (rule messages_end_to_end [OF HOL.refl _ _ sample_start crun_reaches [OF c(1)], where e = LittleEndian])
      (use ok send c in simp_all)
  then obtain k b where kb: "feed plain_lib ?cd BigEndian [take 3 ?frame] (new_Buffer kInitialSize) = Inr (map CodecMessage (take k [''hi'']), b)"
    "concat (take k [?frame]) @ contents b = take 3 ?frame" by auto
  have "contents b = drop (length (concat (take k [?frame]))) (take 3 ?frame)"
    unfolding kb(2) [symmetric] by simp
  with kb(1) send c(2) crun_reaches [OF c(1)] show ?thesis by blast
qed

section \<open>Remote calls over bytes\<close>

text \<open>
  C3. Remote calls work over a byte stream: with requests and answers turned into bytes by the
  codec and arriving in pieces of any size on hosts of any byte order, the client and the server
  never meet a fault or a decoding error, every completion at the client belongs to a call that was
  made and carries the answer of that call, no call completes twice, and once no byte
  is under way and no handler is running every call has completed and the client's table is empty.
\<close>

theorem rpc_over_bytes:
  assumes "reaches (wire_step lib ec es handler) (wire_init services i j) w"
  shows "(\<exists>D. w_log w = map (completion services handler) D \<and> mset D \<subseteq># mset (w_calls w) \<and> distinct (map ca_id (w_calls w)) \<and>
      (w_c2s w = [] \<and> w_s2c w = [] \<and> w_pending w = [] \<longrightarrow>
         mset D = mset (w_calls w) \<and> map_of (rc_outstandings (w_client w)) = Map.empty)) \<and>
    (\<forall>chunk rest. w_c2s w = chunk @ rest \<longrightarrow> returns (wire_receive lib es chunk (w_sin w) (w_server w)) (\<lambda>x. True)) \<and>
    (\<forall>chunk rest. w_s2c w = chunk @ rest \<longrightarrow> returns (wire_receive lib ec chunk (w_cin w) (w_client w)) (\<lambda>x. True))"
proof -
  from wire_reachable [OF assms] obtain s0 s where
    s: "rpc_start services s0" "reaches (rpc_step handler) s0 s" "wire_rel lib w s" by blast
  note rel = s(3) [unfolded wire_rel_def]
  from rpc_accounts [OF rpc.reachable_inv [OF s(1,2)]] obtain D where
    D: "y_log s = map (completion services handler) D" "mset D \<subseteq># mset (y_calls s)" "distinct (map ca_id (y_calls s))"
    "y_c2s s = [] \<and> y_s2c s = [] \<and> y_pending s = [] \<longrightarrow>
       mset D = mset (y_calls s) \<and> map_of (rc_outstandings (y_client s)) = Map.empty" by blast
  have "y_c2s s = []" if "w_c2s w = []" using rel that carries_nothing [of lib "w_sin w"] by simp
  moreover have "y_s2c s = []" if "w_s2c w = []" using rel that carries_nothing [of lib "w_cin w"] by simp
  ultimately have "w_c2s w = [] \<and> w_s2c w = [] \<and> w_pending w = [] \<longrightarrow>
      mset D = mset (w_calls w) \<and> map_of (rc_outstandings (w_client w)) = Map.empty" using D(4) rel by simp
  then have "\<exists>D. w_log w = map (completion services handler) D \<and> mset D \<subseteq># mset (w_calls w) \<and> distinct (map ca_id (w_calls w)) \<and>
      (w_c2s w = [] \<and> w_s2c w = [] \<and> w_pending w = [] \<longrightarrow>
         mset D = mset (w_calls w) \<and> map_of (rc_outstandings (w_client w)) = Map.empty)"
    using D(1-3) rel by auto
  then show ?thesis using rel carries_returns [of lib] by metis
qed

text \<open>A library that knows one request.\<close>

definition one_request :: rpc_message where
  "one_request = new_RpcMessage\<lparr>rm_type := REQUEST, rm_id := 7, rm_service := Some ''echo'', rm_method := Some ''say'', rm_request := Some ''hi''\<rparr>"

definition one_lib :: "rpc_message message_lib" where
  "one_lib = \<lparr>lib_ByteSizeLong = (\<lambda>m. 1), lib_Serialize = (\<lambda>m. ''x''), lib_Parse = (\<lambda>s. Some one_request), lib_adler32 = (\<lambda>s. 0)\<rparr>"

theorem rpc_over_bytes_witness:
  "\<exists>w. reaches (wire_step one_lib LittleEndian BigEndian (\<lambda>sv me rq. rq)) (wire_init (\<lambda>sv. None) 7 0) w \<and>
     length (w_calls w) = 1 \<and> returns (wire_receive one_lib BigEndian (take 5 (w_c2s w)) (w_sin w) (w_server w)) (\<lambda>x. True)"
proof -
  let ?w = "wire_init (\<lambda>sv. None) 7 0" and ?st = "wire_step one_lib LittleEndian BigEndian (\<lambda>sv me rq. rq)"
  obtain ch where call: "CallMethod ''echo'' ''say'' ''hi'' (Some 1) (Some 2) (w_client ?w) = (ch, [one_request])"
    by (simp add: CallMethod_def wire_init_def new_RpcChannel_def one_request_def Let_def)
  have ok: "proto_ok one_lib rpc_codec one_request"
    by (simp add: proto_ok_def one_lib_def sendable_def frame_body_def Let_def rpc_codec_def new_ProtobufCodecLite_def rpctag_def
        kMaxMessageLen_def)
  then have send: "send_all one_lib LittleEndian [one_request] = Inr (frame_of one_lib rpc_codec one_request)"
    using send_all_frames [of "[one_request]"] by simp
  let ?v = "?w\<lparr>w_client := ch, w_c2s := w_c2s ?w @ frame_of one_lib rpc_codec one_request,
    w_calls := w_calls ?w @ [\<lparr>ca_id = rc_id (w_client ?w), ca_service = ''echo'', ca_method = ''say'', ca_request = ''hi'',
      ca_response = 1, ca_done = 2\<rparr>]\<rparr>"
  have "?st ?w ?v" by (rule wire_step.wcall [OF call _ _ send]) (use ok in \<open>simp_all add: wire_init_def\<close>)
  then have r: "reaches ?st ?w ?v" by (rule reaches_one [of ?st])
  have "w_c2s ?v = take 5 (w_c2s ?v) @ drop 5 (w_c2s ?v)" by (rule append_take_drop_id [symmetric])
  with rpc_over_bytes [OF r] have "returns (wire_receive one_lib BigEndian (take 5 (w_c2s ?v)) (w_sin ?v) (w_server ?v)) (\<lambda>x. True)"
    by blast
  moreover have "length (w_calls ?v) = 1" by (simp add: wire_init_def)
  ultimately show ?thesis using r by blast
qed

end
